(* ===== verification/Prelude.thy ===== *)
theory Prelude
  imports Main "HOL-Library.Word"
begin

text \<open>
  Shared vocabulary of the development: the machine integer types of the Rust sources, the
  \<open>io::Error\<close> values they raise, the \<open>?\<close> operator on \<open>Result\<close>, panics, and byte strings
  with the big- and little-endian conversions of the standard library (\<open>to_be_bytes\<close>,
  \<open>from_be_bytes\<close>, \<open>to_le_bytes\<close>, \<open>from_le_bytes\<close>), together with the generic
  lemmas on words, lists and results which the component theories use.
\<close>

unbundle bit_operations_syntax

section \<open>Types\<close>

type_synonym u8 = "8 word"
type_synonym i8 = "8 word"
type_synonym u16 = "16 word"
type_synonym u32 = "32 word"
type_synonym u64 = "64 word"
type_synonym u128 = "128 word"
type_synonym bytes = "u8 list"

text \<open>
  \<open>std::io::Error\<close>, by its kind; the message is kept where the sources give one.
\<close>

datatype io_error =
    UnexpectedEof
  | InvalidData string
  | OtherError string

text \<open>
  \<open>Result<T, E>\<close> is the sum \<open>'e + 'a\<close> with \<open>Inl\<close> for \<open>Err\<close>. A panic is not a
  \<open>Result\<close>: code that can panic returns an \<open>outcome\<close>.
\<close>

datatype 'a outcome = Return 'a | Panic string

named_theorems result_simps \<open>simplification rules of the ? operator and of readers\<close>
named_theorems byte_simps \<open>simplification rules of the byte conversions\<close>
named_theorems header_bits \<open>mask tests on header bytes as statements on single bits\<close>

section \<open>Results\<close>

definition bind_result :: "'e + 'a \<Rightarrow> ('a \<Rightarrow> 'e + 'b) \<Rightarrow> 'e + 'b" where
  "bind_result r f = (case r of Inl e \<Rightarrow> Inl e | Inr x \<Rightarrow> f x)"

lemma bind_result_Inl [simp, result_simps]: "bind_result (Inl e) f = Inl e"
  by (simp add: bind_result_def)

lemma bind_result_Inr [simp, result_simps]: "bind_result (Inr x) f = f x"
  by (simp add: bind_result_def)

lemma bind_result_cong [fundef_cong]:
  assumes "r = r'" and "\<And>x. r' = Inr x \<Longrightarrow> f x = g x"
  shows "bind_result r f = bind_result r' g"
  using assms by (cases r') auto

lemma bind_result_eq_Inr:
  "bind_result r f = Inr y \<longleftrightarrow> (\<exists>x. r = Inr x \<and> f x = Inr y)"
  by (cases r) auto

lemma bind_result_eq_Inl:
  "bind_result r f = Inl e \<longleftrightarrow> r = Inl e \<or> (\<exists>x. r = Inr x \<and> f x = Inl e)"
  by (cases r) auto

section \<open>Panics\<close>

definition bind_outcome :: "'a outcome \<Rightarrow> ('a \<Rightarrow> 'b outcome) \<Rightarrow> 'b outcome" where
  "bind_outcome r f = (case r of Return x \<Rightarrow> f x | Panic m \<Rightarrow> Panic m)"

text \<open>\<open>Result::expect\<close> and \<open>Option::expect\<close>: the value, or a panic with the message.\<close>

definition expect_result :: "'e + 'a \<Rightarrow> string \<Rightarrow> 'a outcome" where
  "expect_result r msg = (case r of Inl e \<Rightarrow> Panic msg | Inr x \<Rightarrow> Return x)"

definition expect_option :: "'a option \<Rightarrow> string \<Rightarrow> 'a outcome" where
  "expect_option r msg = (case r of None \<Rightarrow> Panic msg | Some x \<Rightarrow> Return x)"

lemma bind_outcome_simps [simp, result_simps]:
  "bind_outcome (Return x) f = f x"
  "bind_outcome (Panic m) f = Panic m"
  by (simp_all add: bind_outcome_def)

lemma bind_outcome_cong [fundef_cong]:
  assumes "r = r'" and "\<And>x. r' = Return x \<Longrightarrow> f x = g x"
  shows "bind_outcome r f = bind_outcome r' g"
  using assms by (cases r') auto

lemma bind_outcome_eq_Return:
  "bind_outcome r f = Return y \<longleftrightarrow> (\<exists>x. r = Return x \<and> f x = Return y)"
  by (cases r) auto

lemma expect_simps [simp, result_simps]:
  "expect_result (Inr x) msg = Return x"
  "expect_result (Inl e) msg = Panic msg"
  "expect_option (Some x) msg = Return x"
  "expect_option None msg = Panic msg"
  by (simp_all add: expect_result_def expect_option_def)

section \<open>Bytes of a word\<close>

text \<open>
  \<open>be_bytes n w\<close> are the \<open>n\<close> low bytes of \<open>w\<close>, the most significant first; at
  \<open>8 * n\<close> equal to the width it is \<open>w.to_be_bytes()\<close>. \<open>from_be_bytes\<close> reads them back.
\<close>

fun be_bytes :: "nat \<Rightarrow> 'a::len word \<Rightarrow> bytes" where
  "be_bytes 0 w = []"
| "be_bytes (Suc n) w = ucast (drop_bit (8 * n) w) # be_bytes n w"

text \<open>Unrolling at a numeral count.\<close>

lemma be_bytes_numeral [simp]:
  "be_bytes (numeral k) w = ucast (drop_bit (8 * pred_numeral k) w) # be_bytes (pred_numeral k) w"
  by (simp add: numeral_eq_Suc [of k])

lemma be_bytes_one [simp]: "be_bytes 1 w = [ucast w]" "be_bytes (Suc 0) w = [ucast w]"
  by simp_all

definition from_be_bytes :: "bytes \<Rightarrow> 'a::len word" where
  "from_be_bytes bs = foldl (\<lambda>acc b. push_bit 8 acc OR ucast b) 0 bs"

definition le_bytes :: "nat \<Rightarrow> 'a::len word \<Rightarrow> bytes" where
  "le_bytes n w = rev (be_bytes n w)"

definition from_le_bytes :: "bytes \<Rightarrow> 'a::len word" where
  "from_le_bytes bs = from_be_bytes (rev bs)"

lemma length_be_bytes [simp, byte_simps]: "length (be_bytes n w) = n"
  by (induction n) auto

lemma length_le_bytes [simp, byte_simps]: "length (le_bytes n w) = n"
  by (simp add: le_bytes_def)

lemma from_be_bytes_Nil [simp]: "from_be_bytes [] = 0"
  by (simp add: from_be_bytes_def)

lemma from_be_bytes_snoc:
  "(from_be_bytes (bs @ [b]) :: 'a::len word) = push_bit 8 (from_be_bytes bs) OR ucast b"
  by (simp add: from_be_bytes_def)

lemma nth_be_bytes: "i < n \<Longrightarrow> be_bytes n w ! i = ucast (drop_bit (8 * (n - Suc i)) w)"
proof (induction n arbitrary: i)
  case (Suc n)
  then show ?case by (cases i) auto
qed simp

text \<open>The value read from bytes, bit by bit: bit \<open>k\<close> is bit \<open>k mod 8\<close> of byte \<open>k div 8\<close> from the end.\<close>

lemma bit_from_be_bytes:
  "bit (from_be_bytes bs :: 'a::len word) k \<longleftrightarrow>
    k < LENGTH('a) \<and> k div 8 < length bs \<and> bit (rev bs ! (k div 8)) (k mod 8)"
proof (induction bs arbitrary: k rule: rev_induct)
  case (snoc b bs)
  show ?case
  proof (cases "k < 8")
    case True
    then show ?thesis
      by (auto simp: from_be_bytes_snoc bit_simps)
  next
    case False
    then obtain j where k: "k = j + 8" by (metis add.commute le_Suc_ex not_less)
    have "\<not> bit b k" using False by (simp add: bit_word.rep_eq bit_imp_le_length)
    then show ?thesis
      using snoc [of j] by (auto simp: k from_be_bytes_snoc bit_simps div_add_self2)
  qed
qed simp

text \<open>Round trips between words and bytes, in both directions.\<close>

lemma not_bit_byte: "8 \<le> k \<Longrightarrow> \<not> bit (b :: u8) k"
  using bit_imp_le_length [of b k] by auto

lemma from_be_bytes_be_bytes:
  "from_be_bytes (be_bytes n w) = take_bit (8 * n) (w :: 'a::len word)"
proof (rule bit_word_eqI)
  fix k assume k: "k < LENGTH('a)"
  have "bit (rev (be_bytes n w) ! (k div 8)) (k mod 8) = bit w k" if "k div 8 < n"
    using that by (simp add: rev_nth nth_be_bytes bit_simps Suc_diff_Suc)
  then show "bit (from_be_bytes (be_bytes n w) :: 'a word) k = bit (take_bit (8 * n) w) k"
    using k by (auto simp: bit_from_be_bytes bit_simps)
qed

lemma from_be_bytes_be_bytes_id [simp, byte_simps]:
  "LENGTH('a) \<le> 8 * n \<Longrightarrow> from_be_bytes (be_bytes n w) = (w :: 'a::len word)"
  by (simp add: from_be_bytes_be_bytes take_bit_word_eq_self)

lemma be_bytes_from_be_bytes [simp, byte_simps]:
  assumes "length bs = n" and "8 * n \<le> LENGTH('a::len)"
  shows "be_bytes n (from_be_bytes bs :: 'a word) = bs"
proof (rule nth_equalityI)
  fix i assume "i < length (be_bytes n (from_be_bytes bs :: 'a word))"
  then have i: "i < n" by simp
  show "be_bytes n (from_be_bytes bs :: 'a word) ! i = bs ! i"
  proof (rule bit_word_eqI)
    fix k assume "k < LENGTH(8)"
    then have k: "k < 8" by simp
    define j where "j = 8 * (n - Suc i) + k"
    have "j < 8 * n" "j div 8 = n - Suc i" "j mod 8 = k"
      using k i by (auto simp: j_def)
    then show "bit (be_bytes n (from_be_bytes bs :: 'a word) ! i) k = bit (bs ! i) k"
      using k i assms
      by (simp add: nth_be_bytes bit_simps rev_nth bit_from_be_bytes flip: j_def)
  qed
qed (use assms in simp)

lemma from_le_bytes_le_bytes_id [simp, byte_simps]:
  "LENGTH('a) \<le> 8 * n \<Longrightarrow> from_le_bytes (le_bytes n w) = (w :: 'a::len word)"
  by (simp add: from_le_bytes_def le_bytes_def)

lemma le_bytes_from_le_bytes [simp, byte_simps]:
  assumes "length bs = n" and "8 * n \<le> LENGTH('a::len)"
  shows "le_bytes n (from_le_bytes bs :: 'a word) = bs"
  using assms by (simp add: from_le_bytes_def le_bytes_def)

lemma from_be_bytes_inj:
  assumes "(from_be_bytes bs :: 'a::len word) = from_be_bytes cs"
    and "length bs = length cs" and "8 * length bs \<le> LENGTH('a)"
  shows "bs = cs"
  by (metis assms be_bytes_from_be_bytes)

lemma be_bytes_xor [byte_simps]:
  "be_bytes n (v XOR w) = map2 (XOR) (be_bytes n v) (be_bytes n w)"
proof (induction n)
  case (Suc n)
  have "(ucast (drop_bit (8 * n) (v XOR w)) :: u8)
      = ucast (drop_bit (8 * n) v) XOR ucast (drop_bit (8 * n) w)"
    by (rule bit_word_eqI) (auto simp: bit_simps)
  with Suc show ?case by simp
qed simp

section \<open>Words and lists\<close>

text \<open>A word below a power of two has no bit from there on, and conversely.\<close>

lemma unat_less_iff_bits:
  "unat (w :: 'a::len word) < 2 ^ n \<longleftrightarrow> (\<forall>k. bit w k \<longrightarrow> k < n)"
proof -
  have "unat w < 2 ^ n \<longleftrightarrow> take_bit n (unat w) = unat w"
    by (simp add: take_bit_nat_eq_self_iff)
  also have "\<dots> \<longleftrightarrow> (\<forall>k. bit w k \<longrightarrow> k < n)"
    unfolding bit_eq_iff by (auto simp: bit_take_bit_iff bit_unsigned_iff)
  finally show ?thesis .
qed

lemma not_bit_of_unat_less: "unat (w :: 'a::len word) < 2 ^ n \<Longrightarrow> n \<le> k \<Longrightarrow> \<not> bit w k"
  by (meson not_less unat_less_iff_bits)

lemma and_exp_eq_exp_iff:
  assumes "k < LENGTH('a::len)"
  shows "(w :: 'a word) AND 2 ^ k = 2 ^ k \<longleftrightarrow> bit w k"
proof
  assume "w AND 2 ^ k = 2 ^ k"
  then have "bit (w AND 2 ^ k) k"
    using assms by (simp add: bit_simps)
  then show "bit w k" by (simp add: bit_simps)
next
  assume "bit w k"
  then show "w AND 2 ^ k = 2 ^ k"
    by (intro bit_word_eqI) (auto simp: bit_simps)
qed

lemma from_be_bytes_be_bytes_unat:
  "unat (w :: 'a::len word) < 2 ^ (8 * n) \<Longrightarrow> from_be_bytes (be_bytes n w) = w"
  unfolding from_be_bytes_be_bytes
  by (rule bit_word_eqI) (auto simp: bit_simps unat_less_iff_bits)

lemma u8_eq_iff_bits:
  "a = (b :: u8) \<longleftrightarrow> bit a 0 = bit b 0 \<and> bit a 1 = bit b 1 \<and> bit a 2 = bit b 2 \<and> bit a 3 = bit b 3
     \<and> bit a 4 = bit b 4 \<and> bit a 5 = bit b 5 \<and> bit a 6 = bit b 6 \<and> bit a 7 = bit b 7"
proof
  assume bits: "bit a 0 = bit b 0 \<and> bit a 1 = bit b 1 \<and> bit a 2 = bit b 2 \<and> bit a 3 = bit b 3
     \<and> bit a 4 = bit b 4 \<and> bit a 5 = bit b 5 \<and> bit a 6 = bit b 6 \<and> bit a 7 = bit b 7"
  show "a = b"
  proof (rule bit_word_eqI)
    fix n assume "n < LENGTH(8)"
    then have "n \<in> {0, 1, 2, 3, 4, 5, 6, 7}" by auto
    then show "bit a n = bit b n" using bits by auto
  qed
qed simp

lemma unat_ucast_of_nat_8: "n < 256 \<Longrightarrow> unat (of_nat n :: u8) = n"
  by (simp add: unat_of_nat)

lemma ucast_ucast_widen [simp]:
  "LENGTH('a) \<le> LENGTH('b) \<Longrightarrow> ucast (ucast (w :: 'a::len word) :: 'b::len word) = w"
  by (rule bit_word_eqI) (simp add: bit_simps)

lemma xor_cancel_right [simp]: "(a XOR b) XOR b = (a :: 'a::len word)"
  by (simp add: xor.assoc)

lemma xor_cancel_left [simp]: "a XOR (a XOR b) = (b :: 'a::len word)"
  by (simp flip: xor.assoc)

lemma map2_xor_cancel:
  "length xs = length ys \<Longrightarrow> map2 (XOR) (map2 (XOR) ys xs) ys = (xs :: bytes)"
  by (induction xs ys rule: list_induct2) (auto simp: xor.commute xor.left_commute)

text \<open>\<open>xs[a..b]\<close>.\<close>

definition subslice :: "nat \<Rightarrow> nat \<Rightarrow> 'a list \<Rightarrow> 'a list" where
  "subslice a b xs = take (b - a) (drop a xs)"

lemma length_subslice: "b \<le> length xs \<Longrightarrow> length (subslice a b xs) = b - a"
  by (simp add: subslice_def)

lemma append_subslice:
  assumes "a \<le> b" and "b \<le> c"
  shows "subslice a b xs @ subslice b c xs = subslice a c xs"
proof -
  have "subslice a c xs = take ((b - a) + (c - b)) (drop a xs)"
    using assms by (simp add: subslice_def)
  also have "\<dots> = take (b - a) (drop a xs) @ take (c - b) (drop (b - a) (drop a xs))"
    by (rule take_add)
  finally show ?thesis using assms by (simp add: subslice_def)
qed

lemma subslice_all [simp]: "length xs \<le> b \<Longrightarrow> subslice 0 b xs = xs"
  by (simp add: subslice_def)

end
