(* ===== verification/Ping.thy ===== *)
theory Ping
  imports Prelude
begin

text \<open>
  \<open>mumble-protocol/src/ping.rs\<close>: the fixed-size UDP ping and pong packets. The \<open>TryFrom\<close> and
  \<open>From\<close> implementations are \<open>ping_try_from\<close>, \<open>ping_into\<close>, \<open>pong_try_from\<close> and
  \<open>pong_into\<close>; each pair is shown to be a bijection between packets and the byte strings
  accepted.
\<close>

section \<open>The code\<close>

record PingPacket =
  ping_id :: u64

record PongPacket =
  pong_id :: u64
  version :: u32
  users :: u32
  max_users :: u32
  bandwidth :: u32

datatype ParsePingError = InvalidSize | InvalidHeader

datatype ParsePongError = PongInvalidSize

definition ping_try_from :: "bytes \<Rightarrow> ParsePingError + PingPacket" where
  "ping_try_from buf =
    (if length buf = 12 then
       if subslice 0 4 buf \<noteq> [0, 0, 0, 0] then Inl InvalidHeader
       else Inr \<lparr>ping_id = from_be_bytes (subslice 4 12 buf)\<rparr>
     else Inl InvalidSize)"

definition ping_into :: "PingPacket \<Rightarrow> bytes" where
  "ping_into packet =
    (let id = be_bytes 8 (ping_id packet)
     in [0, 0, 0, 0, id ! 0, id ! 1, id ! 2, id ! 3, id ! 4, id ! 5, id ! 6, id ! 7])"

definition pong_try_from :: "bytes \<Rightarrow> ParsePongError + PongPacket" where
  "pong_try_from buf =
    (if length buf = 24 then
       Inr \<lparr>pong_id = from_be_bytes (subslice 4 12 buf),
            version = from_be_bytes (subslice 0 4 buf),
            users = from_be_bytes (subslice 12 16 buf),
            max_users = from_be_bytes (subslice 16 20 buf),
            bandwidth = from_be_bytes (subslice 20 24 buf)\<rparr>
     else Inl PongInvalidSize)"

definition pong_into :: "PongPacket \<Rightarrow> bytes" where
  "pong_into packet =
    (let version = be_bytes 4 (version packet);
         id = be_bytes 8 (pong_id packet);
         users = be_bytes 4 (users packet);
         max_users = be_bytes 4 (max_users packet);
         bandwidth = be_bytes 4 (bandwidth packet)
     in [version ! 0, version ! 1, version ! 2, version ! 3,
         id ! 0, id ! 1, id ! 2, id ! 3, id ! 4, id ! 5, id ! 6, id ! 7,
         users ! 0, users ! 1, users ! 2, users ! 3,
         max_users ! 0, max_users ! 1, max_users ! 2, max_users ! 3,
         bandwidth ! 0, bandwidth ! 1, bandwidth ! 2, bandwidth ! 3])"

section \<open>Layout\<close>

lemma ping_into_layout: "ping_into p = [0, 0, 0, 0] @ be_bytes 8 (ping_id p)"
  by (simp add: ping_into_def)

lemma pong_into_layout:
  "pong_into p = be_bytes 4 (version p) @ be_bytes 8 (pong_id p) @ be_bytes 4 (users p)
    @ be_bytes 4 (max_users p) @ be_bytes 4 (bandwidth p)"
  by (simp add: pong_into_def)

lemma split_at: "a \<le> length buf \<Longrightarrow> subslice 0 a buf @ subslice a (length buf) buf = buf"
  by (simp add: append_subslice)

lemma ping_into_try_from:
  assumes "ping_try_from buf = Inr p"
  shows "ping_into p = buf"
proof -
  have len: "length buf = 12" and head: "subslice 0 4 buf = [0, 0, 0, 0]"
    and id: "ping_id p = from_be_bytes (subslice 4 12 buf)"
    using assms by (auto simp: ping_try_from_def split: if_splits)
  then have "ping_into p = subslice 0 4 buf @ subslice 4 12 buf"
    by (simp only: ping_into_layout) (simp add: length_subslice del: be_bytes_numeral)
  also have "\<dots> = buf" using split_at [of 4 buf] len by simp
  finally show ?thesis .
qed

lemma pong_into_try_from:
  assumes "pong_try_from buf = Inr p"
  shows "pong_into p = buf"
proof -
  have len: "length buf = 24"
    using assms by (auto simp: pong_try_from_def split: if_splits)
  then have "pong_into p = subslice 0 4 buf @ subslice 4 12 buf @ subslice 12 16 buf
      @ subslice 16 20 buf @ subslice 20 24 buf"
    using assms by (simp only: pong_into_layout)
      (auto simp: pong_try_from_def length_subslice simp del: be_bytes_numeral)
  also have "\<dots> = buf" using len by (simp add: append_subslice)
  finally show ?thesis .
qed

lemma ping_try_from_into: "ping_try_from (ping_into p) = Inr p"
  by (simp add: ping_try_from_def ping_into_layout subslice_def del: be_bytes_numeral)

lemma pong_try_from_into: "pong_try_from (pong_into p) = Inr p"
  by (simp add: pong_try_from_def pong_into_layout subslice_def del: be_bytes_numeral)

lemma ping_try_from_errors:
  "ping_try_from buf = Inl InvalidSize \<longleftrightarrow> length buf \<noteq> 12"
  "ping_try_from buf = Inl InvalidHeader \<longleftrightarrow> length buf = 12 \<and> take 4 buf \<noteq> [0, 0, 0, 0]"
  by (simp_all add: ping_try_from_def subslice_def)

section \<open>Properties\<close>

text \<open>
  Ping packets: parsing accepts exactly the images of \<open>From<PingPacket>\<close> and inverts
  it; every other input is an error, \<open>InvalidSize\<close> exactly when it is not 12 bytes long.
\<close>

theorem ping_codec_exact:
  "(ping_try_from buf = Inr p \<longleftrightarrow> buf = ping_into p) \<and>
   (ping_try_from buf = Inl InvalidSize \<longleftrightarrow> length buf \<noteq> 12) \<and>
   (ping_try_from buf = Inl InvalidHeader \<longleftrightarrow> length buf = 12 \<and> take 4 buf \<noteq> [0, 0, 0, 0])"
  using ping_into_try_from [of buf p] ping_try_from_into [of p]
  by (auto simp: ping_try_from_errors)

text \<open>
  C38. Pong packets: parsing accepts exactly the images of \<open>From<PongPacket>\<close> and inverts
  it, so every 24-byte string is a pong; the only error is a wrong size.
\<close>

theorem pong_codec_exact:
  "(pong_try_from buf = Inr p \<longleftrightarrow> buf = pong_into p) \<and>
   (pong_try_from buf = Inl PongInvalidSize \<longleftrightarrow> length buf \<noteq> 24) \<and>
   length (pong_into p) = 24"
proof (intro conjI)
  show "length (pong_into p) = 24" by (simp add: pong_into_layout)
  show "pong_try_from buf = Inr p \<longleftrightarrow> buf = pong_into p"
    using pong_into_try_from [of buf p] pong_try_from_into [of p] by auto
  show "pong_try_from buf = Inl PongInvalidSize \<longleftrightarrow> length buf \<noteq> 24"
    by (simp add: pong_try_from_def)
qed

end
