(* ===== verification/Ocb.thy ===== *)
theory Ocb
  imports Prelude
begin

text \<open>
  The block cipher mode of \<open>mumble-protocol/src/crypt.rs\<close>: OCB2 over AES-128, which
  \<open>CryptState::ocb_encrypt\<close> and \<open>ocb_decrypt\<close> apply in place to a buffer, with the doubling
  \<open>s2\<close> and the wrappers \<open>aes_encrypt\<close> and \<open>aes_decrypt\<close>.

  AES itself is OpenSSL's: the record \<open>crypto\<close> holds its ECB operation on one block under a key, and
  the byte order of the target, an argument of the definitions. \<open>aes_ok\<close> states what is
  assumed of it: blocks keep their size, and decrypting inverts encrypting.
\<close>

unbundle bit_operations_syntax

section \<open>The code\<close>

definition BLOCK_SIZE :: nat where
  "BLOCK_SIZE = 16"

definition KEY_SIZE :: nat where
  "KEY_SIZE = 16"

datatype Mode = Encrypt | Decrypt

record crypto =
  aes_128_ecb :: "Mode \<Rightarrow> bytes \<Rightarrow> bytes \<Rightarrow> bytes"
  target_big_endian :: bool

definition aes_ok :: "crypto \<Rightarrow> bool" where
  "aes_ok cr \<longleftrightarrow>
    (\<forall>k b. length k = KEY_SIZE \<longrightarrow> length b = BLOCK_SIZE \<longrightarrow>
       length (aes_128_ecb cr Encrypt k b) = BLOCK_SIZE \<and>
       length (aes_128_ecb cr Decrypt k b) = BLOCK_SIZE \<and>
       aes_128_ecb cr Decrypt k (aes_128_ecb cr Encrypt k b) = b)"

text \<open>\<open>u128::to_be\<close>: the identity on big-endian targets, a byte swap on the others.\<close>

definition u128_to_be :: "crypto \<Rightarrow> u128 \<Rightarrow> u128" where
  "u128_to_be cr w =
    (if target_big_endian cr then w else from_be_bytes (rev (be_bytes BLOCK_SIZE w)))"

definition aes_encrypt :: "crypto \<Rightarrow> bytes \<Rightarrow> u128 \<Rightarrow> u128" where
  "aes_encrypt cr key block =
    (let out = aes_128_ecb cr Encrypt key (be_bytes BLOCK_SIZE block);
         result = out @ drop (length out) (replicate (BLOCK_SIZE * 2) 0)
     in from_be_bytes (take BLOCK_SIZE result))"

definition aes_decrypt :: "crypto \<Rightarrow> bytes \<Rightarrow> u128 \<Rightarrow> u128" where
  "aes_decrypt cr key block =
    (let out = aes_128_ecb cr Decrypt key (be_bytes BLOCK_SIZE block);
         result = out @ drop (length out) (replicate (BLOCK_SIZE * 2) 0)
     in from_be_bytes (take BLOCK_SIZE result))"

definition s2 :: "u128 \<Rightarrow> u128" where
  "s2 block =
    (let rot = word_rotl 1 block;
         carry = rot AND 1
     in rot XOR (carry * 0x86))"

text \<open>
  The \<open>while\<close> loops, which overwrite whole blocks from the front as long as more than a block is
  left: the bytes written, the last part of the buffer, the offset and the checksum.
\<close>

function ocb_encrypt_blocks ::
    "crypto \<Rightarrow> bytes \<Rightarrow> bytes \<Rightarrow> u128 \<Rightarrow> u128 \<Rightarrow> bytes \<times> bytes \<times> u128 \<times> u128" where
  "ocb_encrypt_blocks cr key buf offset checksum =
    (if length buf > BLOCK_SIZE then
       let chunk = take BLOCK_SIZE buf;
           remainder = drop BLOCK_SIZE buf;
           offset = s2 offset;
           plain = from_be_bytes chunk;
           encrypted = aes_encrypt cr key (offset XOR plain) XOR offset;
           (out, buf, offset, checksum) =
             ocb_encrypt_blocks cr key remainder offset (checksum XOR plain)
       in (be_bytes BLOCK_SIZE encrypted @ out, buf, offset, checksum)
     else ([], buf, offset, checksum))"
  by pat_completeness auto
termination
  by (relation "measure (\<lambda>(cr, key, buf, offset, checksum). length buf)") (auto simp: BLOCK_SIZE_def)

function ocb_decrypt_blocks ::
    "crypto \<Rightarrow> bytes \<Rightarrow> bytes \<Rightarrow> u128 \<Rightarrow> u128 \<Rightarrow> bytes \<times> bytes \<times> u128 \<times> u128" where
  "ocb_decrypt_blocks cr key buf offset checksum =
    (if length buf > BLOCK_SIZE then
       let chunk = take BLOCK_SIZE buf;
           remainder = drop BLOCK_SIZE buf;
           offset = s2 offset;
           encrypted = from_be_bytes chunk;
           plain = aes_decrypt cr key (offset XOR encrypted) XOR offset;
           (out, buf, offset, checksum) =
             ocb_decrypt_blocks cr key remainder offset (checksum XOR plain)
       in (be_bytes BLOCK_SIZE plain @ out, buf, offset, checksum)
     else ([], buf, offset, checksum))"
  by pat_completeness auto
termination
  by (relation "measure (\<lambda>(cr, key, buf, offset, checksum). length buf)") (auto simp: BLOCK_SIZE_def)

declare ocb_encrypt_blocks.simps [simp del] ocb_decrypt_blocks.simps [simp del]

text \<open>The buffer after the call and the tag. \<open>len\<close> is at most a block when the loop has ended.\<close>

definition ocb_encrypt :: "crypto \<Rightarrow> bytes \<Rightarrow> u128 \<Rightarrow> bytes \<Rightarrow> bytes \<times> u128" where
  "ocb_encrypt cr key encrypt_nonce buf =
    (let offset = aes_encrypt cr key (u128_to_be cr encrypt_nonce);
         (out, buf, offset, checksum) = ocb_encrypt_blocks cr key buf offset 0;
         offset = s2 offset;
         len = length buf;
         pad = aes_encrypt cr key (of_nat (len * 8) XOR offset);
         block = buf @ drop len (be_bytes BLOCK_SIZE pad);
         plain = from_be_bytes block;
         encrypted = pad XOR plain;
         buf = take len (be_bytes BLOCK_SIZE encrypted);
         checksum = checksum XOR plain
     in (out @ buf, aes_encrypt cr key (offset XOR s2 offset XOR checksum)))"

definition ocb_decrypt :: "crypto \<Rightarrow> bytes \<Rightarrow> u128 \<Rightarrow> bytes \<Rightarrow> bytes \<times> u128" where
  "ocb_decrypt cr key decrypt_nonce buf =
    (let offset = aes_encrypt cr key (u128_to_be cr decrypt_nonce);
         (out, buf, offset, checksum) = ocb_decrypt_blocks cr key buf offset 0;
         offset = s2 offset;
         len = length buf;
         pad = aes_encrypt cr key (of_nat (len * 8) XOR offset);
         block = buf @ drop len (replicate BLOCK_SIZE 0);
         plain = from_be_bytes block XOR pad;
         buf = take len (be_bytes BLOCK_SIZE plain);
         checksum = checksum XOR plain
     in (out @ buf, aes_encrypt cr key (offset XOR s2 offset XOR checksum)))"

section \<open>Blocks\<close>

lemma block_bytes [simp]:
  "from_be_bytes (be_bytes BLOCK_SIZE w) = (w :: u128)"
  "length bs = BLOCK_SIZE \<Longrightarrow> be_bytes BLOCK_SIZE (from_be_bytes bs :: u128) = bs"
  by (simp_all add: BLOCK_SIZE_def del: be_bytes_numeral)

lemma aes_decrypt_encrypt:
  assumes "aes_ok cr" and "length key = KEY_SIZE"
  shows "aes_decrypt cr key (aes_encrypt cr key b) = b"
  using assms by (simp add: aes_ok_def aes_encrypt_def aes_decrypt_def Let_def)

text \<open>\<open>s2\<close> is the doubling of \<open>GF(2^128)\<close>: a shift, reduced by the polynomial \<open>0x87\<close> on overflow.\<close>

lemma s2_doubling: "s2 b = 2 * b XOR (if bit b 127 then 0x87 else 0)"
proof -
  have rot: "word_rotl 1 b = 2 * b OR (if bit b 127 then 1 else 0)"
    by (rule bit_word_eqI) (auto simp: bit_simps mod_if)
  have carry: "word_rotl 1 b AND 1 = (if bit b 127 then 1 else 0)"
    unfolding rot by (rule bit_word_eqI) (auto simp: bit_simps)
  have "2 * b OR 1 = 2 * b XOR 1"
    by (rule bit_word_eqI) (auto simp: bit_simps)
  moreover have "(1 :: u128) XOR 0x86 = 0x87" by simp
  ultimately have "(2 * b OR 1) XOR 0x86 = 2 * b XOR (0x87 :: u128)"
    by (simp only: xor.assoc)
  then show ?thesis
    unfolding s2_def Let_def carry unfolding rot by simp
qed

section \<open>Decrypting what was encrypted\<close>

lemma ocb_encrypt_blocks_length:
  "ocb_encrypt_blocks cr key buf offset checksum = (out, rest, offset', checksum') \<Longrightarrow>
    length out + length rest = length buf \<and> length rest \<le> BLOCK_SIZE"
proof (induction cr key buf offset checksum arbitrary: out rule: ocb_encrypt_blocks.induct)
  case (1 cr key buf offset checksum)
  then show ?case
    by (subst (asm) (2) ocb_encrypt_blocks.simps) (fastforce simp: Let_def split: if_splits prod.splits)
qed

lemma ocb_decrypt_encrypt_blocks:
  assumes "aes_ok cr" and "length key = KEY_SIZE"
  shows "ocb_encrypt_blocks cr key buf offset checksum = (out, rest, offset', checksum') \<Longrightarrow>
    length c = length rest \<Longrightarrow>
    \<exists>done. ocb_decrypt_blocks cr key (out @ c) offset checksum = (done, c, offset', checksum') \<and>
      buf = done @ rest"
  using assms
proof (induction cr key buf offset checksum arbitrary: out rule: ocb_encrypt_blocks.induct)
  case (1 cr key buf offset checksum)
  show ?case
  proof (cases "length buf > BLOCK_SIZE")
    case False
    with "1.prems" show ?thesis
      by (subst (asm) ocb_encrypt_blocks.simps) (simp add: ocb_decrypt_blocks.simps)
  next
    case True
    define offset2 where "offset2 = s2 offset"
    define plain :: u128 where "plain = from_be_bytes (take BLOCK_SIZE buf)"
    define enc where "enc = aes_encrypt cr key (offset2 XOR plain) XOR offset2"
    obtain out' where rec:
      "ocb_encrypt_blocks cr key (drop BLOCK_SIZE buf) offset2 (checksum XOR plain) = (out', rest, offset', checksum')"
      and out: "out = be_bytes BLOCK_SIZE enc @ out'"
      using "1.prems"(1) True
      by (subst (asm) ocb_encrypt_blocks.simps)
        (auto simp: Let_def offset2_def plain_def enc_def split: prod.splits)
    have "length out' + length rest = length buf - BLOCK_SIZE"
      using ocb_encrypt_blocks_length [OF rec] by simp
    then have len: "BLOCK_SIZE < length (out @ c)"
      using True "1.prems"(2) by (simp add: out)
    have dec: "aes_decrypt cr key (offset2 XOR enc) XOR offset2 = plain"
      using aes_decrypt_encrypt [OF "1.prems"(3,4)] by (simp add: enc_def xor.commute xor.left_commute)
    obtain rest_done where ih:
      "ocb_decrypt_blocks cr key (out' @ c) offset2 (checksum XOR plain) = (rest_done, c, offset', checksum')"
      "drop BLOCK_SIZE buf = rest_done @ rest"
      using "1.IH" [OF True refl refl refl refl refl _ "1.prems"(2-4), of out'] rec
      by (auto simp: offset2_def plain_def)
    have "ocb_decrypt_blocks cr key (out @ c) offset checksum
        = (be_bytes BLOCK_SIZE plain @ rest_done, c, offset', checksum')"
      using len dec ih(1) by (subst ocb_decrypt_blocks.simps) (simp add: out Let_def flip: offset2_def)
    moreover have "buf = (be_bytes BLOCK_SIZE plain @ rest_done) @ rest"
      using ih(2) True by (simp add: plain_def) (metis append_take_drop_id)
    ultimately show ?thesis by blast
  qed
qed

text \<open>The last, short block: the padding makes both sides compute the same plain block.\<close>

lemma map2_xor_zero: "map2 (XOR) (replicate n 0) ys = take n (ys :: bytes)"
proof (induction n arbitrary: ys)
  case (Suc n)
  then show ?case by (cases ys) auto
qed simp

lemma last_block:
  fixes pad :: u128 and buf :: bytes
  assumes "length buf \<le> BLOCK_SIZE"
  defines "plain \<equiv> from_be_bytes (buf @ drop (length buf) (be_bytes BLOCK_SIZE pad)) :: u128"
  defines "c \<equiv> take (length buf) (be_bytes BLOCK_SIZE (pad XOR plain))"
  shows "from_be_bytes (c @ drop (length buf) (replicate BLOCK_SIZE 0)) XOR pad = plain"
    and "take (length buf) (be_bytes BLOCK_SIZE plain) = buf" and "length c = length buf"
proof -
  let ?n = "length buf" and ?p = "be_bytes BLOCK_SIZE pad"
  have plain: "be_bytes BLOCK_SIZE plain = buf @ drop ?n ?p"
    using assms(1) by (simp add: plain_def)
  then show "take ?n (be_bytes BLOCK_SIZE plain) = buf" by simp
  show len: "length c = ?n" using assms(1) by (simp add: c_def)
  have c: "c = map2 (XOR) (take ?n ?p) buf"
    by (simp add: c_def be_bytes_xor plain take_map take_zip)
  have "be_bytes BLOCK_SIZE (from_be_bytes (c @ drop ?n (replicate BLOCK_SIZE 0)) XOR pad)
      = map2 (XOR) (c @ replicate (BLOCK_SIZE - ?n) 0) ?p"
    using assms(1) len by (simp add: be_bytes_xor)
  also have "\<dots> = map2 (XOR) c (take ?n ?p) @ map2 (XOR) (replicate (BLOCK_SIZE - ?n) 0) (drop ?n ?p)"
    using len by (simp add: zip_append1)
  also have "\<dots> = buf @ drop ?n ?p"
    using assms(1) map2_xor_cancel [of buf "take ?n ?p"]
    by (simp add: c map2_xor_zero)
  finally have "be_bytes BLOCK_SIZE (from_be_bytes (c @ drop ?n (replicate BLOCK_SIZE 0)) XOR pad)
      = be_bytes BLOCK_SIZE plain"
    by (simp add: plain)
  then show "from_be_bytes (c @ drop ?n (replicate BLOCK_SIZE 0)) XOR pad = plain"
    by (metis block_bytes(1))
qed

lemma ocb_decrypt_encrypt:
  assumes "aes_ok cr" and "length key = KEY_SIZE" and "ocb_encrypt cr key nonce buf = (cipher, tag)"
  shows "ocb_decrypt cr key nonce cipher = (buf, tag)"
proof -
  define offset0 where "offset0 = aes_encrypt cr key (u128_to_be cr nonce)"
  obtain out rest offset checksum where
    enc: "ocb_encrypt_blocks cr key buf offset0 0 = (out, rest, offset, checksum)"
    by (metis prod_cases4)
  define pad where "pad = aes_encrypt cr key (of_nat (length rest * 8) XOR s2 offset)"
  define plain :: u128 where "plain = from_be_bytes (rest @ drop (length rest) (be_bytes BLOCK_SIZE pad))"
  define c where "c = take (length rest) (be_bytes BLOCK_SIZE (pad XOR plain))"
  have short: "length rest \<le> BLOCK_SIZE"
    using ocb_encrypt_blocks_length [OF enc] by simp
  note last = last_block [OF short, of pad, folded plain_def, folded c_def]
  have result: "cipher = out @ c"
    "tag = aes_encrypt cr key (s2 offset XOR s2 (s2 offset) XOR (checksum XOR plain))"
    using assms(3) enc
    by (simp_all add: ocb_encrypt_def Let_def offset0_def [symmetric] pad_def plain_def c_def)
  obtain pre where dec: "ocb_decrypt_blocks cr key (out @ c) offset0 0 = (pre, c, offset, checksum)"
    and buf: "buf = pre @ rest"
    using ocb_decrypt_encrypt_blocks [OF assms(1,2) enc last(3)] by blast
  show ?thesis
    using dec last buf
    by (simp add: ocb_decrypt_def Let_def offset0_def [symmetric] result pad_def [symmetric]
        del: of_nat_mult)
qed

lemma length_ocb_encrypt: "length (fst (ocb_encrypt cr key nonce buf)) = length buf"
proof -
  define offset0 where "offset0 = aes_encrypt cr key (u128_to_be cr nonce)"
  obtain out rest offset checksum where
    enc: "ocb_encrypt_blocks cr key buf offset0 0 = (out, rest, offset, checksum)"
    by (metis prod_cases4)
  then show ?thesis
    using ocb_encrypt_blocks_length [OF enc]
    by (simp add: ocb_encrypt_def Let_def offset0_def)
qed

section \<open>Properties\<close>

text \<open>
  C36. \<open>s2\<close> doubles in \<open>GF(2^128)\<close>: the rotate-and-correct of the code is the shift by one bit,
  reduced by the polynomial \<open>x^7 + x^2 + x + 1\<close> (\<open>0x87\<close>) when a bit is shifted out.
\<close>

theorem s2_is_doubling: "s2 block = 2 * block XOR (if bit block 127 then 0x87 else 0)"
  by (rule s2_doubling)

text \<open>
  C20. Authenticated decryption inverts encryption: under the same key and nonce,
  \<open>ocb_decrypt\<close> turns what \<open>ocb_encrypt\<close> left in the buffer back into the plain text, of the
  same length, and computes the same tag, for buffers of any length (whole blocks, a short last
  block, empty).
\<close>

theorem ocb_roundtrip:
  assumes "aes_ok cr" and "length key = KEY_SIZE"
  shows "\<exists>cipher tag. ocb_encrypt cr key nonce buf = (cipher, tag) \<and> length cipher = length buf \<and>
    ocb_decrypt cr key nonce cipher = (buf, tag)"
proof -
  obtain cipher tag where "ocb_encrypt cr key nonce buf = (cipher, tag)" by fastforce
  with ocb_decrypt_encrypt [OF assms] length_ocb_encrypt [of cr key nonce buf] show ?thesis by simp
qed

text \<open>A stand-in cipher for the witnesses: it xors the block with the key.\<close>

definition xor_crypto :: crypto where
  "xor_crypto = \<lparr>aes_128_ecb = (\<lambda>mode key block. map2 (XOR) block key), target_big_endian = False\<rparr>"

lemma xor_crypto_ok: "aes_ok xor_crypto"
proof -
  have "map2 (XOR) (map2 (XOR) b k) k = b" if "length b = length k" for b k :: bytes
    using that by (induction b k rule: list_induct2) auto
  then show ?thesis by (simp add: aes_ok_def xor_crypto_def KEY_SIZE_def BLOCK_SIZE_def)
qed

theorem ocb_roundtrip_witness:
  "\<exists>cipher tag. ocb_encrypt xor_crypto (replicate 16 0x5A) 7 [1, 2, 3] = (cipher, tag) \<and>
    length cipher = length [1, 2, 3 :: u8] \<and> ocb_decrypt xor_crypto (replicate 16 0x5A) 7 cipher = ([1, 2, 3], tag)"
  by (rule ocb_roundtrip [OF xor_crypto_ok]) (simp add: KEY_SIZE_def)

end
