(* ===== verification/Aes.thy ===== *)
theory Aes
  imports Ocb
begin

text \<open>
  AES-128, the block cipher of FIPS 197, for a run of the tests of \<open>mumble-protocol/src/crypt.rs\<close>. The repository
  calls OpenSSL for it, and in the model it is a parameter (\<open>crypto\<close>, \<open>aes_ok\<close>); here that parameter
  is given the value it has in the program. A block is a list of 16 bytes, the columns of the standard's array one
  after another.
\<close>

unbundle bit_operations_syntax

section \<open>The standard\<close>

definition S_box :: "u8 list list" where
  "S_box = [
    [0x63, 0x7C, 0x77, 0x7B, 0xF2, 0x6B, 0x6F, 0xC5, 0x30, 0x01, 0x67, 0x2B, 0xFE, 0xD7, 0xAB, 0x76],
    [0xCA, 0x82, 0xC9, 0x7D, 0xFA, 0x59, 0x47, 0xF0, 0xAD, 0xD4, 0xA2, 0xAF, 0x9C, 0xA4, 0x72, 0xC0],
    [0xB7, 0xFD, 0x93, 0x26, 0x36, 0x3F, 0xF7, 0xCC, 0x34, 0xA5, 0xE5, 0xF1, 0x71, 0xD8, 0x31, 0x15],
    [0x04, 0xC7, 0x23, 0xC3, 0x18, 0x96, 0x05, 0x9A, 0x07, 0x12, 0x80, 0xE2, 0xEB, 0x27, 0xB2, 0x75],
    [0x09, 0x83, 0x2C, 0x1A, 0x1B, 0x6E, 0x5A, 0xA0, 0x52, 0x3B, 0xD6, 0xB3, 0x29, 0xE3, 0x2F, 0x84],
    [0x53, 0xD1, 0x00, 0xED, 0x20, 0xFC, 0xB1, 0x5B, 0x6A, 0xCB, 0xBE, 0x39, 0x4A, 0x4C, 0x58, 0xCF],
    [0xD0, 0xEF, 0xAA, 0xFB, 0x43, 0x4D, 0x33, 0x85, 0x45, 0xF9, 0x02, 0x7F, 0x50, 0x3C, 0x9F, 0xA8],
    [0x51, 0xA3, 0x40, 0x8F, 0x92, 0x9D, 0x38, 0xF5, 0xBC, 0xB6, 0xDA, 0x21, 0x10, 0xFF, 0xF3, 0xD2],
    [0xCD, 0x0C, 0x13, 0xEC, 0x5F, 0x97, 0x44, 0x17, 0xC4, 0xA7, 0x7E, 0x3D, 0x64, 0x5D, 0x19, 0x73],
    [0x60, 0x81, 0x4F, 0xDC, 0x22, 0x2A, 0x90, 0x88, 0x46, 0xEE, 0xB8, 0x14, 0xDE, 0x5E, 0x0B, 0xDB],
    [0xE0, 0x32, 0x3A, 0x0A, 0x49, 0x06, 0x24, 0x5C, 0xC2, 0xD3, 0xAC, 0x62, 0x91, 0x95, 0xE4, 0x79],
    [0xE7, 0xC8, 0x37, 0x6D, 0x8D, 0xD5, 0x4E, 0xA9, 0x6C, 0x56, 0xF4, 0xEA, 0x65, 0x7A, 0xAE, 0x08],
    [0xBA, 0x78, 0x25, 0x2E, 0x1C, 0xA6, 0xB4, 0xC6, 0xE8, 0xDD, 0x74, 0x1F, 0x4B, 0xBD, 0x8B, 0x8A],
    [0x70, 0x3E, 0xB5, 0x66, 0x48, 0x03, 0xF6, 0x0E, 0x61, 0x35, 0x57, 0xB9, 0x86, 0xC1, 0x1D, 0x9E],
    [0xE1, 0xF8, 0x98, 0x11, 0x69, 0xD9, 0x8E, 0x94, 0x9B, 0x1E, 0x87, 0xE9, 0xCE, 0x55, 0x28, 0xDF],
    [0x8C, 0xA1, 0x89, 0x0D, 0xBF, 0xE6, 0x42, 0x68, 0x41, 0x99, 0x2D, 0x0F, 0xB0, 0x54, 0xBB, 0x16]]"

definition S_box_inverse :: "u8 list list" where
  "S_box_inverse = [
    [0x52, 0x09, 0x6A, 0xD5, 0x30, 0x36, 0xA5, 0x38, 0xBF, 0x40, 0xA3, 0x9E, 0x81, 0xF3, 0xD7, 0xFB],
    [0x7C, 0xE3, 0x39, 0x82, 0x9B, 0x2F, 0xFF, 0x87, 0x34, 0x8E, 0x43, 0x44, 0xC4, 0xDE, 0xE9, 0xCB],
    [0x54, 0x7B, 0x94, 0x32, 0xA6, 0xC2, 0x23, 0x3D, 0xEE, 0x4C, 0x95, 0x0B, 0x42, 0xFA, 0xC3, 0x4E],
    [0x08, 0x2E, 0xA1, 0x66, 0x28, 0xD9, 0x24, 0xB2, 0x76, 0x5B, 0xA2, 0x49, 0x6D, 0x8B, 0xD1, 0x25],
    [0x72, 0xF8, 0xF6, 0x64, 0x86, 0x68, 0x98, 0x16, 0xD4, 0xA4, 0x5C, 0xCC, 0x5D, 0x65, 0xB6, 0x92],
    [0x6C, 0x70, 0x48, 0x50, 0xFD, 0xED, 0xB9, 0xDA, 0x5E, 0x15, 0x46, 0x57, 0xA7, 0x8D, 0x9D, 0x84],
    [0x90, 0xD8, 0xAB, 0x00, 0x8C, 0xBC, 0xD3, 0x0A, 0xF7, 0xE4, 0x58, 0x05, 0xB8, 0xB3, 0x45, 0x06],
    [0xD0, 0x2C, 0x1E, 0x8F, 0xCA, 0x3F, 0x0F, 0x02, 0xC1, 0xAF, 0xBD, 0x03, 0x01, 0x13, 0x8A, 0x6B],
    [0x3A, 0x91, 0x11, 0x41, 0x4F, 0x67, 0xDC, 0xEA, 0x97, 0xF2, 0xCF, 0xCE, 0xF0, 0xB4, 0xE6, 0x73],
    [0x96, 0xAC, 0x74, 0x22, 0xE7, 0xAD, 0x35, 0x85, 0xE2, 0xF9, 0x37, 0xE8, 0x1C, 0x75, 0xDF, 0x6E],
    [0x47, 0xF1, 0x1A, 0x71, 0x1D, 0x29, 0xC5, 0x89, 0x6F, 0xB7, 0x62, 0x0E, 0xAA, 0x18, 0xBE, 0x1B],
    [0xFC, 0x56, 0x3E, 0x4B, 0xC6, 0xD2, 0x79, 0x20, 0x9A, 0xDB, 0xC0, 0xFE, 0x78, 0xCD, 0x5A, 0xF4],
    [0x1F, 0xDD, 0xA8, 0x33, 0x88, 0x07, 0xC7, 0x31, 0xB1, 0x12, 0x10, 0x59, 0x27, 0x80, 0xEC, 0x5F],
    [0x60, 0x51, 0x7F, 0xA9, 0x19, 0xB5, 0x4A, 0x0D, 0x2D, 0xE5, 0x7A, 0x9F, 0x93, 0xC9, 0x9C, 0xEF],
    [0xA0, 0xE0, 0x3B, 0x4D, 0xAE, 0x2A, 0xF5, 0xB0, 0xC8, 0xEB, 0xBB, 0x3C, 0x83, 0x53, 0x99, 0x61],
    [0x17, 0x2B, 0x04, 0x7E, 0xBA, 0x77, 0xD6, 0x26, 0xE1, 0x69, 0x14, 0x63, 0x55, 0x21, 0x0C, 0x7D]]"

text \<open>A byte selects a row by its high and a column by its low half.\<close>

definition look_up :: "u8 list list \<Rightarrow> u8 \<Rightarrow> u8" where
  "look_up box b = box ! unat (drop_bit 4 b) ! unat (b AND 0xF)"

definition SubBytes :: "bytes \<Rightarrow> bytes" where
  "SubBytes s = map (look_up S_box) s"

definition InvSubBytes :: "bytes \<Rightarrow> bytes" where
  "InvSubBytes s = map (look_up S_box_inverse) s"

text \<open>Row \<open>r\<close> is rotated by \<open>r\<close>: the byte at \<open>r + 4 * c\<close> comes from column \<open>c + r\<close>.\<close>

definition ShiftRows :: "bytes \<Rightarrow> bytes" where
  "ShiftRows s = map (\<lambda>i. s ! (5 * i mod 16)) [0..<16]"

definition InvShiftRows :: "bytes \<Rightarrow> bytes" where
  "InvShiftRows s = map (\<lambda>i. s ! (13 * i mod 16)) [0..<16]"

text \<open>Multiplication by \<open>x\<close> in \<open>GF(2^8)\<close>.\<close>

definition xtime :: "u8 \<Rightarrow> u8" where
  "xtime b = (if b < 0x80 then 2 * b else 2 * b XOR 0x1B)"

fun MixColumns :: "bytes \<Rightarrow> bytes" where
  "MixColumns (a # b # c # d # s) =
    (xtime a XOR xtime b XOR b XOR c XOR d) #
    (a XOR xtime b XOR xtime c XOR c XOR d) #
    (a XOR b XOR xtime c XOR xtime d XOR d) #
    (xtime a XOR a XOR b XOR c XOR xtime d) # MixColumns s"
| "MixColumns s = s"

definition mul9 :: "u8 \<Rightarrow> u8" where "mul9 b = xtime (xtime (xtime b)) XOR b"

definition mul11 :: "u8 \<Rightarrow> u8" where "mul11 b = xtime (xtime (xtime b)) XOR xtime b XOR b"

definition mul13 :: "u8 \<Rightarrow> u8" where "mul13 b = xtime (xtime (xtime b)) XOR xtime (xtime b) XOR b"

definition mul14 :: "u8 \<Rightarrow> u8" where "mul14 b = xtime (xtime (xtime b)) XOR xtime (xtime b) XOR xtime b"

fun InvMixColumns :: "bytes \<Rightarrow> bytes" where
  "InvMixColumns (a # b # c # d # s) =
    (mul14 a XOR mul11 b XOR mul13 c XOR mul9 d) #
    (mul9 a XOR mul14 b XOR mul11 c XOR mul13 d) #
    (mul13 a XOR mul9 b XOR mul14 c XOR mul11 d) #
    (mul11 a XOR mul13 b XOR mul9 c XOR mul14 d) # InvMixColumns s"
| "InvMixColumns s = s"

definition AddRoundKey :: "bytes \<Rightarrow> bytes \<Rightarrow> bytes" where
  "AddRoundKey s k = map2 (XOR) s k"

text \<open>The key of the next round, word by word, and all of them.\<close>

definition next_round_key :: "u8 \<Rightarrow> bytes \<Rightarrow> bytes" where
  "next_round_key rc k =
    (let temp = [look_up S_box (k ! 13) XOR rc, look_up S_box (k ! 14), look_up S_box (k ! 15), look_up S_box (k ! 12)];
         w0 = map2 (XOR) temp (take 4 k);
         w1 = map2 (XOR) w0 (take 4 (drop 4 k));
         w2 = map2 (XOR) w1 (take 4 (drop 8 k));
         w3 = map2 (XOR) w2 (take 4 (drop 12 k))
     in w0 @ w1 @ w2 @ w3)"

fun round_keys :: "bytes \<Rightarrow> u8 list \<Rightarrow> bytes list" where
  "round_keys k [] = []"
| "round_keys k (rc # rcs) = next_round_key rc k # round_keys (next_round_key rc k) rcs"

definition KeyExpansion :: "bytes \<Rightarrow> bytes list" where
  "KeyExpansion key = round_keys key [0x01, 0x02, 0x04, 0x08, 0x10, 0x20, 0x40, 0x80, 0x1B, 0x36]"

text \<open>The rounds, the last without \<open>MixColumns\<close>, and the same backwards.\<close>

fun rounds :: "bytes \<Rightarrow> bytes list \<Rightarrow> bytes" where
  "rounds s [] = s"
| "rounds s (k # ks) =
    (if ks = [] then AddRoundKey (ShiftRows (SubBytes s)) k
     else rounds (AddRoundKey (MixColumns (ShiftRows (SubBytes s))) k) ks)"

fun inv_rounds :: "bytes \<Rightarrow> bytes list \<Rightarrow> bytes" where
  "inv_rounds s [] = s"
| "inv_rounds s (k # ks) =
    (if ks = [] then InvSubBytes (InvShiftRows (AddRoundKey s k))
     else InvSubBytes (InvShiftRows (InvMixColumns (AddRoundKey (inv_rounds s ks) k))))"

definition Cipher :: "bytes \<Rightarrow> bytes \<Rightarrow> bytes" where
  "Cipher key block = rounds (AddRoundKey block key) (KeyExpansion key)"

definition InvCipher :: "bytes \<Rightarrow> bytes \<Rightarrow> bytes" where
  "InvCipher key block = AddRoundKey (inv_rounds block (KeyExpansion key)) key"

text \<open>What the model takes from its environment: the cipher, and a little-endian target.\<close>

definition aes128 :: crypto where
  "aes128 = \<lparr>aes_128_ecb = (\<lambda>mode. case mode of Encrypt \<Rightarrow> Cipher | Decrypt \<Rightarrow> InvCipher), target_big_endian = False\<rparr>"

section \<open>Decrypting inverts encrypting\<close>

lemma length_steps [simp]:
  "length (SubBytes s) = length s" "length (InvSubBytes s) = length s"
  "length (ShiftRows s) = 16" "length (InvShiftRows s) = 16"
  "length (AddRoundKey s k) = min (length s) (length k)"
  by (simp_all add: SubBytes_def InvSubBytes_def ShiftRows_def InvShiftRows_def AddRoundKey_def)

lemma length_MixColumns [simp]: "length (MixColumns s) = length s"
  by (induction s rule: MixColumns.induct) simp_all

lemma length_InvMixColumns [simp]: "length (InvMixColumns s) = length s"
  by (induction s rule: InvMixColumns.induct) simp_all

text \<open>Rows of the tables, so that evaluation need not unfold a table for each byte.\<close>

lemma S_box_rows:
  "S_box ! 0 = [0x63, 0x7C, 0x77, 0x7B, 0xF2, 0x6B, 0x6F, 0xC5, 0x30, 0x01, 0x67, 0x2B, 0xFE, 0xD7, 0xAB, 0x76]"
  "S_box ! Suc 0 = [0xCA, 0x82, 0xC9, 0x7D, 0xFA, 0x59, 0x47, 0xF0, 0xAD, 0xD4, 0xA2, 0xAF, 0x9C, 0xA4, 0x72, 0xC0]"
  "S_box ! 2 = [0xB7, 0xFD, 0x93, 0x26, 0x36, 0x3F, 0xF7, 0xCC, 0x34, 0xA5, 0xE5, 0xF1, 0x71, 0xD8, 0x31, 0x15]"
  "S_box ! 3 = [0x04, 0xC7, 0x23, 0xC3, 0x18, 0x96, 0x05, 0x9A, 0x07, 0x12, 0x80, 0xE2, 0xEB, 0x27, 0xB2, 0x75]"
  "S_box ! 4 = [0x09, 0x83, 0x2C, 0x1A, 0x1B, 0x6E, 0x5A, 0xA0, 0x52, 0x3B, 0xD6, 0xB3, 0x29, 0xE3, 0x2F, 0x84]"
  "S_box ! 5 = [0x53, 0xD1, 0x00, 0xED, 0x20, 0xFC, 0xB1, 0x5B, 0x6A, 0xCB, 0xBE, 0x39, 0x4A, 0x4C, 0x58, 0xCF]"
  "S_box ! 6 = [0xD0, 0xEF, 0xAA, 0xFB, 0x43, 0x4D, 0x33, 0x85, 0x45, 0xF9, 0x02, 0x7F, 0x50, 0x3C, 0x9F, 0xA8]"
  "S_box ! 7 = [0x51, 0xA3, 0x40, 0x8F, 0x92, 0x9D, 0x38, 0xF5, 0xBC, 0xB6, 0xDA, 0x21, 0x10, 0xFF, 0xF3, 0xD2]"
  "S_box ! 8 = [0xCD, 0x0C, 0x13, 0xEC, 0x5F, 0x97, 0x44, 0x17, 0xC4, 0xA7, 0x7E, 0x3D, 0x64, 0x5D, 0x19, 0x73]"
  "S_box ! 9 = [0x60, 0x81, 0x4F, 0xDC, 0x22, 0x2A, 0x90, 0x88, 0x46, 0xEE, 0xB8, 0x14, 0xDE, 0x5E, 0x0B, 0xDB]"
  "S_box ! 10 = [0xE0, 0x32, 0x3A, 0x0A, 0x49, 0x06, 0x24, 0x5C, 0xC2, 0xD3, 0xAC, 0x62, 0x91, 0x95, 0xE4, 0x79]"
  "S_box ! 11 = [0xE7, 0xC8, 0x37, 0x6D, 0x8D, 0xD5, 0x4E, 0xA9, 0x6C, 0x56, 0xF4, 0xEA, 0x65, 0x7A, 0xAE, 0x08]"
  "S_box ! 12 = [0xBA, 0x78, 0x25, 0x2E, 0x1C, 0xA6, 0xB4, 0xC6, 0xE8, 0xDD, 0x74, 0x1F, 0x4B, 0xBD, 0x8B, 0x8A]"
  "S_box ! 13 = [0x70, 0x3E, 0xB5, 0x66, 0x48, 0x03, 0xF6, 0x0E, 0x61, 0x35, 0x57, 0xB9, 0x86, 0xC1, 0x1D, 0x9E]"
  "S_box ! 14 = [0xE1, 0xF8, 0x98, 0x11, 0x69, 0xD9, 0x8E, 0x94, 0x9B, 0x1E, 0x87, 0xE9, 0xCE, 0x55, 0x28, 0xDF]"
  "S_box ! 15 = [0x8C, 0xA1, 0x89, 0x0D, 0xBF, 0xE6, 0x42, 0x68, 0x41, 0x99, 0x2D, 0x0F, 0xB0, 0x54, 0xBB, 0x16]"
  by (simp_all add: S_box_def)

lemma S_box_inverse_rows:
  "S_box_inverse ! 0 = [0x52, 0x09, 0x6A, 0xD5, 0x30, 0x36, 0xA5, 0x38, 0xBF, 0x40, 0xA3, 0x9E, 0x81, 0xF3, 0xD7, 0xFB]"
  "S_box_inverse ! Suc 0 = [0x7C, 0xE3, 0x39, 0x82, 0x9B, 0x2F, 0xFF, 0x87, 0x34, 0x8E, 0x43, 0x44, 0xC4, 0xDE, 0xE9, 0xCB]"
  "S_box_inverse ! 2 = [0x54, 0x7B, 0x94, 0x32, 0xA6, 0xC2, 0x23, 0x3D, 0xEE, 0x4C, 0x95, 0x0B, 0x42, 0xFA, 0xC3, 0x4E]"
  "S_box_inverse ! 3 = [0x08, 0x2E, 0xA1, 0x66, 0x28, 0xD9, 0x24, 0xB2, 0x76, 0x5B, 0xA2, 0x49, 0x6D, 0x8B, 0xD1, 0x25]"
  "S_box_inverse ! 4 = [0x72, 0xF8, 0xF6, 0x64, 0x86, 0x68, 0x98, 0x16, 0xD4, 0xA4, 0x5C, 0xCC, 0x5D, 0x65, 0xB6, 0x92]"
  "S_box_inverse ! 5 = [0x6C, 0x70, 0x48, 0x50, 0xFD, 0xED, 0xB9, 0xDA, 0x5E, 0x15, 0x46, 0x57, 0xA7, 0x8D, 0x9D, 0x84]"
  "S_box_inverse ! 6 = [0x90, 0xD8, 0xAB, 0x00, 0x8C, 0xBC, 0xD3, 0x0A, 0xF7, 0xE4, 0x58, 0x05, 0xB8, 0xB3, 0x45, 0x06]"
  "S_box_inverse ! 7 = [0xD0, 0x2C, 0x1E, 0x8F, 0xCA, 0x3F, 0x0F, 0x02, 0xC1, 0xAF, 0xBD, 0x03, 0x01, 0x13, 0x8A, 0x6B]"
  "S_box_inverse ! 8 = [0x3A, 0x91, 0x11, 0x41, 0x4F, 0x67, 0xDC, 0xEA, 0x97, 0xF2, 0xCF, 0xCE, 0xF0, 0xB4, 0xE6, 0x73]"
  "S_box_inverse ! 9 = [0x96, 0xAC, 0x74, 0x22, 0xE7, 0xAD, 0x35, 0x85, 0xE2, 0xF9, 0x37, 0xE8, 0x1C, 0x75, 0xDF, 0x6E]"
  "S_box_inverse ! 10 = [0x47, 0xF1, 0x1A, 0x71, 0x1D, 0x29, 0xC5, 0x89, 0x6F, 0xB7, 0x62, 0x0E, 0xAA, 0x18, 0xBE, 0x1B]"
  "S_box_inverse ! 11 = [0xFC, 0x56, 0x3E, 0x4B, 0xC6, 0xD2, 0x79, 0x20, 0x9A, 0xDB, 0xC0, 0xFE, 0x78, 0xCD, 0x5A, 0xF4]"
  "S_box_inverse ! 12 = [0x1F, 0xDD, 0xA8, 0x33, 0x88, 0x07, 0xC7, 0x31, 0xB1, 0x12, 0x10, 0x59, 0x27, 0x80, 0xEC, 0x5F]"
  "S_box_inverse ! 13 = [0x60, 0x51, 0x7F, 0xA9, 0x19, 0xB5, 0x4A, 0x0D, 0x2D, 0xE5, 0x7A, 0x9F, 0x93, 0xC9, 0x9C, 0xEF]"
  "S_box_inverse ! 14 = [0xA0, 0xE0, 0x3B, 0x4D, 0xAE, 0x2A, 0xF5, 0xB0, 0xC8, 0xEB, 0xBB, 0x3C, 0x83, 0x53, 0x99, 0x61]"
  "S_box_inverse ! 15 = [0x17, 0x2B, 0x04, 0x7E, 0xBA, 0x77, 0xD6, 0x26, 0xE1, 0x69, 0x14, 0x63, 0x55, 0x21, 0x0C, 0x7D]"
  by (simp_all add: S_box_inverse_def)

lemma S_box_inverse:
  "list_all (\<lambda>b. look_up S_box_inverse (look_up S_box (word_of_nat b)) = word_of_nat b) [0..<256]"
  by (simp add: look_up_def S_box_rows S_box_inverse_rows upt_rec)

lemma look_up_inverse: "look_up S_box_inverse (look_up S_box b) = b"
proof -
  have "unat b \<in> set [0..<256]" using unsigned_less [of b] by simp
  with S_box_inverse have "look_up S_box_inverse (look_up S_box (of_nat (unat b))) = of_nat (unat b)"
    unfolding list_all_iff by blast
  then show ?thesis by simp
qed

lemma InvSubBytes_SubBytes [simp]: "InvSubBytes (SubBytes s) = s"
  by (simp add: SubBytes_def InvSubBytes_def comp_def look_up_inverse)

lemma InvShiftRows_ShiftRows [simp]:
  assumes "length s = 16"
  shows "InvShiftRows (ShiftRows s) = s"
proof (rule nth_equalityI)
  fix i assume "i < length (InvShiftRows (ShiftRows s))"
  then have "i < 16" by simp
  moreover have "5 * (13 * i mod 16) mod 16 = (i + 16 * (4 * i)) mod 16" by (simp add: mod_mult_right_eq)
  then have "5 * (13 * i mod 16) mod 16 = i" using \<open>i < 16\<close> by (simp only: mod_mult_self2 mod_less)
  ultimately show "InvShiftRows (ShiftRows s) ! i = s ! i"
    by (simp add: InvShiftRows_def ShiftRows_def)
qed (simp add: assms)

lemma AddRoundKey_twice [simp]:
  "length s \<le> length k \<Longrightarrow> AddRoundKey (AddRoundKey s k) k = s"
  unfolding AddRoundKey_def
  by (induction s k rule: list_induct2') (simp_all add: xor.assoc)

text \<open>\<open>xtime\<close> is linear, which is all that the inverse of \<open>MixColumns\<close> needs: no product of their coefficients has to be reduced.\<close>

lemma xtime_bit: "xtime b = 2 * b XOR (if bit b 7 then 0x1B else 0)"
proof -
  have "bit b 7 \<longleftrightarrow> odd (unat b div 128)"
    using bit_unsigned_iff [of b 7, where 'a = nat] by (simp add: bit_iff_odd)
  moreover have "unat b < 256" using unsigned_less [of b] by simp
  then have "unat b div 128 \<in> {0, 1}" by auto
  ultimately have "bit b 7 \<longleftrightarrow> \<not> b < 0x80" by (auto simp: word_less_nat_alt)
  then show ?thesis by (simp add: xtime_def)
qed

lemma xtime_xor: "xtime (a XOR b) = xtime a XOR xtime b"
proof -
  have "2 * (a XOR b) = 2 * a XOR 2 * b" by (rule bit_word_eqI) (auto simp: bit_simps)
  then show ?thesis by (simp add: xtime_bit bit_simps ac_simps)
qed

lemmas gf_simps = xtime_xor mul9_def mul11_def mul13_def mul14_def xor.assoc xor.commute xor.left_commute

lemma InvMixColumns_MixColumns [simp]: "InvMixColumns (MixColumns s) = s"
  by (induction s rule: MixColumns.induct) (simp_all add: gf_simps)

lemma length_next_round_key [simp]: "length k = 16 \<Longrightarrow> length (next_round_key rc k) = 16"
  by (simp add: next_round_key_def Let_def)

lemma length_round_keys: "length k = 16 \<Longrightarrow> list_all (\<lambda>k. length k = 16) (round_keys k rcs)"
  by (induction rcs arbitrary: k) simp_all

lemma length_rounds:
  "length s = 16 \<Longrightarrow> list_all (\<lambda>k. length k = 16) ks \<Longrightarrow> length (rounds s ks) = 16 \<and> length (inv_rounds s ks) = 16"
  by (induction ks arbitrary: s) simp_all

lemma inv_rounds_rounds:
  "length s = 16 \<Longrightarrow> list_all (\<lambda>k. length k = 16) ks \<Longrightarrow> inv_rounds (rounds s ks) ks = s"
  by (induction ks arbitrary: s) simp_all

text \<open>The assumption on the cipher holds for it.\<close>

lemma aes128_ok: "aes_ok aes128"
proof -
  have "list_all (\<lambda>k. length k = 16) (KeyExpansion k)" if "length k = 16" for k
    using that by (simp add: KeyExpansion_def length_round_keys)
  then show ?thesis
    by (simp add: aes_ok_def aes128_def Cipher_def InvCipher_def KEY_SIZE_def BLOCK_SIZE_def
        length_rounds inv_rounds_rounds)
qed

section \<open>Evaluation\<close>

text \<open>The table, entry by entry.\<close>

lemma look_up_S_box:
  "look_up S_box 0x00 = 0x63" "look_up S_box 0x01 = 0x7C" "look_up S_box 0x02 = 0x77" "look_up S_box 0x03 = 0x7B"
  "look_up S_box 0x04 = 0xF2" "look_up S_box 0x05 = 0x6B" "look_up S_box 0x06 = 0x6F" "look_up S_box 0x07 = 0xC5"
  "look_up S_box 0x08 = 0x30" "look_up S_box 0x09 = 0x01" "look_up S_box 0x0A = 0x67" "look_up S_box 0x0B = 0x2B"
  "look_up S_box 0x0C = 0xFE" "look_up S_box 0x0D = 0xD7" "look_up S_box 0x0E = 0xAB" "look_up S_box 0x0F = 0x76"
  "look_up S_box 0x10 = 0xCA" "look_up S_box 0x11 = 0x82" "look_up S_box 0x12 = 0xC9" "look_up S_box 0x13 = 0x7D"
  "look_up S_box 0x14 = 0xFA" "look_up S_box 0x15 = 0x59" "look_up S_box 0x16 = 0x47" "look_up S_box 0x17 = 0xF0"
  "look_up S_box 0x18 = 0xAD" "look_up S_box 0x19 = 0xD4" "look_up S_box 0x1A = 0xA2" "look_up S_box 0x1B = 0xAF"
  "look_up S_box 0x1C = 0x9C" "look_up S_box 0x1D = 0xA4" "look_up S_box 0x1E = 0x72" "look_up S_box 0x1F = 0xC0"
  "look_up S_box 0x20 = 0xB7" "look_up S_box 0x21 = 0xFD" "look_up S_box 0x22 = 0x93" "look_up S_box 0x23 = 0x26"
  "look_up S_box 0x24 = 0x36" "look_up S_box 0x25 = 0x3F" "look_up S_box 0x26 = 0xF7" "look_up S_box 0x27 = 0xCC"
  "look_up S_box 0x28 = 0x34" "look_up S_box 0x29 = 0xA5" "look_up S_box 0x2A = 0xE5" "look_up S_box 0x2B = 0xF1"
  "look_up S_box 0x2C = 0x71" "look_up S_box 0x2D = 0xD8" "look_up S_box 0x2E = 0x31" "look_up S_box 0x2F = 0x15"
  "look_up S_box 0x30 = 0x04" "look_up S_box 0x31 = 0xC7" "look_up S_box 0x32 = 0x23" "look_up S_box 0x33 = 0xC3"
  "look_up S_box 0x34 = 0x18" "look_up S_box 0x35 = 0x96" "look_up S_box 0x36 = 0x05" "look_up S_box 0x37 = 0x9A"
  "look_up S_box 0x38 = 0x07" "look_up S_box 0x39 = 0x12" "look_up S_box 0x3A = 0x80" "look_up S_box 0x3B = 0xE2"
  "look_up S_box 0x3C = 0xEB" "look_up S_box 0x3D = 0x27" "look_up S_box 0x3E = 0xB2" "look_up S_box 0x3F = 0x75"
  "look_up S_box 0x40 = 0x09" "look_up S_box 0x41 = 0x83" "look_up S_box 0x42 = 0x2C" "look_up S_box 0x43 = 0x1A"
  "look_up S_box 0x44 = 0x1B" "look_up S_box 0x45 = 0x6E" "look_up S_box 0x46 = 0x5A" "look_up S_box 0x47 = 0xA0"
  "look_up S_box 0x48 = 0x52" "look_up S_box 0x49 = 0x3B" "look_up S_box 0x4A = 0xD6" "look_up S_box 0x4B = 0xB3"
  "look_up S_box 0x4C = 0x29" "look_up S_box 0x4D = 0xE3" "look_up S_box 0x4E = 0x2F" "look_up S_box 0x4F = 0x84"
  "look_up S_box 0x50 = 0x53" "look_up S_box 0x51 = 0xD1" "look_up S_box 0x52 = 0x00" "look_up S_box 0x53 = 0xED"
  "look_up S_box 0x54 = 0x20" "look_up S_box 0x55 = 0xFC" "look_up S_box 0x56 = 0xB1" "look_up S_box 0x57 = 0x5B"
  "look_up S_box 0x58 = 0x6A" "look_up S_box 0x59 = 0xCB" "look_up S_box 0x5A = 0xBE" "look_up S_box 0x5B = 0x39"
  "look_up S_box 0x5C = 0x4A" "look_up S_box 0x5D = 0x4C" "look_up S_box 0x5E = 0x58" "look_up S_box 0x5F = 0xCF"
  "look_up S_box 0x60 = 0xD0" "look_up S_box 0x61 = 0xEF" "look_up S_box 0x62 = 0xAA" "look_up S_box 0x63 = 0xFB"
  "look_up S_box 0x64 = 0x43" "look_up S_box 0x65 = 0x4D" "look_up S_box 0x66 = 0x33" "look_up S_box 0x67 = 0x85"
  "look_up S_box 0x68 = 0x45" "look_up S_box 0x69 = 0xF9" "look_up S_box 0x6A = 0x02" "look_up S_box 0x6B = 0x7F"
  "look_up S_box 0x6C = 0x50" "look_up S_box 0x6D = 0x3C" "look_up S_box 0x6E = 0x9F" "look_up S_box 0x6F = 0xA8"
  "look_up S_box 0x70 = 0x51" "look_up S_box 0x71 = 0xA3" "look_up S_box 0x72 = 0x40" "look_up S_box 0x73 = 0x8F"
  "look_up S_box 0x74 = 0x92" "look_up S_box 0x75 = 0x9D" "look_up S_box 0x76 = 0x38" "look_up S_box 0x77 = 0xF5"
  "look_up S_box 0x78 = 0xBC" "look_up S_box 0x79 = 0xB6" "look_up S_box 0x7A = 0xDA" "look_up S_box 0x7B = 0x21"
  "look_up S_box 0x7C = 0x10" "look_up S_box 0x7D = 0xFF" "look_up S_box 0x7E = 0xF3" "look_up S_box 0x7F = 0xD2"
  "look_up S_box 0x80 = 0xCD" "look_up S_box 0x81 = 0x0C" "look_up S_box 0x82 = 0x13" "look_up S_box 0x83 = 0xEC"
  "look_up S_box 0x84 = 0x5F" "look_up S_box 0x85 = 0x97" "look_up S_box 0x86 = 0x44" "look_up S_box 0x87 = 0x17"
  "look_up S_box 0x88 = 0xC4" "look_up S_box 0x89 = 0xA7" "look_up S_box 0x8A = 0x7E" "look_up S_box 0x8B = 0x3D"
  "look_up S_box 0x8C = 0x64" "look_up S_box 0x8D = 0x5D" "look_up S_box 0x8E = 0x19" "look_up S_box 0x8F = 0x73"
  "look_up S_box 0x90 = 0x60" "look_up S_box 0x91 = 0x81" "look_up S_box 0x92 = 0x4F" "look_up S_box 0x93 = 0xDC"
  "look_up S_box 0x94 = 0x22" "look_up S_box 0x95 = 0x2A" "look_up S_box 0x96 = 0x90" "look_up S_box 0x97 = 0x88"
  "look_up S_box 0x98 = 0x46" "look_up S_box 0x99 = 0xEE" "look_up S_box 0x9A = 0xB8" "look_up S_box 0x9B = 0x14"
  "look_up S_box 0x9C = 0xDE" "look_up S_box 0x9D = 0x5E" "look_up S_box 0x9E = 0x0B" "look_up S_box 0x9F = 0xDB"
  "look_up S_box 0xA0 = 0xE0" "look_up S_box 0xA1 = 0x32" "look_up S_box 0xA2 = 0x3A" "look_up S_box 0xA3 = 0x0A"
  "look_up S_box 0xA4 = 0x49" "look_up S_box 0xA5 = 0x06" "look_up S_box 0xA6 = 0x24" "look_up S_box 0xA7 = 0x5C"
  "look_up S_box 0xA8 = 0xC2" "look_up S_box 0xA9 = 0xD3" "look_up S_box 0xAA = 0xAC" "look_up S_box 0xAB = 0x62"
  "look_up S_box 0xAC = 0x91" "look_up S_box 0xAD = 0x95" "look_up S_box 0xAE = 0xE4" "look_up S_box 0xAF = 0x79"
  "look_up S_box 0xB0 = 0xE7" "look_up S_box 0xB1 = 0xC8" "look_up S_box 0xB2 = 0x37" "look_up S_box 0xB3 = 0x6D"
  "look_up S_box 0xB4 = 0x8D" "look_up S_box 0xB5 = 0xD5" "look_up S_box 0xB6 = 0x4E" "look_up S_box 0xB7 = 0xA9"
  "look_up S_box 0xB8 = 0x6C" "look_up S_box 0xB9 = 0x56" "look_up S_box 0xBA = 0xF4" "look_up S_box 0xBB = 0xEA"
  "look_up S_box 0xBC = 0x65" "look_up S_box 0xBD = 0x7A" "look_up S_box 0xBE = 0xAE" "look_up S_box 0xBF = 0x08"
  "look_up S_box 0xC0 = 0xBA" "look_up S_box 0xC1 = 0x78" "look_up S_box 0xC2 = 0x25" "look_up S_box 0xC3 = 0x2E"
  "look_up S_box 0xC4 = 0x1C" "look_up S_box 0xC5 = 0xA6" "look_up S_box 0xC6 = 0xB4" "look_up S_box 0xC7 = 0xC6"
  "look_up S_box 0xC8 = 0xE8" "look_up S_box 0xC9 = 0xDD" "look_up S_box 0xCA = 0x74" "look_up S_box 0xCB = 0x1F"
  "look_up S_box 0xCC = 0x4B" "look_up S_box 0xCD = 0xBD" "look_up S_box 0xCE = 0x8B" "look_up S_box 0xCF = 0x8A"
  "look_up S_box 0xD0 = 0x70" "look_up S_box 0xD1 = 0x3E" "look_up S_box 0xD2 = 0xB5" "look_up S_box 0xD3 = 0x66"
  "look_up S_box 0xD4 = 0x48" "look_up S_box 0xD5 = 0x03" "look_up S_box 0xD6 = 0xF6" "look_up S_box 0xD7 = 0x0E"
  "look_up S_box 0xD8 = 0x61" "look_up S_box 0xD9 = 0x35" "look_up S_box 0xDA = 0x57" "look_up S_box 0xDB = 0xB9"
  "look_up S_box 0xDC = 0x86" "look_up S_box 0xDD = 0xC1" "look_up S_box 0xDE = 0x1D" "look_up S_box 0xDF = 0x9E"
  "look_up S_box 0xE0 = 0xE1" "look_up S_box 0xE1 = 0xF8" "look_up S_box 0xE2 = 0x98" "look_up S_box 0xE3 = 0x11"
  "look_up S_box 0xE4 = 0x69" "look_up S_box 0xE5 = 0xD9" "look_up S_box 0xE6 = 0x8E" "look_up S_box 0xE7 = 0x94"
  "look_up S_box 0xE8 = 0x9B" "look_up S_box 0xE9 = 0x1E" "look_up S_box 0xEA = 0x87" "look_up S_box 0xEB = 0xE9"
  "look_up S_box 0xEC = 0xCE" "look_up S_box 0xED = 0x55" "look_up S_box 0xEE = 0x28" "look_up S_box 0xEF = 0xDF"
  "look_up S_box 0xF0 = 0x8C" "look_up S_box 0xF1 = 0xA1" "look_up S_box 0xF2 = 0x89" "look_up S_box 0xF3 = 0x0D"
  "look_up S_box 0xF4 = 0xBF" "look_up S_box 0xF5 = 0xE6" "look_up S_box 0xF6 = 0x42" "look_up S_box 0xF7 = 0x68"
  "look_up S_box 0xF8 = 0x41" "look_up S_box 0xF9 = 0x99" "look_up S_box 0xFA = 0x2D" "look_up S_box 0xFB = 0x0F"
  "look_up S_box 0xFC = 0xB0" "look_up S_box 0xFD = 0x54" "look_up S_box 0xFE = 0xBB" "look_up S_box 0xFF = 0x16"
  by (simp_all add: look_up_def S_box_rows)

lemma ShiftRows_eval:
  "ShiftRows [a0, a1, a2, a3, a4, a5, a6, a7, a8, a9, a10, a11, a12, a13, a14, a15] =
    [a0, a5, a10, a15, a4, a9, a14, a3, a8, a13, a2, a7, a12, a1, a6, a11]"
  by (simp add: ShiftRows_def upt_rec)

text \<open>Doubling within the range of a byte, which keeps the numerals of an evaluation small.\<close>

lemma xtime_eval: "xtime b = (if b < 0x80 then 2 * b else 2 * (b - 0x80) XOR 0x1B)"
proof -
  have "(0x100 :: u8) = 0" by simp
  then have "2 * (b - 0x80) = 2 * b" by (simp add: right_diff_distrib)
  then show ?thesis by (simp only: xtime_def)
qed

lemmas aes_eval = AddRoundKey_def SubBytes_def ShiftRows_eval look_up_S_box xtime_eval

lemma be_bytes_eqI:
  "(from_be_bytes bs :: u128) = w \<Longrightarrow> length bs = 16 \<Longrightarrow> be_bytes 16 w = bs"
  using be_bytes_from_be_bytes [of bs 16, where 'a = 128] by (simp del: be_bytes_numeral)

lemma aes_encrypt_eval:
  assumes "Cipher key bs = cs" and "from_be_bytes bs = block" and "from_be_bytes cs = out" and "length bs = 16" and "length cs = 16"
  shows "aes_encrypt aes128 key block = out"
proof -
  have "Cipher key (be_bytes 16 block) = be_bytes 16 out"
    using assms(1) be_bytes_eqI [OF assms(2,4)] be_bytes_eqI [OF assms(3,5)] by (simp del: be_bytes_numeral)
  then show ?thesis by (simp add: aes_encrypt_def aes128_def BLOCK_SIZE_def del: be_bytes_numeral)
qed

end
