(* ===== verification/Codec.thy ===== *)
theory Codec
  imports Prelude
begin

text \<open>
  The interfaces between the codecs of \<open>mumble-protocol\<close> and their clients.
  \<open>prefix_codec\<close> is the contract of an encoder and a decoder that reads its value from the
  front of the input and hands back the rest (\<open>read_varint\<close>, the session ids of voice
  packets, the frames of the control channel). \<open>byte_sink\<close> is an \<open>io::Write\<close> that
  accepts every byte. \<open>stream_decoder\<close> is the \<open>tokio_util\<close> \<open>Decoder\<close> contract of a codec
  that is fed a byte stream in chunks.
\<close>

section \<open>Encoders and decoders with a remainder\<close>

locale prefix_codec =
  fixes valid :: "'a \<Rightarrow> bool"
    and enc :: "'a \<Rightarrow> bytes"
    and dec :: "bytes \<Rightarrow> 'e + 'a \<times> bytes"
  assumes dec_enc: "valid x \<Longrightarrow> dec (enc x @ rest) = Inr (x, rest)"
begin

lemma dec_enc_exact: "valid x \<Longrightarrow> dec (enc x) = Inr (x, [])"
  using dec_enc [of x "[]"] by simp

text \<open>No encoding is a proper prefix of another, so concatenations parse uniquely.\<close>

lemma enc_prefix_free:
  assumes "valid x" and "valid y" and "enc x @ r = enc y @ s"
  shows "x = y \<and> r = s"
  by (metis assms dec_enc sum.inject(2) prod.inject)

lemma enc_inj: "valid x \<Longrightarrow> valid y \<Longrightarrow> enc x = enc y \<Longrightarrow> x = y"
  using enc_prefix_free [of x y "[]" "[]"] by simp

lemma enc_concat_inj:
  assumes "list_all valid xs" and "list_all valid ys" and "length xs = length ys"
    and "concat (map enc xs) @ r = concat (map enc ys) @ s"
  shows "xs = ys \<and> r = s"
  using assms(3,1,2,4)
proof (induction xs ys rule: list_induct2)
  case (Cons x xs y ys)
  then have "x = y \<and> concat (map enc xs) @ r = concat (map enc ys) @ s"
    by (intro enc_prefix_free) auto
  with Cons show ?case by simp
qed simp

end

section \<open>Writers that accept every byte\<close>

locale byte_sink =
  fixes write_u8 :: "'w \<Rightarrow> u8 \<Rightarrow> io_error + 'w"
    and contents :: "'w \<Rightarrow> bytes"
  assumes write_u8_accepts:
    "\<exists>w'. write_u8 w b = Inr w' \<and> contents w' = contents w @ [b]"
begin

definition written :: "io_error + 'w \<Rightarrow> 'w \<Rightarrow> bytes \<Rightarrow> bool" where
  "written r w bs \<longleftrightarrow> (\<exists>w'. r = Inr w' \<and> contents w' = contents w @ bs)"

lemma written_u8: "written (write_u8 w b) w [b]"
  using write_u8_accepts by (auto simp: written_def)

text \<open>One write followed by more writes: the rule for a chain of \<open>write_u8\<close> calls.\<close>

lemma written_step:
  assumes "\<And>w'. contents w' = contents w @ [b] \<Longrightarrow> written (f w') w' bs"
  shows "written (bind_result (write_u8 w b) f) w (b # bs)"
proof -
  obtain w' where w': "write_u8 w b = Inr w'" "contents w' = contents w @ [b]"
    using write_u8_accepts by blast
  from assms [OF w'(2)] show ?thesis
    by (auto simp: w' written_def)
qed

end

section \<open>Stream decoders\<close>

text \<open>
  A \<open>Decoder\<close> is called on the bytes received so far: it returns an item and removes its
  bytes, or returns nothing and waits for more. \<open>drain\<close> calls it until it stops, \<open>feed\<close> does
  so after each chunk that arrives, as \<open>Framed\<close> does; an error ends the stream.
\<close>

datatype ('e, 'a) drained = Drained "'a list" bytes | Failed "'a list" 'e

fun prepend_items :: "'a list \<Rightarrow> ('e, 'a) drained \<Rightarrow> ('e, 'a) drained" where
  "prepend_items xs (Drained ys b) = Drained (xs @ ys) b"
| "prepend_items xs (Failed ys e) = Failed (xs @ ys) e"

lemma prepend_items_prepend [simp]:
  "prepend_items xs (prepend_items ys d) = prepend_items (xs @ ys) d"
  by (cases d) simp_all

lemma prepend_items_Nil [simp]: "prepend_items [] d = d"
  by (cases d) simp_all

fun drain :: "nat \<Rightarrow> (bytes \<Rightarrow> ('e + 'a option) \<times> bytes) \<Rightarrow> bytes \<Rightarrow> ('e, 'a) drained" where
  "drain 0 dec buf = Drained [] buf"
| "drain (Suc n) dec buf =
    (case dec buf of
       (Inl e, _) \<Rightarrow> Failed [] e
     | (Inr None, buf') \<Rightarrow> Drained [] buf'
     | (Inr (Some x), buf') \<Rightarrow> prepend_items [x] (drain n dec buf'))"

definition drain_all :: "(bytes \<Rightarrow> ('e + 'a option) \<times> bytes) \<Rightarrow> bytes \<Rightarrow> ('e, 'a) drained" where
  "drain_all dec buf = drain (Suc (length buf)) dec buf"

fun feed :: "(bytes \<Rightarrow> ('e + 'a option) \<times> bytes) \<Rightarrow> bytes \<Rightarrow> bytes list \<Rightarrow> ('e, 'a) drained" where
  "feed dec buf [] = Drained [] buf"
| "feed dec buf (c # cs) =
    (case drain_all dec (buf @ c) of
       Failed xs e \<Rightarrow> Failed xs e
     | Drained xs buf' \<Rightarrow> prepend_items xs (feed dec buf' cs))"

locale stream_decoder =
  fixes dec :: "bytes \<Rightarrow> ('e + 'a option) \<times> bytes"
  assumes dec_item_shrinks: "dec buf = (Inr (Some x), buf') \<Longrightarrow> length buf' < length buf"
    and dec_item_stable: "dec buf = (Inr (Some x), buf') \<Longrightarrow> dec (buf @ c) = (Inr (Some x), buf' @ c)"
    and dec_error_stable: "dec buf = (Inl e, buf') \<Longrightarrow> \<exists>buf''. dec (buf @ c) = (Inl e, buf'')"
    and dec_wait_keeps: "dec buf = (Inr None, buf') \<Longrightarrow> buf' = buf"
begin

text \<open>\<open>length buf + 1\<close> calls are enough: every item removes at least one byte.\<close>

lemma drain_fuel: "length buf < n \<Longrightarrow> drain n dec buf = drain_all dec buf"
proof (induction "length buf" arbitrary: buf n rule: less_induct)
  case less
  then obtain m where n: "n = Suc m" by (cases n) auto
  have "drain m dec buf' = drain (length buf) dec buf'" if "dec buf = (Inr (Some x), buf')" for x buf'
  proof -
    have "length buf' < length buf" using that by (rule dec_item_shrinks)
    with less.prems n show ?thesis
      using less.hyps [of buf' m] less.hyps [of buf' "length buf"] by simp
  qed
  then show ?case
    by (auto simp: drain_all_def n split: prod.splits sum.splits option.splits)
qed

lemma drain_all_unfold:
  "drain_all dec buf =
    (case dec buf of
       (Inl e, _) \<Rightarrow> Failed [] e
     | (Inr None, buf') \<Rightarrow> Drained [] buf'
     | (Inr (Some x), buf') \<Rightarrow> prepend_items [x] (drain_all dec buf'))"
proof -
  have "drain (length buf) dec buf' = drain_all dec buf'" if "dec buf = (Inr (Some x), buf')" for x buf'
    using dec_item_shrinks [OF that] by (simp add: drain_fuel)
  then show ?thesis
    by (auto simp: drain_all_def split: prod.splits sum.splits option.splits)
qed

text \<open>Draining a longer buffer first yields what the shorter one did.\<close>

lemma drain_all_append:
  "drain_all dec (buf @ c) =
    (case drain_all dec buf of
       Failed xs e \<Rightarrow> Failed xs e
     | Drained xs buf' \<Rightarrow> prepend_items xs (drain_all dec (buf' @ c)))"
proof (induction "length buf" arbitrary: buf rule: less_induct)
  case less
  obtain r buf' where d: "dec buf = (r, buf')" by (cases "dec buf")
  show ?case
  proof (cases r)
    case (Inl e)
    with d dec_error_stable [of buf e buf' c] show ?thesis
      by (auto simp: drain_all_unfold [of buf] drain_all_unfold [of "buf @ c"])
  next
    case (Inr opt)
    show ?thesis
    proof (cases opt)
      case None
      with d Inr have "buf' = buf" using dec_wait_keeps by blast
      with d Inr None show ?thesis
        by (simp add: drain_all_unfold [of buf])
    next
      case (Some x)
      with d Inr have short: "length buf' < length buf" and app: "dec (buf @ c) = (Inr (Some x), buf' @ c)"
        using dec_item_shrinks dec_item_stable by blast+
      have "drain_all dec (buf @ c) = prepend_items [x] (drain_all dec (buf' @ c))"
        by (subst drain_all_unfold) (simp add: app)
      moreover have "drain_all dec buf = prepend_items [x] (drain_all dec buf')"
        by (subst drain_all_unfold) (simp add: d Inr Some)
      ultimately show ?thesis
        using less [OF short]
        by (cases "drain_all dec buf'") simp_all
    qed
  qed
qed

text \<open>
  How the stream is cut into chunks does not matter: feeding the chunks one after the other
  gives the items, the error and the left-over bytes of feeding their concatenation at once.
\<close>

lemma feed_chunks: "cs \<noteq> [] \<Longrightarrow> feed dec buf cs = drain_all dec (buf @ concat cs)"
proof (induction cs arbitrary: buf)
  case (Cons c cs)
  show ?case
  proof (cases "cs = []")
    case True
    then show ?thesis by (simp split: drained.split)
  next
    case False
    then have "feed dec buf' cs = drain_all dec (buf' @ concat cs)" for buf'
      by (rule Cons.IH)
    then show ?thesis
      using drain_all_append [of "buf @ c" "concat cs"] by (simp split: drained.split)
  qed
qed simp

end

end
