(* ===== verification/Varint.thy ===== *)
theory Varint
  imports Codec
begin

text \<open>
  \<open>mumble-protocol/src/varint.rs\<close>: the variable-length integers of the Mumble protocol.
  \<open>read_varint\<close> is \<open>ReadExt::read_varint\<close> on a reader that is a byte slice,
  \<open>write_varint\<close> is \<open>WriteExt::write_varint\<close> over any \<open>io::Write\<close> (given by its
  \<open>write_u8\<close>), \<open>put_varint\<close> is \<open>BufMutExt::put_varint\<close>. The reference encoding \<open>varint_bytes\<close> names the
  bytes \<open>write_varint\<close> produces; the theorems show the round trip, the sizes, and which byte
  strings the reader accepts.
\<close>

unbundle bit_operations_syntax

section \<open>The code\<close>

definition read_u8 :: "bytes \<Rightarrow> io_error + u8 \<times> bytes" where
  "read_u8 bs = (case bs of [] \<Rightarrow> Inl UnexpectedEof | b # bs' \<Rightarrow> Inr (b, bs'))"

lemma read_u8_simps [simp, result_simps]:
  "read_u8 [] = Inl UnexpectedEof"
  "read_u8 (b # bs) = Inr (b, bs)"
  by (simp_all add: read_u8_def)

lemma read_u8_Inr: "read_u8 bs = Inr (b, bs') \<longleftrightarrow> bs = b # bs'"
  by (cases bs) auto

function read_varint :: "bytes \<Rightarrow> io_error + u64 \<times> bytes" where
  "read_varint bs =
    bind_result (read_u8 bs) (\<lambda>(b0, bs).
    if b0 AND 0b11111100 = 0b11111000 then
      bind_result (read_varint bs) (\<lambda>(v, bs). Inr (NOT v, bs))
    else if b0 AND 0b11111100 = 0b11111100 then
      Inr (NOT (ucast (b0 AND 0x03)), bs)
    else if b0 AND 0b10000000 = 0 then
      Inr (ucast (b0 AND 0b01111111), bs)
    else bind_result (read_u8 bs) (\<lambda>(b1, bs).
    if b0 AND 0b01000000 = 0 then
      Inr (push_bit 8 (ucast (b0 AND 0b00111111)) OR ucast b1, bs)
    else bind_result (read_u8 bs) (\<lambda>(b2, bs).
    if b0 AND 0b00100000 = 0 then
      Inr (push_bit 16 (ucast (b0 AND 0b00011111)) OR push_bit 8 (ucast b1) OR ucast b2, bs)
    else bind_result (read_u8 bs) (\<lambda>(b3, bs).
    if b0 AND 0b00010000 = 0 then
      Inr (push_bit 24 (ucast (b0 AND 0x0F)) OR push_bit 16 (ucast b1) OR push_bit 8 (ucast b2)
        OR ucast b3, bs)
    else bind_result (read_u8 bs) (\<lambda>(b4, bs).
    if b0 AND 0b00000100 = 0 then
      Inr (push_bit 24 (ucast b1) OR push_bit 16 (ucast b2) OR push_bit 8 (ucast b3) OR ucast b4, bs)
    else bind_result (read_u8 bs) (\<lambda>(b5, bs).
    bind_result (read_u8 bs) (\<lambda>(b6, bs).
    bind_result (read_u8 bs) (\<lambda>(b7, bs).
    bind_result (read_u8 bs) (\<lambda>(b8, bs).
      Inr (push_bit 56 (ucast b1) OR push_bit 48 (ucast b2) OR push_bit 40 (ucast b3)
        OR push_bit 32 (ucast b4) OR push_bit 24 (ucast b5) OR push_bit 16 (ucast b6)
        OR push_bit 8 (ucast b7) OR ucast b8, bs))))))))))"
  by pat_completeness auto
termination
  by (relation "measure length") (auto simp: read_u8_Inr)

declare read_varint.simps [simp del]

text \<open>The calls of \<open>read_varint\<close> that are nested in each other: each takes a frame of the thread's stack.\<close>

fun varint_calls :: "bytes \<Rightarrow> nat" where
  "varint_calls [] = 1"
| "varint_calls (b0 # bs) = (if b0 AND 0b11111100 = 0b11111000 then Suc (varint_calls bs) else 1)"

text \<open>
  The sign test of \<open>write_varint\<close>: its recursive call is made on a value with the top bit
  cleared, so it recurses at most once.
\<close>

lemma and_top_bit: "value AND 0x8000000000000000 = 0x8000000000000000 \<longleftrightarrow> bit (value :: u64) 63"
  using and_exp_eq_exp_iff [of 63 "value"] by simp

function write_varint :: "('w \<Rightarrow> u8 \<Rightarrow> io_error + 'w) \<Rightarrow> 'w \<Rightarrow> u64 \<Rightarrow> io_error + 'w" where
  "write_varint write_u8 w value =
    (if value AND 0xfffffffffffffffc = 0xfffffffffffffffc then
       write_u8 w (0b11111100 OR ucast (NOT value))
     else if value AND 0x8000000000000000 = 0x8000000000000000 then
       bind_result (write_u8 w 0b11111000) (\<lambda>w. write_varint write_u8 w (NOT value))
     else if value > 0xffffffff then
       bind_result (write_u8 w 0b11110100) (\<lambda>w.
       bind_result (write_u8 w (ucast (drop_bit 56 value))) (\<lambda>w.
       bind_result (write_u8 w (ucast (drop_bit 48 value))) (\<lambda>w.
       bind_result (write_u8 w (ucast (drop_bit 40 value))) (\<lambda>w.
       bind_result (write_u8 w (ucast (drop_bit 32 value))) (\<lambda>w.
       bind_result (write_u8 w (ucast (drop_bit 24 value))) (\<lambda>w.
       bind_result (write_u8 w (ucast (drop_bit 16 value))) (\<lambda>w.
       bind_result (write_u8 w (ucast (drop_bit 8 value))) (\<lambda>w.
       write_u8 w (ucast value)))))))))
     else if value > 0x0fffffff then
       bind_result (write_u8 w 0b11110000) (\<lambda>w.
       bind_result (write_u8 w (ucast (drop_bit 24 value))) (\<lambda>w.
       bind_result (write_u8 w (ucast (drop_bit 16 value))) (\<lambda>w.
       bind_result (write_u8 w (ucast (drop_bit 8 value))) (\<lambda>w.
       write_u8 w (ucast value)))))
     else if value > 0x001fffff then
       bind_result (write_u8 w (0b11100000 OR ucast (drop_bit 24 value))) (\<lambda>w.
       bind_result (write_u8 w (ucast (drop_bit 16 value))) (\<lambda>w.
       bind_result (write_u8 w (ucast (drop_bit 8 value))) (\<lambda>w.
       write_u8 w (ucast value))))
     else if value > 0x00003fff then
       bind_result (write_u8 w (0b11000000 OR ucast (drop_bit 16 value))) (\<lambda>w.
       bind_result (write_u8 w (ucast (drop_bit 8 value))) (\<lambda>w.
       write_u8 w (ucast value)))
     else if value > 0x0000007f then
       bind_result (write_u8 w (0b10000000 OR ucast (drop_bit 8 value))) (\<lambda>w.
       write_u8 w (ucast value))
     else write_u8 w (ucast value))"
  by pat_completeness auto

termination
  by (relation "measure (\<lambda>(f, w, value). of_bool (bit value 63))") (auto simp: and_top_bit bit_simps)

declare write_varint.simps [simp del]

text \<open>The \<open>io::Write\<close> adapter of a \<open>BufMut\<close> buffer: writing a byte appends it and never errors.\<close>

definition buf_write_u8 :: "bytes \<Rightarrow> u8 \<Rightarrow> io_error + bytes" where
  "buf_write_u8 dst b = Inr (dst @ [b])"

definition put_varint :: "bytes \<Rightarrow> u64 \<Rightarrow> bytes outcome" where
  "put_varint dst val =
    expect_result (write_varint buf_write_u8 dst val) ''BufMut::writer never errors''"

section \<open>Reference encoding\<close>

definition varint_pos_bytes :: "u64 \<Rightarrow> bytes" where
  "varint_pos_bytes v =
    (if 0xffffffff < v then 0xF4 # be_bytes 8 v
     else if 0x0fffffff < v then 0xF0 # be_bytes 4 v
     else if 0x001fffff < v then (0xE0 OR ucast (drop_bit 24 v)) # be_bytes 3 v
     else if 0x00003fff < v then (0xC0 OR ucast (drop_bit 16 v)) # be_bytes 2 v
     else if 0x0000007f < v then (0x80 OR ucast (drop_bit 8 v)) # be_bytes 1 v
     else [ucast v])"

definition varint_bytes :: "u64 \<Rightarrow> bytes" where
  "varint_bytes v =
    (if NOT v \<le> 3 then [0xFC OR ucast (NOT v)]
     else if bit v 63 then 0xF8 # varint_pos_bytes (NOT v)
     else varint_pos_bytes v)"

lemma and_small_neg:
  "v AND 0xfffffffffffffffc = 0xfffffffffffffffc \<longleftrightarrow> NOT v \<le> (3 :: u64)"
proof -
  have eq: "(0xfffffffffffffffc :: u64) = NOT (mask 2)" by (simp add: mask_eq_exp_minus_1)
  have "v AND NOT (mask 2) = NOT (mask 2) \<longleftrightarrow> (\<forall>n<64. 2 \<le> n \<longrightarrow> bit v n)"
    by (auto simp: bit_eq_iff bit_simps)
  also have "\<dots> \<longleftrightarrow> unat (NOT v) < 2 ^ 2"
    unfolding unat_less_iff_bits by (auto simp: bit_simps not_less)
  also have "\<dots> \<longleftrightarrow> NOT v \<le> 3"
    by (auto simp: word_le_nat_alt)
  finally show ?thesis by (simp only: eq)
qed

text \<open>The code writes the reference encoding: the chain of \<open>write_u8\<close> calls of each range.\<close>

context byte_sink
begin

lemma write_varint_nonneg:
  assumes "\<not> bit v 63" and "\<not> NOT v \<le> 3"
  shows "written (write_varint write_u8 w v) w (varint_pos_bytes v)"
  using assms
  by (subst write_varint.simps)
    (auto simp: and_small_neg and_top_bit varint_pos_bytes_def
      intro!: written_step written_u8)

lemma write_varint_written: "written (write_varint write_u8 w v) w (varint_bytes v)"
proof (cases "NOT v \<le> 3 \<or> \<not> bit v 63")
  case True
  then show ?thesis
    using write_varint_nonneg [of v w]
    by (auto simp: varint_bytes_def write_varint.simps [of write_u8 w v] and_small_neg intro: written_u8)
next
  case False
  have "\<not> v \<le> 3"
    using False not_bit_of_unat_less [of v 2 63] by (auto simp: word_le_nat_alt)
  with False show ?thesis
    by (subst write_varint.simps)
      (auto simp: varint_bytes_def and_small_neg and_top_bit bit_simps
        intro!: written_step write_varint_nonneg)
qed

end

interpretation buf_sink: byte_sink buf_write_u8 "\<lambda>buf. buf"
  by unfold_locales (simp add: buf_write_u8_def)

lemma put_varint_eq [simp]: "put_varint dst v = Return (dst @ varint_bytes v)"
  using buf_sink.write_varint_written [of dst v]
  by (auto simp: put_varint_def buf_sink.written_def)

section \<open>Reading what was written\<close>

text \<open>The mask tests of \<open>read_varint\<close> on its first byte.\<close>

lemma header_masks [header_bits]:
  fixes b :: u8
  shows "b AND 0b11111100 = 0b11111000 \<longleftrightarrow>
      bit b 7 \<and> bit b 6 \<and> bit b 5 \<and> bit b 4 \<and> bit b 3 \<and> \<not> bit b 2"
    and "b AND 0b11111100 = 0b11111100 \<longleftrightarrow>
      bit b 7 \<and> bit b 6 \<and> bit b 5 \<and> bit b 4 \<and> bit b 3 \<and> bit b 2"
    and "b AND 0b10000000 = 0 \<longleftrightarrow> \<not> bit b 7"
    and "b AND 0b01000000 = 0 \<longleftrightarrow> \<not> bit b 6"
    and "b AND 0b00100000 = 0 \<longleftrightarrow> \<not> bit b 5"
    and "b AND 0b00010000 = 0 \<longleftrightarrow> \<not> bit b 4"
    and "b AND 0b00000100 = 0 \<longleftrightarrow> \<not> bit b 2"
  by (auto simp: u8_eq_iff_bits bit_simps)

text \<open>The payload bits of a header byte, when the value fits its class.\<close>

lemma varint_header:
  fixes v :: u64
  shows "(\<And>k. 14 \<le> k \<Longrightarrow> \<not> bit v k) \<Longrightarrow>
      (0x80 OR ucast (drop_bit 8 v)) AND 0x3F = (ucast (drop_bit 8 v) :: u8)"
    and "(\<And>k. 21 \<le> k \<Longrightarrow> \<not> bit v k) \<Longrightarrow>
      (0xC0 OR ucast (drop_bit 16 v)) AND 0x1F = (ucast (drop_bit 16 v) :: u8)"
    and "(\<And>k. 28 \<le> k \<Longrightarrow> \<not> bit v k) \<Longrightarrow>
      (0xE0 OR ucast (drop_bit 24 v)) AND 0x0F = (ucast (drop_bit 24 v) :: u8)"
    and "(\<And>k. 7 \<le> k \<Longrightarrow> \<not> bit v k) \<Longrightarrow> ucast v AND 0x7F = (ucast v :: u8)"
    and "(\<And>k. 2 \<le> k \<Longrightarrow> \<not> bit v k) \<Longrightarrow>
      (0xFC OR ucast v) AND 0x03 = (ucast v :: u8)"
  by (auto simp: u8_eq_iff_bits bit_simps)

lemmas varint_read_simps = varint_pos_bytes_def header_bits bit_simps
  from_be_bytes_def push_bit_or or.assoc varint_header word_less_nat_alt

lemma read_varint_pos_bytes: "read_varint (varint_pos_bytes v @ rest) = Inr (v, rest)"
proof -
  have "4294967295 < unat v \<or> (268435455 < unat v \<and> unat v < 4294967296)
      \<or> (2097151 < unat v \<and> unat v < 268435456) \<or> (16383 < unat v \<and> unat v < 2097152)
      \<or> (127 < unat v \<and> unat v < 16384) \<or> unat v < 128"
    by linarith
  then consider (c9) "0xffffffff < v" | (c5) "0x0fffffff < v" "unat v < 2 ^ 32"
    | (c4) "0x001fffff < v" "unat v < 2 ^ 28" | (c3) "0x00003fff < v" "unat v < 2 ^ 21"
    | (c2) "0x0000007f < v" "unat v < 2 ^ 14" | (c1) "unat v < 2 ^ 7"
    by (auto simp: word_less_nat_alt)
  then show ?thesis
  proof cases
    case c9
    with from_be_bytes_be_bytes_id [of 8 v] show ?thesis
      by (subst read_varint.simps) (simp add: varint_read_simps)
  next
    case c5
    with from_be_bytes_be_bytes_unat [of v 4] show ?thesis
      by (subst read_varint.simps) (simp add: varint_read_simps)
  next
    case c4
    with from_be_bytes_be_bytes_unat [of v 4] not_bit_of_unat_less [of v 28] show ?thesis
      by (subst read_varint.simps) (simp add: varint_read_simps)
  next
    case c3
    with from_be_bytes_be_bytes_unat [of v 3] not_bit_of_unat_less [of v 21] show ?thesis
      by (subst read_varint.simps) (simp add: varint_read_simps)
  next
    case c2
    with from_be_bytes_be_bytes_unat [of v 2] not_bit_of_unat_less [of v 14] show ?thesis
      by (subst read_varint.simps) (simp add: varint_read_simps)
  next
    case c1
    with from_be_bytes_be_bytes_unat [of v 1] not_bit_of_unat_less [of v 7] show ?thesis
      by (subst read_varint.simps) (simp add: varint_read_simps)
  qed
qed

lemma read_varint_varint_bytes: "read_varint (varint_bytes v @ rest) = Inr (v, rest)"
proof (cases "NOT v \<le> 3")
  case True
  then have small: "unat (NOT v) < 2 ^ 2" by (simp add: word_le_nat_alt)
  with from_be_bytes_be_bytes_unat [of "NOT v" 1] not_bit_of_unat_less [of "NOT v" 2]
  show ?thesis
    by (subst read_varint.simps) (simp add: varint_bytes_def varint_header header_bits True bit_simps from_be_bytes_def)
next
  case False
  then show ?thesis
    using read_varint_pos_bytes [of "NOT v" rest] read_varint_pos_bytes [of v rest]
    by (auto simp: varint_bytes_def read_varint.simps [of "0xF8 # bs" for bs] header_bits bit_simps)
qed

interpretation varint: prefix_codec "\<lambda>_. True" varint_bytes read_varint
  by unfold_locales (rule read_varint_varint_bytes)

section \<open>What the reader consumes\<close>

lemma read_varint_append:
  "read_varint bs = Inr (v, rest) \<Longrightarrow> read_varint (bs @ ext) = Inr (v, rest @ ext)"
proof (induction bs arbitrary: v rule: read_varint.induct)
  case (1 bs)
  obtain b0 bs' where bs: "bs = b0 # bs'"
    using "1.prems" by (cases bs) (auto simp: read_varint.simps)
  show ?case
  proof (cases "b0 AND 0b11111100 = 0b11111000")
    case True
    with "1.prems" obtain u where "read_varint bs' = Inr (u, rest)" "v = NOT u"
      by (auto simp: bs read_varint.simps [of "b0 # bs'"] bind_result_eq_Inr)
    with "1.IH" [of "(b0, bs')" b0 bs'] True show ?thesis
      by (simp add: bs read_varint.simps [of "b0 # bs' @ ext"])
  next
    case False
    with "1.prems" show ?thesis
      by (auto simp: bs read_varint.simps [of "b0 # _"] bind_result_eq_Inr read_u8_Inr split: if_splits)
  qed
qed

lemma read_varint_consumes:
  "read_varint bs = Inr (v, rest) \<Longrightarrow>
    \<exists>pre. pre \<noteq> [] \<and> bs = pre @ rest \<and> read_varint pre = Inr (v, [])"
proof (induction bs arbitrary: v rule: read_varint.induct)
  case (1 bs)
  obtain b0 bs' where bs: "bs = b0 # bs'"
    using "1.prems" by (cases bs) (auto simp: read_varint.simps)
  show ?case
  proof (cases "b0 AND 0b11111100 = 0b11111000")
    case True
    with "1.prems" obtain u where "read_varint bs' = Inr (u, rest)" "v = NOT u"
      by (auto simp: bs read_varint.simps [of "b0 # bs'"] bind_result_eq_Inr)
    with "1.IH" [of "(b0, bs')" b0 bs'] True
    obtain pre where "bs' = pre @ rest" "read_varint pre = Inr (u, [])"
      by (auto simp: bs)
    with True \<open>v = NOT u\<close> show ?thesis
      by (intro exI [of _ "b0 # pre"]) (simp add: bs read_varint.simps [of "b0 # pre"])
  next
    case False
    define pre where "pre = take (length bs - length rest) bs"
    have "bs = pre @ rest \<and> pre \<noteq> [] \<and> read_varint pre = Inr (v, [])"
      using False "1.prems" unfolding pre_def
      by (auto simp: bs read_varint.simps [of "b0 # _"] bind_result_eq_Inr read_u8_Inr split: if_splits)
    then show ?thesis by blast
  qed
qed

lemma read_varint_error: "read_varint bs = Inl e \<Longrightarrow> e = UnexpectedEof"
proof (induction bs rule: read_varint.induct)
  case (1 bs)
  show ?case
  proof (cases bs)
    case Nil
    with "1.prems" show ?thesis by (simp add: read_varint.simps)
  next
    case (Cons b0 bs')
    with "1.prems" "1.IH" [of "(b0, bs')" b0 bs'] show ?thesis
      by (auto simp: read_varint.simps [of "b0 # _"] bind_result_eq_Inl read_u8_def
          split: if_splits list.splits)
  qed
qed

text \<open>An encoding cut short never reads as a value.\<close>

lemma read_varint_prefix_fails:
  assumes "varint_bytes v = pre @ lost" and "lost \<noteq> []"
  shows "read_varint pre = Inl UnexpectedEof"
proof (cases "read_varint pre")
  case (Inl e)
  then show ?thesis by (simp add: read_varint_error)
next
  case (Inr r)
  then obtain u rest where "read_varint pre = Inr (u, rest)" by (cases r) auto
  then have "read_varint (varint_bytes v) = Inr (u, rest @ lost)"
    using read_varint_append assms(1) by simp
  with assms(2) show ?thesis by (simp add: varint.dec_enc_exact)
qed

lemma length_varint_bytes: "1 \<le> length (varint_bytes v)" "length (varint_bytes v) \<le> 10"
  by (auto simp: varint_bytes_def varint_pos_bytes_def)

lemma read_varint_negations:
  "read_varint (replicate n 0xF8 @ varint_bytes v @ rest) = Inr ((NOT ^^ n) v, rest)"
proof (induction n)
  case (Suc n)
  have "(0xF8 :: u8) AND 0b11111100 = 0b11111000" by simp
  with Suc show ?case
    by (subst read_varint.simps) simp
qed (simp add: read_varint_varint_bytes)

section \<open>Properties\<close>

text \<open>
  C19. Every 64-bit value survives the wire: \<open>put_varint\<close> never panics and appends between 1
  and 10 bytes (what the callers reserve), from which \<open>read_varint\<close> reads the same value back,
  leaving whatever follows untouched.
\<close>

theorem varint_roundtrip:
  "\<exists>bs. 1 \<le> length bs \<and> length bs \<le> 10 \<and>
     (\<forall>dst. put_varint dst v = Return (dst @ bs)) \<and>
     (\<forall>rest. read_varint (bs @ rest) = Inr (v, rest))"
  using length_varint_bytes read_varint_varint_bytes
  by (intro exI [of _ "varint_bytes v"]) simp

text \<open>
  A successful \<open>read_varint\<close> consumes a nonempty prefix of its input, and its value depends
  on this prefix alone: it reads the same value whatever bytes follow the prefix.
\<close>

theorem varint_read_local:
  assumes "read_varint bs = Inr (v, rest)"
  shows "\<exists>pre. pre \<noteq> [] \<and> bs = pre @ rest \<and> (\<forall>ext. read_varint (pre @ ext) = Inr (v, ext))"
  using read_varint_consumes [OF assms] read_varint_append by fastforce

theorem varint_read_local_witness:
  "\<exists>pre. pre \<noteq> [] \<and> [0x81, 0x02, 0x55] = pre @ [0x55]
     \<and> (\<forall>ext. read_varint (pre @ ext) = Inr (258, ext))"
  by (rule varint_read_local) (simp add: read_varint.simps)

text \<open>
  Truncation is detected: any proper prefix of the bytes that \<open>put_varint\<close> writes makes
  \<open>read_varint\<close> fail, and the error is \<open>UnexpectedEof\<close>.
\<close>

theorem varint_truncated:
  assumes "put_varint [] v = Return (pre @ lost)" and "lost \<noteq> []"
  shows "read_varint pre = Inl UnexpectedEof"
  using assms by (intro read_varint_prefix_fails) auto

theorem varint_truncated_witness:
  "put_varint [] 300 = Return ([0x81] @ [0x2c]) \<and> read_varint [0x81] = Inl UnexpectedEof"
proof -
  have "put_varint [] 300 = Return ([0x81] @ [0x2c])"
    by (simp add: varint_bytes_def varint_pos_bytes_def)
  with varint_truncated [OF this] show ?thesis by simp
qed

text \<open>
  The reader accepts any number of negation prefixes \<open>0xF8\<close> before a value, one nested
  call of \<open>read_varint\<close> for each, though the writer emits at most one: the recursion depth is
  bounded by the length of the input only.
\<close>

theorem varint_negation_prefixes:
  "\<exists>bs. put_varint [] v = Return bs \<and>
     read_varint (replicate n 0xF8 @ bs @ rest) = Inr (if even n then v else NOT v, rest)"
proof -
  have "(NOT ^^ n) v = (if even n then v else NOT v)"
    by (induction n) auto
  then show ?thesis by (simp add: read_varint_negations)
qed

end
