(* ===== verification/Voice.thy ===== *)
theory Voice
  imports Varint
begin

text \<open>
  \<open>mumble-protocol/src/voice.rs\<close>: voice packets and their codec. The trait
  \<open>VoicePacketDst\<close> is a record of its two methods with the instances \<open>Serverbound\<close> and
  \<open>Clientbound\<close>; its contract is the locale \<open>voice_dst\<close>. \<open>voice_decode\<close> and
  \<open>voice_encode\<close> are the \<open>Decoder\<close> and \<open>Encoder\<close> implementations of \<open>VoiceCodec\<close>, with
  the buffer as explicit state: decoding returns what is left in it, encoding appends to it.
  Lengths are those of a target with 64-bit \<open>usize\<close>.
\<close>

unbundle bit_operations_syntax

section \<open>The code\<close>

datatype VoicePacketPayload =
    CeltAlpha "bytes list"
  | CeltBeta "bytes list"
  | Speex "bytes list"
  | Opus bytes bool

text \<open>\<open>Audio target session_id seq_num payload position_info\<close>, in the order of the fields.\<close>

datatype 's VoicePacket =
    Ping u64
  | Audio u8 's u64 VoicePacketPayload "bytes option"

record 's VoicePacketDst =
  read_session_id :: "bytes \<Rightarrow> io_error + 's \<times> bytes"
  write_session_id :: "bytes \<Rightarrow> 's \<Rightarrow> bytes outcome"

definition Serverbound :: "unit VoicePacketDst" where
  "Serverbound = \<lparr>
     read_session_id = (\<lambda>buf. Inr ((), buf)),
     write_session_id = (\<lambda>buf session_id. Return buf)\<rparr>"

definition Clientbound :: "u32 VoicePacketDst" where
  "Clientbound = \<lparr>
     read_session_id = (\<lambda>buf. bind_result (read_varint buf) (\<lambda>(v, buf). Inr (ucast v, buf))),
     write_session_id = (\<lambda>buf session_id. put_varint buf (ucast session_id))\<rparr>"

text \<open>The frame loop of the CELT and Speex payloads: length headers with a continuation bit.\<close>

function decode_frames :: "bytes \<Rightarrow> bytes list \<Rightarrow> (io_error + bytes list) \<times> bytes" where
  "decode_frames buf_mut frames =
    (if buf_mut = [] then (Inl UnexpectedEof, buf_mut)
     else
       let header = hd buf_mut;
           buf_mut = tl buf_mut;
           len = unat (header AND NOT 0x80)
       in if length buf_mut < len then (Inl UnexpectedEof, buf_mut)
          else
            let frames = frames @ [take len buf_mut];
                buf_mut = drop len buf_mut
            in if header AND 0x80 \<noteq> 0x80 then (Inr frames, buf_mut)
               else decode_frames buf_mut frames)"
  by pat_completeness auto
termination
  by (relation "measure (\<lambda>(buf_mut, frames). length buf_mut)") auto

declare decode_frames.simps [simp del]

text \<open>
  The \<open>match kind\<close> of \<open>decode\<close>: \<open>buf_mut\<close> is the buffer, \<open>cur\<close> the bytes after the
  cursor; advancing the buffer to the cursor makes it \<open>cur\<close>. Inside the first branch the
  kind is 0, 2 or 3, so the inner \<open>match\<close> never reaches its \<open>panic!()\<close>.
\<close>

definition decode_payload :: "u8 \<Rightarrow> bytes \<Rightarrow> bytes \<Rightarrow> (io_error + VoicePacketPayload) \<times> bytes" where
  "decode_payload kind buf_mut cur =
    (if kind = 0 \<or> kind = 2 \<or> kind = 3 then
       (case decode_frames cur [] of
          (Inl e, buf_mut) \<Rightarrow> (Inl e, buf_mut)
        | (Inr frames, buf_mut) \<Rightarrow>
            (Inr (if kind = 0 then CeltAlpha frames
                  else if kind = 2 then Speex frames
                  else CeltBeta frames), buf_mut))
     else if kind = 4 then
       (case read_varint cur of
          Inl e \<Rightarrow> (Inl e, buf_mut)
        | Inr (header, buf_mut) \<Rightarrow>
            let termination_bit = (header AND 0x2000 = 0x2000);
                len = unat (header AND NOT 0x2000)
            in if length buf_mut < len then (Inl UnexpectedEof, buf_mut)
               else (Inr (Opus (take len buf_mut) termination_bit), drop len buf_mut))
     else (Inl (InvalidData ''unknown voice packet type''), buf_mut))"

definition voice_decode ::
    "'s VoicePacketDst \<Rightarrow> bytes \<Rightarrow> (io_error + 's VoicePacket option) \<times> bytes" where
  "voice_decode DecodeDst buf_mut =
    (case read_u8 buf_mut of
       Inl e \<Rightarrow> (Inl e, buf_mut)
     | Inr (header, cur) \<Rightarrow>
         let kind = drop_bit 5 header;
             target = header AND 0b11111
         in if kind = 1 then
              (case read_varint cur of
                 Inl e \<Rightarrow> (Inl e, buf_mut)
               | Inr (timestamp, cur) \<Rightarrow> (Inr (Some (Ping timestamp)), buf_mut))
            else
              (case read_session_id DecodeDst cur of
                 Inl e \<Rightarrow> (Inl e, buf_mut)
               | Inr (session_id, cur) \<Rightarrow>
              (case read_varint cur of
                 Inl e \<Rightarrow> (Inl e, buf_mut)
               | Inr (seq_num, cur) \<Rightarrow>
              (case decode_payload kind buf_mut cur of
                 (Inl e, buf_mut) \<Rightarrow> (Inl e, buf_mut)
               | (Inr payload, buf_mut) \<Rightarrow>
                   if buf_mut = [] then
                     (Inr (Some (Audio target session_id seq_num payload None)), buf_mut)
                   else
                     (Inr (Some (Audio target session_id seq_num payload (Some buf_mut))), [])))))"

text \<open>
  How deep the calls of \<open>read_varint\<close> get while \<open>decode\<close> reads a packet: for the timestamp of a ping; for the
  sequence number and, with Opus, the length of the payload; and, client-bound, for the session id before them.
\<close>

definition audio_nesting :: "u8 \<Rightarrow> bytes \<Rightarrow> nat" where
  "audio_nesting kind cur = max (varint_calls cur)
    (if kind = 4 then (case read_varint cur of Inl e \<Rightarrow> 0 | Inr (seq_num, cur) \<Rightarrow> varint_calls cur) else 0)"

definition serverbound_nesting :: "bytes \<Rightarrow> nat" where
  "serverbound_nesting buf_mut =
    (case buf_mut of
       [] \<Rightarrow> 0
     | header # cur \<Rightarrow> if drop_bit 5 header = 1 then varint_calls cur else audio_nesting (drop_bit 5 header) cur)"

definition clientbound_nesting :: "bytes \<Rightarrow> nat" where
  "clientbound_nesting buf_mut =
    (case buf_mut of
       [] \<Rightarrow> 0
     | header # cur \<Rightarrow>
         if drop_bit 5 header = 1 then varint_calls cur
         else max (varint_calls cur)
           (case read_varint cur of Inl e \<Rightarrow> 0 | Inr (session_id, cur) \<Rightarrow> audio_nesting (drop_bit 5 header) cur))"

fun encode_frames :: "bytes \<Rightarrow> bytes list \<Rightarrow> bytes" where
  "encode_frames dst [] = dst"
| "encode_frames dst (frame # iter) =
    (let continuation = (if iter = [] then 0 else 0x80)
     in encode_frames (dst @ [continuation OR of_nat (length frame)] @ frame) iter)"

definition encode_payload :: "bytes \<Rightarrow> VoicePacketPayload \<Rightarrow> bytes outcome" where
  "encode_payload dst payload =
    (case payload of
       CeltAlpha frames \<Rightarrow> Return (encode_frames dst frames)
     | Speex frames \<Rightarrow> Return (encode_frames dst frames)
     | CeltBeta frames \<Rightarrow> Return (encode_frames dst frames)
     | Opus frame termination_bit \<Rightarrow>
         let term_bit = (if termination_bit then 0x2000 else 0)
         in bind_outcome (put_varint dst (term_bit OR of_nat (length frame))) (\<lambda>dst.
            Return (dst @ frame)))"

definition payload_kind :: "VoicePacketPayload \<Rightarrow> u8" where
  "payload_kind payload =
    (case payload of CeltAlpha _ \<Rightarrow> 0 | Speex _ \<Rightarrow> 2 | CeltBeta _ \<Rightarrow> 3 | Opus _ _ \<Rightarrow> 4)"

definition voice_encode :: "'s VoicePacketDst \<Rightarrow> 's VoicePacket \<Rightarrow> bytes \<Rightarrow> bytes outcome" where
  "voice_encode EncodeDst item dst =
    (case item of
       Ping timestamp \<Rightarrow> put_varint (dst @ [0x20]) timestamp
     | Audio target session_id seq_num payload position_info \<Rightarrow>
         let kind = payload_kind payload;
             dst = dst @ [push_bit 5 kind OR (target AND 0b11111)]
         in bind_outcome (write_session_id EncodeDst dst session_id) (\<lambda>dst.
            bind_outcome (put_varint dst seq_num) (\<lambda>dst.
            bind_outcome (encode_payload dst payload) (\<lambda>dst.
            Return (case position_info of None \<Rightarrow> dst | Some bytes \<Rightarrow> dst @ bytes)))))"

section \<open>Contract of the packet direction\<close>

locale voice_dst =
  fixes dst :: "'s VoicePacketDst"
    and sid_bytes :: "'s \<Rightarrow> bytes"
  assumes write_session_id_appends: "write_session_id dst buf s = Return (buf @ sid_bytes s)"
    and read_written_session_id: "read_session_id dst (sid_bytes s @ rest) = Inr (s, rest)"
    and read_session_id_error: "read_session_id dst buf = Inl e \<Longrightarrow> e = UnexpectedEof"

sublocale voice_dst \<subseteq> sid: prefix_codec "\<lambda>_. True" sid_bytes "read_session_id dst"
  by unfold_locales (rule read_written_session_id)

interpretation sb: voice_dst Serverbound "\<lambda>_. []"
  by unfold_locales (simp_all add: Serverbound_def)

interpretation cb: voice_dst Clientbound "\<lambda>s. varint_bytes (ucast s)"
  by unfold_locales
    (auto simp: Clientbound_def read_varint_varint_bytes bind_result_eq_Inl dest: read_varint_error)

section \<open>Well-formed packets\<close>

text \<open>
  The packets the wire format can carry: five bits of target, at least one CELT or Speex frame
  of at most 127 bytes each, an Opus frame whose length leaves the terminator bit free, and
  positional data that is not the empty string (which reads as absent).
\<close>

fun wf_payload :: "VoicePacketPayload \<Rightarrow> bool" where
  "wf_payload (CeltAlpha frames) \<longleftrightarrow> frames \<noteq> [] \<and> list_all (\<lambda>f. length f < 128) frames"
| "wf_payload (CeltBeta frames) \<longleftrightarrow> frames \<noteq> [] \<and> list_all (\<lambda>f. length f < 128) frames"
| "wf_payload (Speex frames) \<longleftrightarrow> frames \<noteq> [] \<and> list_all (\<lambda>f. length f < 128) frames"
| "wf_payload (Opus frame t) \<longleftrightarrow> length frame < 2 ^ 64 \<and> \<not> bit (length frame) 13"

fun wf_voice :: "'s VoicePacket \<Rightarrow> bool" where
  "wf_voice (Ping t) \<longleftrightarrow> True"
| "wf_voice (Audio target session_id seq_num payload position_info) \<longleftrightarrow>
     unat target < 32 \<and> wf_payload payload \<and> position_info \<noteq> Some []"

section \<open>Frames\<close>

lemma decode_frames_Nil [simp]: "decode_frames [] frames = (Inl UnexpectedEof, [])"
  by (simp add: decode_frames.simps)

lemma decode_frames_Cons:
  "decode_frames (header # buf) frames =
    (let len = unat (header AND NOT 0x80)
     in if length buf < len then (Inl UnexpectedEof, buf)
        else if bit header 7 then decode_frames (drop len buf) (frames @ [take len buf])
        else (Inr (frames @ [take len buf]), drop len buf))"
  using and_exp_eq_exp_iff [of 7 header] by (subst decode_frames.simps) (simp add: Let_def)

lemma frame_header:
  fixes n :: nat
  assumes "n < 128" and "c = 0 \<or> c = 0x80"
  shows "unat ((c OR of_nat n) AND NOT (0x80 :: u8)) = n" and "bit (c OR of_nat n :: u8) 7 \<longleftrightarrow> c = 0x80"
proof -
  have n: "unat (of_nat n :: u8) < 2 ^ 7"
    using assms(1) by (simp add: unat_ucast_of_nat_8)
  then have top: "\<not> bit (of_nat n :: u8) 7" by (rule not_bit_of_unat_less) simp
  have "(c OR of_nat n) AND NOT (0x80 :: u8) = of_nat n"
    using assms(2) top by (auto simp: u8_eq_iff_bits bit_simps)
  then show "unat ((c OR of_nat n) AND NOT (0x80 :: u8)) = n"
    using assms(1) by (simp add: unat_ucast_of_nat_8)
  show "bit (c OR of_nat n :: u8) 7 \<longleftrightarrow> c = 0x80"
    using assms(2) top by (auto simp: bit_simps)
qed

lemma encode_frames_append: "encode_frames dst frames = dst @ encode_frames [] frames"
proof (induction frames arbitrary: dst)
  case (Cons f fs)
  show ?case by (simp add: Let_def) (metis Cons append.assoc append_Cons append_Nil)
qed simp

lemma decode_encode_frames:
  assumes "fs \<noteq> []" and "list_all (\<lambda>f. length f < 128) fs"
  shows "decode_frames (encode_frames [] fs @ rest) acc = (Inr (acc @ fs), rest)"
  using assms
proof (induction fs arbitrary: acc)
  case (Cons f fs)
  define c :: u8 where "c = (if fs = [] then 0 else 0x80)"
  have enc: "encode_frames [] (f # fs) = (c OR of_nat (length f)) # f @ encode_frames [] fs"
    by (simp add: c_def Let_def encode_frames_append [of "_ # _"])
  have f: "length f < 128" and c: "c = 0 \<or> c = 0x80"
    using Cons.prems by (auto simp: c_def)
  show ?case
  proof (cases "fs = []")
    case True
    with frame_header [OF f c] have "\<not> bit (c OR of_nat (length f)) 7"
      by (simp add: c_def)
    with True frame_header [OF f c] show ?thesis
      unfolding enc by (simp add: decode_frames_Cons Let_def)
  next
    case False
    then have "decode_frames (encode_frames [] fs @ rest) (acc @ [f]) = (Inr (acc @ f # fs), rest)"
      using Cons by simp
    moreover have "bit (c OR of_nat (length f)) 7"
      using False frame_header [OF f c] by (simp add: c_def)
    ultimately show ?thesis
      using frame_header [OF f c] unfolding enc by (simp add: decode_frames_Cons Let_def)
  qed
qed simp

lemma decode_frames_wf:
  "decode_frames buf acc = (Inr frames, rest) \<Longrightarrow> list_all (\<lambda>f. length f < 128) acc \<Longrightarrow>
    frames \<noteq> [] \<and> list_all (\<lambda>f. length f < 128) frames"
proof (induction buf acc rule: decode_frames.induct)
  case (1 buf acc)
  obtain header buf' where buf: "buf = header # buf'"
    using "1.prems"(1) by (cases buf) auto
  have "k < 7" if "bit (header AND NOT 0x80) k" for k
    using that bit_imp_le_length [OF that] by (cases "k = 7") (auto simp: bit_simps)
  then have "unat (header AND NOT 0x80) < 2 ^ 7"
    unfolding unat_less_iff_bits by blast
  with "1" show ?case
    by (auto simp: buf decode_frames_Cons Let_def and_exp_eq_exp_iff [of 7 header, simplified]
        split: if_splits)
qed

section \<open>The encoder\<close>

definition payload_bytes :: "VoicePacketPayload \<Rightarrow> bytes" where
  "payload_bytes p =
    (case p of
       CeltAlpha fs \<Rightarrow> encode_frames [] fs
     | CeltBeta fs \<Rightarrow> encode_frames [] fs
     | Speex fs \<Rightarrow> encode_frames [] fs
     | Opus f t \<Rightarrow> varint_bytes ((if t then 0x2000 else 0) OR of_nat (length f)) @ f)"

lemma encode_payload_eq: "encode_payload dst p = Return (dst @ payload_bytes p)"
  by (auto simp: encode_payload_def payload_bytes_def encode_frames_append [of dst]
      split: VoicePacketPayload.split)

lemma opus_header:
  assumes "n < 2 ^ 64" and "\<not> bit n 13" and "tb = (if t then 0x2000 else 0)"
  shows "unat ((tb OR of_nat n) AND NOT (0x2000 :: u64)) = n"
    and "(tb OR of_nat n) AND (0x2000 :: u64) = 0x2000 \<longleftrightarrow> t"
proof -
  have p: "(0x2000 :: u64) = 2 ^ 13" by simp
  have nb: "\<not> bit (of_nat n :: u64) 13"
    using assms(2) by (simp add: bit_simps)
  then have "(tb OR of_nat n) AND NOT (2 ^ 13) = (of_nat n :: u64)"
    unfolding assms(3) p by (intro bit_word_eqI) (auto simp: bit_simps simp del: power_numeral)
  then show "unat ((tb OR of_nat n) AND NOT (0x2000 :: u64)) = n"
    using assms(1) by (simp add: unat_of_nat)
  have "bit (tb OR of_nat n) 13 \<longleftrightarrow> t"
    using nb unfolding assms(3) p by (auto simp: bit_simps simp del: power_numeral)
  then show "(tb OR of_nat n) AND (0x2000 :: u64) = 0x2000 \<longleftrightarrow> t"
    using and_exp_eq_exp_iff [of 13 "tb OR of_nat n"] by simp
qed

lemma decode_payload_bytes:
  assumes "wf_payload p"
  shows "decode_payload (payload_kind p) buf (payload_bytes p @ rest) = (Inr p, rest)"
proof (cases p)
  case (Opus f t)
  with assms have "length f < 2 ^ 64" "\<not> bit (length f) 13" by auto
  from opus_header [OF this refl] Opus show ?thesis
    by (simp add: decode_payload_def payload_kind_def payload_bytes_def read_varint_varint_bytes Let_def)
qed (use assms in \<open>simp_all add: decode_payload_def payload_kind_def payload_bytes_def decode_encode_frames\<close>)

context voice_dst
begin

definition voice_bytes :: "'s VoicePacket \<Rightarrow> bytes" where
  "voice_bytes item =
    (case item of
       Ping t \<Rightarrow> 0x20 # varint_bytes t
     | Audio target s q p pos \<Rightarrow>
         (push_bit 5 (payload_kind p) OR (target AND 0b11111)) # sid_bytes s @ varint_bytes q
           @ payload_bytes p @ (case pos of None \<Rightarrow> [] | Some bs \<Rightarrow> bs))"

lemma voice_encode_eq: "voice_encode dst item buf = Return (buf @ voice_bytes item)"
  by (auto simp: voice_encode_def voice_bytes_def write_session_id_appends encode_payload_eq Let_def
      split: VoicePacket.split option.split)

lemma voice_decode_ping:
  "voice_decode dst (voice_bytes (Ping t) @ rest)
    = (Inr (Some (Ping t)), voice_bytes (Ping t) @ rest)"
  by (simp add: voice_decode_def voice_bytes_def read_varint_varint_bytes Let_def)

end

lemma audio_header:
  assumes "unat (target :: u8) < 32"
  shows "drop_bit 5 (push_bit 5 (payload_kind p) OR (target AND 0b11111)) = payload_kind p"
    and "(push_bit 5 (payload_kind p) OR (target AND 0b11111)) AND 0b11111 = target"
    and "payload_kind p \<noteq> 1"
  using not_bit_of_unat_less [of target 5] assms
  by (auto simp: u8_eq_iff_bits bit_simps payload_kind_def split: VoicePacketPayload.split)

context voice_dst
begin

lemma voice_decode_audio:
  assumes "wf_voice (Audio target s q p pos)"
  shows "voice_decode dst (voice_bytes (Audio target s q p pos))
    = (Inr (Some (Audio target s q p pos)), [])"
  using assms audio_header [of target p] decode_payload_bytes [of p _ "case pos of None \<Rightarrow> [] | Some bs \<Rightarrow> bs"]
  by (auto simp: voice_decode_def voice_bytes_def read_varint_varint_bytes read_written_session_id Let_def
      split: option.splits)

lemma voice_decode_encode:
  "wf_voice item \<Longrightarrow> voice_decode dst (voice_bytes item)
    = (Inr (Some item), case item of Ping t \<Rightarrow> voice_bytes item | Audio t s q p pos \<Rightarrow> [])"
  using voice_decode_ping [of _ "[]"] voice_decode_audio by (cases item) auto

end

lemma read_session_id_Serverbound [simp]: "read_session_id Serverbound buf = Inr ((), buf)"
  by (simp add: Serverbound_def)

section \<open>The decoder\<close>

lemma decode_payload_wf:
  assumes "decode_payload kind buf cur = (Inr p, rest)"
  shows "wf_payload p"
proof (cases "kind = 4")
  case True
  with assms obtain header cur' where r: "read_varint cur = Inr (header, cur')"
    and len: "unat (header AND NOT 0x2000) \<le> length cur'"
    and p: "p = Opus (take (unat (header AND NOT 0x2000)) cur') (header AND 0x2000 = 0x2000)"
    by (auto simp: decode_payload_def Let_def split: sum.splits if_splits)
  have "\<not> bit (header AND NOT (2 ^ 13)) 13" by (simp add: bit_simps del: power_numeral)
  then have "\<not> bit (unat (header AND NOT 0x2000)) 13"
    by (simp add: bit_unsigned_iff)
  with len show ?thesis
    using unsigned_less [of "header AND NOT 0x2000", where 'a = nat] by (simp add: p min_absorb2)
next
  case False
  with assms show ?thesis
    by (auto simp: decode_payload_def split: sum.splits if_splits prod.splits dest: decode_frames_wf)
qed

lemma decode_frames_error: "decode_frames buf acc = (Inl e, rest) \<Longrightarrow> e = UnexpectedEof"
proof (induction buf acc rule: decode_frames.induct)
  case (1 buf acc)
  then show ?case
    by (cases buf) (auto simp: decode_frames_Cons Let_def and_exp_eq_exp_iff [of 7, simplified] split: if_splits)
qed

lemma decode_payload_error:
  "decode_payload kind buf cur = (Inl e, rest) \<Longrightarrow>
    e = (if kind \<in> {0, 2, 3, 4} then UnexpectedEof else InvalidData ''unknown voice packet type'')"
  by (auto simp: decode_payload_def Let_def split: sum.splits if_splits prod.splits
      dest: decode_frames_error read_varint_error)

lemma unat_low_bits: "unat ((header :: u8) AND 0b11111) < 32"
proof -
  have "k < 5" if "bit (header AND 0b11111) k" for k
    using that bit_imp_le_length [OF that] by (cases "k = 5 \<or> k = 6 \<or> k = 7") (auto simp: bit_simps)
  then have "unat (header AND 0b11111) < 2 ^ 5"
    unfolding unat_less_iff_bits by blast
  then show ?thesis by simp
qed

lemma voice_decode_wf:
  "voice_decode vd buf = (Inr (Some item), rest) \<Longrightarrow> wf_voice item"
  using unat_low_bits
  by (fastforce simp: voice_decode_def Let_def split: sum.splits prod.splits if_splits dest: decode_payload_wf)

lemma voice_decode_not_None: "fst (voice_decode vd buf) \<noteq> Inr None"
  by (auto simp: voice_decode_def Let_def split: sum.splits prod.splits)

context voice_dst
begin

lemma voice_decode_error:
  assumes "voice_decode dst buf = (Inl e, rest)"
  shows "e = UnexpectedEof \<or>
    e = InvalidData ''unknown voice packet type'' \<and> (\<exists>header cur. buf = header # cur \<and>
      drop_bit 5 header \<notin> {0, 1, 2, 3, 4})"
  using assms
  by (auto simp: voice_decode_def Let_def split: sum.splits prod.splits if_splits list.splits
      simp: read_u8_def dest!: decode_payload_error read_varint_error read_session_id_error)

end

text \<open>An Opus frame whose length has bit 13 set takes the place of the terminator bit.\<close>

lemma opus_length_overflow:
  assumes "bit n 13" and "n < 2 ^ 64"
  shows "unat (of_nat n AND NOT (0x2000 :: u64)) = n - 8192" and "of_nat n AND (0x2000 :: u64) = 0x2000"
proof -
  have b: "bit (of_nat n :: u64) 13" using assms(1) by (simp add: bit_simps)
  with and_exp_eq_exp_iff [of 13 "of_nat n :: u64"] show "of_nat n AND (0x2000 :: u64) = 0x2000"
    by simp
  have "take_bit 13 n \<noteq> n" using assms(1) by (metis bit_take_bit_iff less_irrefl)
  then have le: "2 ^ 13 \<le> n" by (simp add: take_bit_nat_eq_self_iff)
  have "of_nat n AND NOT (push_bit 13 1) = (of_nat n :: u64) - 2 ^ 13"
    using unset_bit_eq [of 13 "of_nat n :: u64"] b by (simp add: unset_bit_eq_and_not)
  also have "\<dots> = of_nat (n - 2 ^ 13)" using le by (simp add: of_nat_diff)
  finally have "of_nat n AND NOT (0x2000 :: u64) = of_nat (n - 8192)" by simp
  then show "unat (of_nat n AND NOT (0x2000 :: u64)) = n - 8192"
    using assms(2) by (simp add: unat_of_nat)
qed

section \<open>Properties\<close>

text \<open>
  C18. Voice codec round trip, in both directions of travel: for every packet that the wire
  format can carry, encoding never panics and decoding the bytes gives the packet back. An
  audio packet uses up the whole buffer.
\<close>

theorem voice_roundtrip:
  assumes "wf_voice sp" and "wf_voice cp"
  shows "(\<exists>bs. voice_encode Serverbound sp [] = Return bs \<and>
      voice_decode Serverbound bs = (Inr (Some sp), case sp of Ping t \<Rightarrow> bs | Audio t s q p i \<Rightarrow> [])) \<and>
    (\<exists>bs. voice_encode Clientbound cp [] = Return bs \<and>
      voice_decode Clientbound bs = (Inr (Some cp), case cp of Ping t \<Rightarrow> bs | Audio t s q p i \<Rightarrow> []))"
  using sb.voice_decode_encode [OF assms(1)] cb.voice_decode_encode [OF assms(2)]
  by (simp add: sb.voice_encode_eq cb.voice_encode_eq)

theorem voice_roundtrip_witness:
  "let sp = Audio 13 () 123567 (Opus [116, 101, 115, 116] True) None;
       cp = Audio 0 42 7 (Speex [[1, 2], [3]]) (Some [9])
   in (\<exists>bs. voice_encode Serverbound sp [] = Return bs \<and>
        voice_decode Serverbound bs = (Inr (Some sp), [])) \<and>
      (\<exists>bs. voice_encode Clientbound cp [] = Return bs \<and>
        voice_decode Clientbound bs = (Inr (Some cp), []))"
  using voice_roundtrip [of "Audio 13 () 123567 (Opus [116, 101, 115, 116] True) None"
      "Audio 0 42 7 (Speex [[1, 2], [3]]) (Some [9])"]
  by (simp add: bit_iff_odd Let_def)

text \<open>
  Relaying is faithful: an audio packet that the server decodes from a client, given the
  session id of its origin and encoded for the clients, decodes at the receiver to the same
  target, sequence number, payload and positional data under that session id.
\<close>

theorem voice_relay_faithful:
  assumes "voice_decode Serverbound buf = (Inr (Some (Audio target () seq_num payload pos)), rest)"
  shows "\<exists>bs. voice_encode Clientbound (Audio target sid seq_num payload pos) [] = Return bs \<and>
    voice_decode Clientbound bs = (Inr (Some (Audio target sid seq_num payload pos)), [])"
  using voice_decode_wf [OF assms] cb.voice_decode_audio [of target sid seq_num payload pos]
  by (simp add: cb.voice_encode_eq)

theorem voice_relay_faithful_witness:
  "\<exists>bs. voice_encode Clientbound (Audio 3 77 5 (Opus [1, 2] False) None) [] = Return bs \<and>
    voice_decode Clientbound bs = (Inr (Some (Audio 3 77 5 (Opus [1, 2] False) None)), [])"
  by (rule voice_relay_faithful [of "[0x83, 5, 2, 1, 2]" _ _ _ _ "[]"])
    (simp add: voice_decode_def Serverbound_def read_varint.simps decode_payload_def Let_def)

text \<open>
  The decoder is total and its errors are known: it never returns \<open>Ok(None)\<close> (which the
  callers rely on with \<open>expect\<close>), it fails with \<open>UnexpectedEof\<close> or, only for the kinds 5, 6 and
  7, with \<open>InvalidData\<close>; and every packet it returns is well-formed.
\<close>

theorem voice_decode_total:
  "(\<exists>item rest. voice_decode Clientbound buf = (Inr (Some item), rest) \<and> wf_voice item) \<or>
   (\<exists>rest. voice_decode Clientbound buf = (Inl UnexpectedEof, rest)) \<or>
   (\<exists>header cur rest. voice_decode Clientbound buf = (Inl (InvalidData ''unknown voice packet type''), rest) \<and>
      buf = header # cur \<and> drop_bit 5 header \<in> {5, 6, 7})"
proof -
  obtain r rest where d: "voice_decode Clientbound buf = (r, rest)" by (cases "voice_decode Clientbound buf")
  have kinds: "drop_bit 5 header \<in> {5, 6, 7}" if "drop_bit 5 header \<notin> {0, 1, 2, 3, 4}" for header :: u8
    using that
    by (cases "bit header 5"; cases "bit header 6"; cases "bit header 7")
      (simp_all add: u8_eq_iff_bits bit_simps not_bit_byte)
  show ?thesis
  proof (cases r)
    case (Inl e)
    with d cb.voice_decode_error [of buf e rest] kinds show ?thesis by auto
  next
    case (Inr item)
    with d voice_decode_not_None [of Clientbound buf] obtain i where "item = Some i"
      by (cases item) auto
    with d Inr voice_decode_wf [of Clientbound buf i rest] show ?thesis by auto
  qed
qed

text \<open>
  A ping is never removed from the buffer: \<open>decode\<close> reads it through a cursor and leaves
  the buffer as it was, so calling the decoder again, as a stream of packets would, yields the
  same ping any number of times.
\<close>

theorem voice_ping_repeats:
  "\<exists>bs. voice_encode Serverbound (Ping t) [] = Return bs \<and>
     drain n (voice_decode Serverbound) bs = Drained (replicate n (Ping t)) bs"
proof -
  have "drain n (voice_decode Serverbound) bs = Drained (replicate n (Ping t)) bs"
    if "voice_decode Serverbound bs = (Inr (Some (Ping t)), bs)" for bs
    by (induction n) (simp_all add: that)
  then show ?thesis
    using sb.voice_decode_ping [of t "[]"] by (simp add: sb.voice_encode_eq)
qed

text \<open>
  C32. The encoder does not check the length of Opus frames: where bit 13 of the length is set
  it collides with the terminator bit, and the receiver silently gets a frame that is 8192
  bytes shorter and marked as the end of the transmission, the rest as positional data.
\<close>

theorem opus_length_collides:
  assumes "bit (length frame) 13" and "length frame < 2 ^ 64" and "unat target < 32"
  shows "\<exists>bs. voice_encode Serverbound (Audio target () seq_num (Opus frame False) None) [] = Return bs \<and>
    voice_decode Serverbound bs =
      (Inr (Some (Audio target () seq_num (Opus (take (length frame - 8192) frame) True)
         (Some (drop (length frame - 8192) frame)))), [])"
proof -
  have "length frame \<noteq> 0" using assms(1) by (metis bit_0_eq bot_apply bot_bool_def)
  then have "length frame - 8192 < length frame" by (intro diff_less) simp_all
  then show ?thesis
    using opus_length_overflow [OF assms(1,2)] audio_header [OF assms(3), of "Opus frame False"]
    by (simp add: sb.voice_encode_eq sb.voice_bytes_def voice_decode_def read_varint_varint_bytes
        payload_bytes_def decode_payload_def Let_def payload_kind_def)
qed

theorem opus_length_collides_witness:
  "\<exists>bs. voice_encode Serverbound (Audio 0 () 0 (Opus (replicate 8192 7) False) None) [] = Return bs \<and>
    voice_decode Serverbound bs = (Inr (Some (Audio 0 () 0 (Opus [] True) (Some (replicate 8192 7)))), [])"
  using opus_length_collides [of "replicate 8192 7" 0 0] by (simp add: bit_iff_odd)

end
