(* ===== verification/Crypt.thy ===== *)
theory Crypt
  imports Ocb Voice
begin

text \<open>
  The voice channel cryptography of \<open>mumble-protocol/src/crypt.rs\<close>: the state
  \<open>CryptState\<close> with its two nonces, its replay history and its statistics, and the operations
  \<open>encrypt\<close> and \<open>decrypt\<close> on it. The mode of operation itself is in theory \<open>Ocb\<close>.

  The markers \<open>EncodeDst\<close> and \<open>DecodeDst\<close> are arguments, of type \<open>VoicePacketDst\<close>, of the
  operations which use them. The counters \<open>good\<close>, \<open>late\<close> and \<open>lost\<close> wrap around, as in a
  build without overflow checks; \<open>i8\<close> and \<open>i32\<close> values are words read by \<open>sint\<close>.

  The properties follow a nonce over whole runs: what is sent is received, in order and across losses
  of up to 126 packets in a row; no nonce is accepted twice, as long as no packet is \<open>Late\<close>; and
  what a \<open>Late\<close> packet does to that.
\<close>

unbundle bit_operations_syntax

section \<open>The code\<close>

record CryptState =
  key :: bytes
  encrypt_nonce :: u128
  decrypt_nonce :: u128
  decrypt_history :: bytes
  good :: u32
  late :: u32
  lost :: u32

datatype DecryptError = Eof | Repeat | Late | Mac

text \<open>\<open>rand_bytes\<close> is OpenSSL's: the random key is an argument.\<close>

definition generate_new :: "bytes \<Rightarrow> CryptState" where
  "generate_new rand_key =
    \<lparr>key = rand_key, encrypt_nonce = 0, decrypt_nonce = push_bit 127 1,
     decrypt_history = replicate 0x100 0, good = 0, late = 0, lost = 0\<rparr>"

definition new_from :: "bytes \<Rightarrow> bytes \<Rightarrow> bytes \<Rightarrow> CryptState" where
  "new_from key0 encrypt_nonce0 decrypt_nonce0 =
    \<lparr>key = key0, encrypt_nonce = from_le_bytes encrypt_nonce0,
     decrypt_nonce = from_le_bytes decrypt_nonce0,
     decrypt_history = replicate 0x100 0, good = 0, late = 0, lost = 0\<rparr>"

definition get_good :: "CryptState \<Rightarrow> u32" where
  "get_good self = good self"

definition get_late :: "CryptState \<Rightarrow> u32" where
  "get_late self = late self"

definition get_lost :: "CryptState \<Rightarrow> u32" where
  "get_lost self = lost self"

definition get_encrypt_nonce :: "CryptState \<Rightarrow> bytes" where
  "get_encrypt_nonce self = le_bytes BLOCK_SIZE (encrypt_nonce self)"

definition get_decrypt_nonce :: "CryptState \<Rightarrow> bytes" where
  "get_decrypt_nonce self = le_bytes BLOCK_SIZE (decrypt_nonce self)"

definition set_decrypt_nonce :: "CryptState \<Rightarrow> bytes \<Rightarrow> CryptState" where
  "set_decrypt_nonce self nonce = self\<lparr>decrypt_nonce := from_le_bytes nonce\<rparr>"

text \<open>\<open>BytesMut::resize\<close>.\<close>

definition resize :: "bytes \<Rightarrow> nat \<Rightarrow> u8 \<Rightarrow> bytes" where
  "resize buf n v = take n buf @ replicate (n - length buf) v"

definition encrypt ::
    "crypto \<Rightarrow> 's VoicePacketDst \<Rightarrow> CryptState \<Rightarrow> 's VoicePacket \<Rightarrow> bytes \<Rightarrow>
      (CryptState \<times> bytes) outcome" where
  "encrypt cr EncodeDst self packet dst =
    (let self = self\<lparr>encrypt_nonce := encrypt_nonce self + 1\<rparr>;
         dst = resize dst 4 0;
         inner = drop 4 dst;
         dst = take 4 dst
     in bind_outcome (voice_encode EncodeDst packet inner) (\<lambda>inner.
          let (inner, tag) = ocb_encrypt cr (key self) (encrypt_nonce self) inner;
              dst = dst @ inner;
              dst = dst[0 := ucast (encrypt_nonce self)];
              dst = take 1 dst @ take 3 (be_bytes BLOCK_SIZE tag) @ drop 4 dst
          in Return (self, dst)))"

text \<open>
  The first part of \<open>decrypt\<close>, which finds the nonce of a packet from its low byte: either the
  error, or whether the packet is late and the correction to \<open>lost\<close>; and in any case the nonce it
  leaves in the state.
\<close>

definition track_nonce :: "CryptState \<Rightarrow> u8 \<Rightarrow> (DecryptError + bool \<times> u32) \<times> u128" where
  "track_nonce self nonce_0 =
    (let saved_nonce = decrypt_nonce self
     in if ucast (decrypt_nonce self + 1) = nonce_0 then (Inr (False, 0), decrypt_nonce self + 1)
        else
          let diff = nonce_0 - (ucast (decrypt_nonce self) :: u8);
              nonce = decrypt_nonce self + scast diff
          in if 0 <s diff then (Inr (False, scast (diff - 1)), nonce)
             else if - 30 <s diff then
               if decrypt_history self ! unat nonce_0 = ucast (drop_bit 8 nonce)
               then (Inl Repeat, saved_nonce)
               else (Inr (True, - 1), nonce)
             else (Inl Late, nonce))"

definition decrypt ::
    "crypto \<Rightarrow> 's VoicePacketDst \<Rightarrow> CryptState \<Rightarrow> bytes \<Rightarrow>
      ((DecryptError + io_error + 's VoicePacket) \<times> CryptState \<times> bytes) outcome" where
  "decrypt cr DecodeDst self buf =
    (if length buf < 4 then Return (Inl Eof, self, buf)
     else
       let header = take 4 buf;
           buf = drop 4 buf;
           nonce_0 = header ! 0;
           saved_nonce = decrypt_nonce self;
           (track, nonce) = track_nonce self nonce_0;
           self = self\<lparr>decrypt_nonce := nonce\<rparr>
       in case track of
            Inl e \<Rightarrow> Return (Inl e, self, buf)
          | Inr (is_late, lost_by) \<Rightarrow>
              let (buf, tag) = ocb_decrypt cr (key self) (decrypt_nonce self) buf
              in if take 3 (be_bytes BLOCK_SIZE tag) \<noteq> drop 1 header
                 then Return (Inl Mac, self\<lparr>decrypt_nonce := saved_nonce\<rparr>, buf)
                 else
                   let self = self\<lparr>decrypt_history :=
                         (decrypt_history self)[unat nonce_0 := ucast (drop_bit 8 (decrypt_nonce self))]\<rparr>;
                       self = self\<lparr>good := good self + 1\<rparr>;
                       self = (if is_late
                               then self\<lparr>late := late self + 1, decrypt_nonce := saved_nonce\<rparr>
                               else self);
                       self = self\<lparr>lost := lost self + lost_by\<rparr>;
                       (r, buf) = voice_decode DecodeDst buf
                   in (case r of
                         Inl e \<Rightarrow> Return (Inr (Inl e), self, buf)
                       | Inr it \<Rightarrow> bind_outcome (expect_option it ''VoiceCodec is stateless'') (\<lambda>it.
                           Return (Inr (Inr it), self, buf))))"

definition crypt_decode ::
    "crypto \<Rightarrow> 's VoicePacketDst \<Rightarrow> CryptState \<Rightarrow> bytes \<Rightarrow>
      ((io_error + 's VoicePacket option) \<times> CryptState \<times> bytes) outcome" where
  "crypt_decode cr DecodeDst self buf_mut =
    bind_outcome (decrypt cr DecodeDst self buf_mut) (\<lambda>(r, self, buf_mut).
      Return (case r of
          Inl _ \<Rightarrow> Inl (InvalidData ''failed to decrypt'')
        | Inr (Inl e) \<Rightarrow> Inl e
        | Inr (Inr it) \<Rightarrow> Inr (Some it), self, buf_mut))"

definition crypt_encode ::
    "crypto \<Rightarrow> 's VoicePacketDst \<Rightarrow> CryptState \<Rightarrow> 's VoicePacket \<Rightarrow> bytes \<Rightarrow>
      (CryptState \<times> bytes) outcome" where
  "crypt_encode cr EncodeDst self item dst = encrypt cr EncodeDst self item dst"

section \<open>Nonces\<close>

text \<open>
  The state of the type: the arrays have their lengths.
\<close>

definition wf_crypt :: "CryptState \<Rightarrow> bool" where
  "wf_crypt self \<longleftrightarrow> length (key self) = KEY_SIZE \<and> length (decrypt_history self) = 0x100"

text \<open>
  The signed distance from the current nonce to the one a low byte stands for, which selects every
  branch: a packet in order is at distance 1.
\<close>

definition nonce_distance :: "u128 \<Rightarrow> u8 \<Rightarrow> int" where
  "nonce_distance nonce nonce_0 = sint (nonce_0 - ucast nonce)"

lemma nonce_distance_range: "- 128 \<le> nonce_distance n b" "nonce_distance n b \<le> 127"
  using sint_range_size [of "b - ucast n"] by (auto simp: nonce_distance_def word_size)

text \<open>Narrowing to a byte is a ring homomorphism.\<close>

lemma take_bit_add_take_bit:
  fixes a b :: int
  assumes "m \<le> n"
  shows "take_bit m (take_bit n a + take_bit n b) = take_bit m (a + b)"
proof -
  have "take_bit m (take_bit n a + take_bit n b)
      = take_bit m (take_bit m (take_bit n a) + take_bit m (take_bit n b))"
    by (rule take_bit_add [symmetric])
  also have "\<dots> = take_bit m (take_bit m a + take_bit m b)"
    using assms by (simp add: min_def)
  finally show ?thesis by (simp add: take_bit_add)
qed

lemma low_byte_add: "(ucast (a + b :: u128) :: u8) = ucast a + ucast b"
  by transfer (simp add: take_bit_add min_def take_bit_add_take_bit)

lemma low_byte_of_int: "(ucast (word_of_int k :: u128) :: u8) = word_of_int k"
  by transfer (simp add: min_def)

lemma scast_distance: "(scast (b - ucast n :: u8) :: u128) = word_of_int (nonce_distance n b)"
  by (simp add: nonce_distance_def)

lemma nonce_distance_add:
  assumes "- 128 \<le> k" and "k \<le> 127"
  shows "nonce_distance n (ucast (n + word_of_int k)) = k"
proof -
  have "ucast (n + word_of_int k) - ucast n = (word_of_int k :: u8)"
    by (simp add: low_byte_add low_byte_of_int)
  then show ?thesis
    using assms by (simp add: nonce_distance_def int_word_sint)
qed

lemma nonce_distance_one: "nonce_distance n (ucast (n + 1)) = 1"
  using nonce_distance_add [of 1 n] by simp

lemma diff_pred:
  assumes "0 < nonce_distance n b"
  shows "(scast (b - ucast n - 1 :: u8) :: u32) = word_of_int (nonce_distance n b - 1)"
proof -
  have "b - ucast n - 1 = (word_of_int (nonce_distance n b - 1) :: u8)"
    by (simp add: nonce_distance_def)
  moreover have "sint (word_of_int (nonce_distance n b - 1) :: u8) = nonce_distance n b - 1"
    unfolding int_word_sint using assms nonce_distance_range [of n b] by simp
  ultimately show ?thesis by (metis of_int_sint)
qed

lemma track_nonce_eq:
  "track_nonce self b =
    (let k = nonce_distance (decrypt_nonce self) b;
         n = decrypt_nonce self + word_of_int k
     in if 0 < k then (Inr (False, word_of_int (k - 1)), n)
        else if - 30 < k then
          if decrypt_history self ! unat b = ucast (drop_bit 8 n)
          then (Inl Repeat, decrypt_nonce self)
          else (Inr (True, - 1), n)
        else (Inl Late, n))"
proof (cases "ucast (decrypt_nonce self + 1) = b")
  case True
  then have "nonce_distance (decrypt_nonce self) b = 1" by (auto simp: nonce_distance_one)
  with True show ?thesis by (simp add: track_nonce_def)
next
  case False
  define k where "k = nonce_distance (decrypt_nonce self) b"
  have "0 <s b - ucast (decrypt_nonce self) \<longleftrightarrow> 0 < k"
    "- 30 <s b - ucast (decrypt_nonce self) \<longleftrightarrow> - 30 < k"
    by (simp_all add: k_def nonce_distance_def word_sless_alt)
  with False show ?thesis
    by (simp add: track_nonce_def Let_def scast_distance diff_pred flip: k_def)
qed

lemma low_byte_candidate: "ucast (n + word_of_int (nonce_distance n b)) = b"
  unfolding low_byte_add low_byte_of_int by (simp add: nonce_distance_def)

section \<open>Accepting a packet\<close>

text \<open>
  The nonce under which \<open>decrypt\<close> accepts a packet, if it does: the one its low byte stands for, when
  it is neither a repetition nor too late and the tag is right.
\<close>

definition accepted_nonce :: "crypto \<Rightarrow> CryptState \<Rightarrow> bytes \<Rightarrow> u128 option" where
  "accepted_nonce cr self buf =
    (if length buf < 4 then None
     else case track_nonce self (buf ! 0) of
         (Inl e, n) \<Rightarrow> None
       | (Inr _, n) \<Rightarrow>
           if take 3 (be_bytes BLOCK_SIZE (snd (ocb_decrypt cr (key self) n (drop 4 buf)))) = take 3 (drop 1 buf)
           then Some n else None)"

text \<open>The state after accepting a packet at distance \<open>k\<close>.\<close>

definition accept_state :: "CryptState \<Rightarrow> int \<Rightarrow> CryptState" where
  "accept_state self k =
    (let n = decrypt_nonce self + word_of_int k
     in self\<lparr>decrypt_nonce := (if 0 < k then n else decrypt_nonce self),
             decrypt_history := (decrypt_history self)[unat (ucast n :: u8) := ucast (drop_bit 8 n)],
             good := good self + 1,
             late := (if 0 < k then late self else late self + 1),
             lost := lost self + word_of_int (if 0 < k then k - 1 else - 1)\<rparr>)"

lemma header_tag: "drop (Suc 0) (take 4 buf) = take 3 (drop (Suc 0) buf)"
  by (simp add: drop_take)

lemma accepted_nonce_SomeD:
  assumes "accepted_nonce cr self buf = Some n"
  obtains k where "k = nonce_distance (decrypt_nonce self) (buf ! 0)"
    and "n = decrypt_nonce self + word_of_int k" and "- 30 < k" and "k \<le> 127"
    and "k \<le> 0 \<Longrightarrow> decrypt_history self ! unat (buf ! 0) \<noteq> ucast (drop_bit 8 n)"
    and "4 \<le> length buf" and "ucast n = buf ! 0"
  using assms nonce_distance_range [of "decrypt_nonce self" "buf ! 0"]
  by (auto simp: accepted_nonce_def track_nonce_eq Let_def low_byte_candidate split: if_splits)

lemma decrypt_accepted:
  assumes "accepted_nonce cr self buf = Some n"
  defines "k \<equiv> nonce_distance (decrypt_nonce self) (buf ! 0)"
  defines "plain \<equiv> fst (ocb_decrypt cr (key self) n (drop 4 buf))"
  shows "\<exists>r rest. voice_decode DecodeDst plain = (map_sum id Some r, rest) \<and>
    decrypt cr DecodeDst self buf = Return (Inr r, accept_state self k, rest)"
proof -
  obtain r rest where r: "voice_decode DecodeDst plain = (map_sum id Some r, rest)"
    using voice_decode_not_None [of DecodeDst plain]
    by (cases "voice_decode DecodeDst plain"; cases "fst (voice_decode DecodeDst plain)")
      (auto, metis map_sum.simps(1) id_apply, metis map_sum.simps(2))
  have n: "n = decrypt_nonce self + word_of_int k" and "- 30 < k" and len: "4 \<le> length buf"
    and low: "ucast n = buf ! 0"
    using assms(1) by (auto simp: k_def elim: accepted_nonce_SomeD)
  have "decrypt cr DecodeDst self buf = Return (Inr r, accept_state self k, rest)"
    using assms(1) len r low
    by (cases r)
      (auto simp: decrypt_def accepted_nonce_def accept_state_def track_nonce_eq Let_def header_tag
        n plain_def split: if_splits prod.splits simp flip: k_def)
  with r show ?thesis by blast
qed

lemma decrypt_rejected:
  assumes "accepted_nonce cr self buf = None"
  shows "\<exists>e self' rest. decrypt cr DecodeDst self buf = Return (Inl e, self', rest) \<and>
    (e = Late \<longleftrightarrow> 4 \<le> length buf \<and> nonce_distance (decrypt_nonce self) (buf ! 0) \<le> - 30) \<and>
    self' = (if e = Late
             then self\<lparr>decrypt_nonce := decrypt_nonce self + word_of_int (nonce_distance (decrypt_nonce self) (buf ! 0))\<rparr>
             else self)"
  using assms
  by (auto simp: decrypt_def accepted_nonce_def track_nonce_eq Let_def header_tag not_less
      split: if_splits prod.splits)

section \<open>Packets as they are sent\<close>

definition datagram :: "crypto \<Rightarrow> bytes \<Rightarrow> u128 \<Rightarrow> bytes \<Rightarrow> bytes" where
  "datagram cr k n plain =
    (let (cipher, tag) = ocb_encrypt cr k n plain
     in ucast n # take 3 (be_bytes BLOCK_SIZE tag) @ cipher)"

lemma datagram_simps:
  "datagram cr k n plain ! 0 = ucast n" "\<not> length (datagram cr k n plain) < 4"
  "drop 4 (datagram cr k n plain) = fst (ocb_encrypt cr k n plain)"
  "take 3 (drop (Suc 0) (datagram cr k n plain)) = take 3 (be_bytes BLOCK_SIZE (snd (ocb_encrypt cr k n plain)))"
  by (simp_all add: datagram_def BLOCK_SIZE_def split: prod.split)

lemma datagram_accepted:
  fixes plain :: bytes
  assumes "aes_ok cr" and "length (key self) = KEY_SIZE" and n: "n = decrypt_nonce self + word_of_int k"
    and "- 30 < k" and "k \<le> 127"
    and "k \<le> 0 \<Longrightarrow> decrypt_history self ! unat (ucast n :: u8) \<noteq> ucast (drop_bit 8 n)"
  defines "d \<equiv> datagram cr (key self) n plain"
  shows "accepted_nonce cr self d = Some n" and "nonce_distance (decrypt_nonce self) (d ! 0) = k"
    and "fst (ocb_decrypt cr (key self) n (drop 4 d)) = plain"
proof -
  have distance: "nonce_distance (decrypt_nonce self) (d ! 0) = k"
    using assms(4,5) by (simp add: d_def datagram_simps n nonce_distance_add)
  have dec: "ocb_decrypt cr (key self) n (drop 4 d) = (plain, snd (ocb_encrypt cr (key self) n plain))"
    using ocb_decrypt_encrypt [OF assms(1,2), of n plain] by (simp add: d_def datagram_simps)
  have "d ! 0 = ucast n" by (simp add: d_def datagram_simps)
  with assms(4,6) dec distance show "accepted_nonce cr self d = Some n"
    by (auto simp: accepted_nonce_def track_nonce_eq Let_def d_def datagram_simps simp flip: n)
  show "nonce_distance (decrypt_nonce self) (d ! 0) = k" by (rule distance)
  show "fst (ocb_decrypt cr (key self) n (drop 4 d)) = plain" by (simp add: dec)
qed

context voice_dst
begin

lemma encrypt_eq:
  "encrypt cr dst self packet buf =
    Return (self\<lparr>encrypt_nonce := encrypt_nonce self + 1\<rparr>,
            datagram cr (key self) (encrypt_nonce self + 1) (voice_bytes packet))"
proof -
  have header: "take 1 ((resize buf 4 0 @ x)[0 := b]) = [b]" "length (resize buf 4 0) = 4" for x b
    by (cases buf; simp add: resize_def numeral_eq_Suc)+
  then show ?thesis
    by (simp add: encrypt_def voice_encode_eq datagram_def Let_def BLOCK_SIZE_def split: prod.split)
qed

lemma decrypt_datagram:
  assumes "aes_ok cr" and "length (key self) = KEY_SIZE" and "wf_voice packet"
    and "n = decrypt_nonce self + word_of_int k" and "- 30 < k" and "k \<le> 127"
    and "k \<le> 0 \<Longrightarrow> decrypt_history self ! unat (ucast n :: u8) \<noteq> ucast (drop_bit 8 n)"
  shows "\<exists>rest. decrypt cr dst self (datagram cr (key self) n (voice_bytes packet))
    = Return (Inr (Inr packet), accept_state self k, rest)"
proof -
  note acc = datagram_accepted [OF assms(1,2,4-7), of "voice_bytes packet"]
  obtain r rest where r: "voice_decode dst (voice_bytes packet) = (map_sum id Some r, rest)"
    and "decrypt cr dst self (datagram cr (key self) n (voice_bytes packet))
      = Return (Inr r, accept_state self k, rest)"
    using decrypt_accepted [OF acc(1), of dst] by (auto simp: acc(2,3))
  moreover have "r = Inr packet"
    using r voice_decode_encode [OF assms(3)] by (cases r) auto
  ultimately show ?thesis by auto
qed

end

section \<open>Runs\<close>

text \<open>A receiver which decrypts one datagram after another.\<close>

fun decrypt_all ::
    "crypto \<Rightarrow> 's VoicePacketDst \<Rightarrow> CryptState \<Rightarrow> bytes list \<Rightarrow>
      ((DecryptError + io_error + 's VoicePacket) list \<times> CryptState) outcome" where
  "decrypt_all cr vd self [] = Return ([], self)"
| "decrypt_all cr vd self (buf # bufs) =
    bind_outcome (decrypt cr vd self buf) (\<lambda>(r, self, _).
      bind_outcome (decrypt_all cr vd self bufs) (\<lambda>(rs, self).
        Return (r # rs, self)))"

text \<open>The nonces of the datagrams it accepts.\<close>

fun accepted_nonces :: "crypto \<Rightarrow> 's VoicePacketDst \<Rightarrow> CryptState \<Rightarrow> bytes list \<Rightarrow> u128 list" where
  "accepted_nonces cr vd self [] = []"
| "accepted_nonces cr vd self (buf # bufs) =
    (case accepted_nonce cr self buf of None \<Rightarrow> [] | Some n \<Rightarrow> [n]) @
    (case decrypt cr vd self buf of
       Return (r, self', rest) \<Rightarrow> accepted_nonces cr vd self' bufs
     | Panic m \<Rightarrow> [])"

lemma decrypt_returns: "\<exists>r self' rest. decrypt cr vd self buf = Return (r, self', rest)"
proof (cases "accepted_nonce cr self buf")
  case None
  then show ?thesis using decrypt_rejected [OF None, of vd] by blast
next
  case (Some n)
  then show ?thesis using decrypt_accepted [OF Some, of vd] by blast
qed

lemma decrypt_all_returns:
  "\<exists>rs self'. decrypt_all cr vd self bufs = Return (rs, self') \<and> length rs = length bufs"
proof (induction bufs arbitrary: self)
  case (Cons buf bufs)
  obtain r s rest where "decrypt cr vd self buf = Return (r, s, rest)" using decrypt_returns by blast
  then show ?case using Cons [of s] by auto
qed simp

text \<open>
  The invariant behind replay protection. \<open>N\<close> is the current nonce as an unbounded integer,
  \<open>acc\<close> the nonces accepted so far: the history remembers those of the last 256.
\<close>

definition remembers :: "CryptState \<Rightarrow> int \<Rightarrow> int set \<Rightarrow> bool" where
  "remembers self N acc \<longleftrightarrow>
    length (decrypt_history self) = 0x100 \<and> decrypt_nonce self = word_of_int N \<and>
    (\<forall>a \<in> acc. a \<le> N \<and> (N - 256 < a \<longrightarrow>
       decrypt_history self ! unat (ucast (word_of_int a :: u128) :: u8)
         = ucast (drop_bit 8 (word_of_int a :: u128))))"

lemma low_byte_eqD:
  "(ucast (word_of_int a :: u128) :: u8) = ucast (word_of_int b :: u128) \<Longrightarrow> a \<noteq> b \<Longrightarrow>
    256 \<le> \<bar>a - b\<bar>"
  unfolding low_byte_of_int
  using zdvd_imp_le [of 256 "\<bar>a - b\<bar>"] by (simp add: word_of_int_eq_iff take_bit_eq_mod mod_eq_dvd_iff)

lemma remembers_accept:
  assumes "remembers self N acc" and "accepted_nonce cr self buf = Some n"
  obtains k where "k = nonce_distance (decrypt_nonce self) (buf ! 0)"
    and "n = word_of_int (N + k)" and "N + k \<notin> acc" and "- 30 < k" and "k \<le> 127"
    and "remembers (accept_state self k) (max N (N + k)) (insert (N + k) acc)"
proof -
  obtain k where k: "k = nonce_distance (decrypt_nonce self) (buf ! 0)"
    and n: "n = decrypt_nonce self + word_of_int k" and range: "- 30 < k" "k \<le> 127"
    and fresh: "k \<le> 0 \<Longrightarrow> decrypt_history self ! unat (buf ! 0) \<noteq> ucast (drop_bit 8 n)"
    and low: "ucast n = buf ! 0"
    using assms(2) by (rule accepted_nonce_SomeD) blast
  have n': "n = word_of_int (N + k)" using assms(1) n by (simp add: remembers_def)
  have new: "N + k \<notin> acc"
  proof
    assume "N + k \<in> acc"
    with assms(1) range(1) have "N + k \<le> N"
      and "decrypt_history self ! unat (ucast n :: u8) = ucast (drop_bit 8 n)"
      by (auto simp: remembers_def n')
    with fresh low show False by simp
  qed
  have old: "a = N + k \<or> (decrypt_history self)[unat (ucast n :: u8) := v] ! unat (ucast (word_of_int a :: u128) :: u8)
      = ucast (drop_bit 8 (word_of_int a :: u128))"
    if a: "a \<in> acc" "max N (N + k) - 256 < a" for a v
  proof -
    have "(ucast (word_of_int a :: u128) :: u8) \<noteq> ucast n" if "a \<noteq> N + k"
    proof
      assume "(ucast (word_of_int a :: u128) :: u8) = ucast n"
      then have "256 \<le> \<bar>a - (N + k)\<bar>" unfolding n' using that by (rule low_byte_eqD)
      moreover have "a \<le> N" using assms(1) a by (auto simp: remembers_def)
      ultimately show False using a(2) range by linarith
    qed
    moreover have "N - 256 < a" using a(2) by simp
    ultimately show ?thesis
      using assms(1) a by (cases "a = N + k") (auto simp: remembers_def word_unat_eq_iff nth_list_update)
  qed
  have in_range: "unat (ucast n :: u8) < 256" by (rule order_less_le_trans [OF unsigned_less]) simp
  have nonce: "decrypt_nonce (accept_state self k) = word_of_int (max N (N + k))"
    using assms(1) by (simp add: remembers_def accept_state_def Let_def max_def)
  have history: "decrypt_history (accept_state self k)
      = (decrypt_history self)[unat (ucast n :: u8) := ucast (drop_bit 8 n)]"
    by (simp add: accept_state_def Let_def n)
  have "decrypt_history (accept_state self k) ! unat (ucast (word_of_int a :: u128) :: u8)
      = ucast (drop_bit 8 (word_of_int a :: u128))"
    if "a \<in> insert (N + k) acc" and "max N (N + k) - 256 < a" for a
  proof (cases "a = N + k")
    case True
    with assms(1) in_range show ?thesis
      unfolding history True n' [symmetric] by (simp add: remembers_def)
  next
    case False
    with that old show ?thesis unfolding history by blast
  qed
  moreover have "\<forall>a \<in> acc. a \<le> N" and "length (decrypt_history self) = 256"
    using assms(1) by (simp_all add: remembers_def)
  ultimately have "remembers (accept_state self k) (max N (N + k)) (insert (N + k) acc)"
    by (auto simp: remembers_def nonce history le_max_iff_disj)
  with k n' new range show ?thesis by (rule that)
qed


lemma remembers_run:
  assumes "remembers self N acc" and "decrypt_all cr vd self bufs = Return (rs, self')"
    and "Inl Late \<notin> set rs"
  shows "\<exists>as. accepted_nonces cr vd self bufs = map word_of_int as \<and> distinct as \<and>
    set as \<inter> acc = {} \<and> set as \<subseteq> {N - 30 <.. N + 127 * int (length bufs)} \<and>
    length as = length (filter (\<lambda>r. \<not> isl r) rs)"
  using assms
proof (induction bufs arbitrary: self N acc rs)
  case Nil
  then show ?case by auto
next
  case (Cons buf bufs)
  obtain r s rest where step: "decrypt cr vd self buf = Return (r, s, rest)"
    using decrypt_returns by blast
  obtain rs' where rs: "rs = r # rs'" and run: "decrypt_all cr vd s bufs = Return (rs', self')"
    using Cons.prems(2) step by (auto simp: bind_outcome_eq_Return)
  have ok: "r \<noteq> Inl Late" "Inl Late \<notin> set rs'" using Cons.prems(3) rs by auto
  show ?case
  proof (cases "accepted_nonce cr self buf")
    case None
    then have "isl r" and "s = self"
      using decrypt_rejected [OF None, of vd] step ok by (auto split: if_splits)
    then show ?thesis
      using Cons.IH [OF _ run ok(2)] Cons.prems(1) None step rs by fastforce
  next
    case (Some n)
    obtain k where k: "k = nonce_distance (decrypt_nonce self) (buf ! 0)"
      and n: "n = word_of_int (N + k)" and new: "N + k \<notin> acc" "- 30 < k" "k \<le> 127"
      and inv: "remembers (accept_state self k) (max N (N + k)) (insert (N + k) acc)"
      using Cons.prems(1) Some by (rule remembers_accept)
    have acc: "\<not> isl r" "s = accept_state self k"
      using decrypt_accepted [OF Some, of vd] step by (auto simp: k)
    obtain as where as: "accepted_nonces cr vd s bufs = map word_of_int as" "distinct as"
      "set as \<inter> insert (N + k) acc = {}"
      "set as \<subseteq> {max N (N + k) - 30 <.. max N (N + k) + 127 * int (length bufs)}"
      "length as = length (filter (\<lambda>r. \<not> isl r) rs')"
      using Cons.IH [OF _ run ok(2)] inv acc(2) by blast
    have "accepted_nonces cr vd self (buf # bufs) = map word_of_int ((N + k) # as)"
      using Some step as(1) n by simp
    moreover have "set ((N + k) # as) \<subseteq> {N - 30 <.. N + 127 * int (length (buf # bufs))}"
      using as(4) new(2,3) by (auto dest!: subsetD)
    ultimately show ?thesis
      using as(2,3,5) new(1) rs acc(1) by (intro exI [of _ "(N + k) # as"]) auto
  qed
qed

lemma word_of_int_inj_on:
  "S \<subseteq> {l <.. l + 2 ^ 128} \<Longrightarrow> inj_on (word_of_int :: int \<Rightarrow> u128) S"
proof (rule inj_onI)
  fix a b :: int
  assume S: "S \<subseteq> {l <.. l + 2 ^ 128}" "a \<in> S" "b \<in> S"
    and "(word_of_int a :: u128) = word_of_int b"
  then have "2 ^ 128 dvd a - b" by (simp add: word_of_int_eq_iff take_bit_eq_mod mod_eq_dvd_iff)
  moreover have "\<bar>a - b\<bar> < 2 ^ 128" 
    using subsetD [OF S(1,2)] subsetD [OF S(1,3)] unfolding greaterThanAtMost_iff by linarith
  ultimately show "a = b" using zdvd_imp_le [of "2 ^ 128" "\<bar>a - b\<bar>"] by (cases "a = b") auto
qed

text \<open>
  A sender and a receiver over a channel that loses packets: of each batch only the last packet
  arrives.
\<close>

fun encrypt_all ::
    "crypto \<Rightarrow> 's VoicePacketDst \<Rightarrow> CryptState \<Rightarrow> 's VoicePacket list \<Rightarrow>
      (CryptState \<times> bytes list) outcome" where
  "encrypt_all cr vd self [] = Return (self, [])"
| "encrypt_all cr vd self (p # ps) =
    bind_outcome (encrypt cr vd self p []) (\<lambda>(self, d).
      bind_outcome (encrypt_all cr vd self ps) (\<lambda>(self, ds). Return (self, d # ds)))"

fun transmit ::
    "crypto \<Rightarrow> 's VoicePacketDst \<Rightarrow> CryptState \<Rightarrow> CryptState \<Rightarrow>
      ('s VoicePacket list \<times> 's VoicePacket) list \<Rightarrow>
      ((DecryptError + io_error + 's VoicePacket) list \<times> CryptState \<times> CryptState) outcome" where
  "transmit cr vd sender receiver [] = Return ([], sender, receiver)"
| "transmit cr vd sender receiver ((dropped, p) # batches) =
    bind_outcome (encrypt_all cr vd sender (dropped @ [p])) (\<lambda>(sender, ds).
      bind_outcome (decrypt cr vd receiver (last ds)) (\<lambda>(r, receiver, _).
        bind_outcome (transmit cr vd sender receiver batches) (\<lambda>(rs, sender, receiver).
          Return (r # rs, sender, receiver))))"

context voice_dst
begin

lemma encrypt_all_eq:
  "\<exists>ds. encrypt_all cr dst self (ps @ [p]) =
    Return (self\<lparr>encrypt_nonce := encrypt_nonce self + word_of_nat (length (ps @ [p]))\<rparr>,
      ds @ [datagram cr (key self) (encrypt_nonce self + word_of_nat (length (ps @ [p]))) (voice_bytes p)])"
proof (induction ps arbitrary: self)
  case (Cons q ps)
  then show ?case
    using Cons [of "self\<lparr>encrypt_nonce := encrypt_nonce self + 1\<rparr>"]
    by (auto simp: encrypt_eq ac_simps)
qed (simp add: encrypt_eq)

lemma transmit_delivers:
  assumes "aes_ok cr" and "length (key receiver) = KEY_SIZE" and "key sender = key receiver"
    and "encrypt_nonce sender = decrypt_nonce receiver"
    and "\<forall>(dropped, p) \<in> set batches. length dropped \<le> 126 \<and> wf_voice p"
  shows "\<exists>sender' receiver'. transmit cr dst sender receiver batches
      = Return (map (\<lambda>(dropped, p). Inr (Inr p)) batches, sender', receiver') \<and>
    encrypt_nonce sender' = decrypt_nonce receiver' \<and>
    good receiver' = good receiver + word_of_nat (length batches) \<and>
    late receiver' = late receiver \<and>
    lost receiver' = lost receiver + word_of_nat (\<Sum>(dropped, p) \<leftarrow> batches. length dropped)"
  using assms(2-)
proof (induction batches arbitrary: sender receiver)
  case Nil
  then show ?case by simp
next
  case (Cons b batches)
  obtain dropped p where b: "b = (dropped, p)" by fastforce
  define k where "k = int (length dropped) + 1"
  define n where "n = decrypt_nonce receiver + word_of_int k"
  have k: "0 < k" "k \<le> 127" and p: "wf_voice p" using Cons.prems(4) b by (auto simp: k_def)
  obtain ds where enc: "encrypt_all cr dst sender (dropped @ [p]) =
      Return (sender\<lparr>encrypt_nonce := n\<rparr>, ds @ [datagram cr (key receiver) n (voice_bytes p)])"
    using encrypt_all_eq [of cr sender dropped p] Cons.prems(2,3) by (auto simp: n_def k_def ac_simps)
  obtain rest where dec: "decrypt cr dst receiver (datagram cr (key receiver) n (voice_bytes p))
      = Return (Inr (Inr p), accept_state receiver k, rest)"
    using decrypt_datagram [OF assms(1) Cons.prems(1) p n_def] k by auto
  have "key (accept_state receiver k) = key receiver" "decrypt_nonce (accept_state receiver k) = n"
    "good (accept_state receiver k) = good receiver + 1" "late (accept_state receiver k) = late receiver"
    "lost (accept_state receiver k) = lost receiver + word_of_nat (length dropped)"
    using k by (simp_all add: accept_state_def Let_def n_def k_def)
  then show ?case
    using Cons.IH [of "accept_state receiver k" "sender\<lparr>encrypt_nonce := n\<rparr>"] Cons.prems enc dec
    by (auto simp: b ac_simps)
qed

end

lemma nonce_distance_from_behind:
  assumes "- 127 \<le> k" and "k < 0"
  shows "nonce_distance (n + word_of_int k) (ucast n) = - k"
  using nonce_distance_add [of "- k" "n + word_of_int k"] assms by simp

lemma accepted_from_behind:
  assumes "accepted_nonce cr self buf = Some n" and "key self' = key self"
    and "decrypt_nonce self' = n + word_of_int k" and "- 127 \<le> k" and "k < 0"
  shows "accepted_nonce cr self' buf = Some n"
proof -
  have low: "buf ! 0 = ucast n" and len: "4 \<le> length buf"
    using assms(1) by (auto elim: accepted_nonce_SomeD)
  have "track_nonce self' (buf ! 0) = (Inr (False, word_of_int (- k - 1)), n)"
    using assms(3-5) by (simp add: track_nonce_eq low nonce_distance_from_behind)
  moreover have "take 3 (be_bytes BLOCK_SIZE (snd (ocb_decrypt cr (key self) n (drop 4 buf)))) = take 3 (drop 1 buf)"
    using assms(1) by (auto simp: accepted_nonce_def track_nonce_eq Let_def split: if_splits)
  ultimately show ?thesis
    using len assms(2) by (simp add: accepted_nonce_def)
qed

lemma replay_is_repeat:
  assumes "accepted_nonce cr self buf = Some n" and "length (decrypt_history self) = 0x100"
    and "k = nonce_distance (decrypt_nonce self) (buf ! 0)"
  shows "track_nonce (accept_state self k) (buf ! 0) = (Inl Repeat, decrypt_nonce (accept_state self k))"
proof -
  have n: "n = decrypt_nonce self + word_of_int k" and range: "- 30 < k" "k \<le> 127" and low: "ucast n = buf ! 0"
    using assms(1,3) by (auto elim: accepted_nonce_SomeD)
  have "unat (buf ! 0) < 256" by (rule order_less_le_trans [OF unsigned_less]) simp
  then have hist: "decrypt_history (accept_state self k) ! unat (buf ! 0) = ucast (drop_bit 8 n)"
    using assms(2) by (simp add: accept_state_def Let_def low flip: n)
  define j where "j = nonce_distance (decrypt_nonce (accept_state self k)) (buf ! 0)"
  have "j = (if 0 < k then 0 else k)"
    using range n low nonce_distance_add [of 0 n] assms(3)
    by (simp add: j_def accept_state_def Let_def flip: n)
  then have "\<not> 0 < j" "- 30 < j" "decrypt_nonce (accept_state self k) + word_of_int j = n"
    using range n by (auto simp: accept_state_def Let_def)
  then show ?thesis using hist by (simp add: track_nonce_eq Let_def flip: j_def)
qed

lemma decrypt_replay:
  assumes "accepted_nonce cr self buf = Some n" and "length (decrypt_history self) = 0x100"
    and "k = nonce_distance (decrypt_nonce self) (buf ! 0)"
  shows "decrypt cr vd (accept_state self k) buf = Return (Inl Repeat, accept_state self k, drop 4 buf)"
  using replay_is_repeat [OF assms] assms(1) by (auto simp: decrypt_def elim: accepted_nonce_SomeD)

text \<open>The arrays of a state, of fixed sizes in the code, keep them.\<close>

lemma new_wf: "length k = KEY_SIZE \<Longrightarrow> wf_crypt (generate_new k) \<and> wf_crypt (new_from k n n')"
  by (simp add: wf_crypt_def generate_new_def new_from_def)

lemma decrypt_keeps_wf:
  assumes "wf_crypt self"
  shows "\<exists>r self' rest. decrypt cr vd self buf = Return (r, self', rest) \<and> wf_crypt self'"
proof (cases "accepted_nonce cr self buf")
  case None
  from decrypt_rejected [OF this, of vd] obtain e self' rest where
    "decrypt cr vd self buf = Return (Inl e, self', rest)"
    and "self' = self \<or> (\<exists>n. self' = self\<lparr>decrypt_nonce := n\<rparr>)" by metis
  with assms show ?thesis by (auto simp: wf_crypt_def)
next
  case (Some n)
  have "wf_crypt (accept_state self k)" for k
    using assms by (simp add: wf_crypt_def accept_state_def Let_def)
  with decrypt_accepted [OF Some, of vd] show ?thesis by blast
qed

section \<open>Properties\<close>

text \<open>
  C9. What the server sends, the client receives: over a channel which loses packets, at most 126 in
  a row, every packet that arrives decrypts to the packet sent, the nonces stay in step, \<open>good\<close>
  counts the arrivals, \<open>lost\<close> the losses, and \<open>late\<close> is unchanged.
\<close>

theorem crypt_delivery:
  fixes batches :: "(u32 VoicePacket list \<times> u32 VoicePacket) list"
  assumes "aes_ok cr" and "length (key client) = KEY_SIZE" and "key server = key client"
    and "encrypt_nonce server = decrypt_nonce client"
    and "\<forall>(dropped, p) \<in> set batches. length dropped \<le> 126 \<and> wf_voice p"
  shows "\<exists>server' client'. transmit cr Clientbound server client batches
      = Return (map (\<lambda>(dropped, p). Inr (Inr p)) batches, server', client') \<and>
    encrypt_nonce server' = decrypt_nonce client' \<and>
    get_good client' = get_good client + word_of_nat (length batches) \<and>
    get_late client' = get_late client \<and>
    get_lost client' = get_lost client + word_of_nat (\<Sum>(dropped, p) \<leftarrow> batches. length dropped)"
  unfolding get_good_def get_late_def get_lost_def by (rule cb.transmit_delivers [OF assms])

lemma from_be_bytes_zeros: "from_be_bytes (replicate n 0) = 0"
  by (induction n) (simp_all add: from_be_bytes_def)

definition test_peer :: CryptState where
  "test_peer = new_from (replicate 16 0x5A) (replicate 16 0) (replicate 16 0)"

lemma test_peer_simps:
  "length (key test_peer) = KEY_SIZE" "encrypt_nonce test_peer = 0" "decrypt_nonce test_peer = 0"
  "decrypt_history test_peer = replicate 256 0" "good test_peer = 0" "late test_peer = 0" "lost test_peer = 0"
  by (simp_all add: test_peer_def new_from_def KEY_SIZE_def from_le_bytes_def from_be_bytes_zeros)

theorem crypt_delivery_witness:
  "\<exists>server' client'. transmit xor_crypto Clientbound test_peer test_peer
      [([], VoicePacket.Ping 1), ([VoicePacket.Ping 2, VoicePacket.Ping 3], Audio 13 42 9 (Opus [1, 2] True) None)]
      = Return ([Inr (Inr (VoicePacket.Ping 1)), Inr (Inr (Audio 13 42 9 (Opus [1, 2] True) None))],
          server', client') \<and>
    get_good client' = 2 \<and> get_lost client' = 2"
  using crypt_delivery [OF xor_crypto_ok, of test_peer test_peer
      "[([], VoicePacket.Ping 1), ([VoicePacket.Ping 2, VoicePacket.Ping 3], Audio 13 42 9 (Opus [1, 2] True) None)]"]
  by (auto simp: test_peer_simps bit_iff_odd get_good_def get_lost_def)

text \<open>
  C7. Replay protection: in a run of any datagrams, forged ones included, from any state, no nonce is
  accepted twice, as long as no datagram is answered \<open>Late\<close> (and the nonce does not wrap around
  within the run). Every datagram that decrypts is one of these acceptances.
\<close>

theorem crypt_no_replay:
  assumes "length (decrypt_history self) = 0x100" and "length bufs < 2 ^ 120"
    and "decrypt_all cr vd self bufs = Return (rs, self')" and "Inl Late \<notin> set rs"
  shows "distinct (accepted_nonces cr vd self bufs) \<and>
    length (accepted_nonces cr vd self bufs) = length (filter (\<lambda>r. \<not> isl r) rs)"
proof -
  define N where "N = uint (decrypt_nonce self)"
  have "remembers self N {}" using assms(1) by (simp add: remembers_def N_def)
  then obtain as where as: "accepted_nonces cr vd self bufs = map word_of_int as" "distinct as"
    "set as \<subseteq> {N - 30 <.. N + 127 * int (length bufs)}" "length as = length (filter (\<lambda>r. \<not> isl r) rs)"
    using remembers_run assms(3,4) by blast
  have "127 * int (length bufs) + 30 \<le> 2 ^ 128" using assms(2) by simp
  then have "set as \<subseteq> {N - 30 <.. N - 30 + 2 ^ 128}" using as(3) by fastforce
  then have "inj_on (word_of_int :: int \<Rightarrow> u128) (set as)" by (rule word_of_int_inj_on)
  then show ?thesis using as by (simp add: distinct_map)
qed

definition test_packet :: "u32 VoicePacket" where
  "test_packet = Audio 13 42 9 (Opus [1, 2] True) None"

definition test_datagram :: bytes where
  "test_datagram = (case encrypt xor_crypto Clientbound test_peer test_packet [] of Return (s, d) \<Rightarrow> d)"

lemma wf_test_packet: "wf_voice test_packet"
  by (simp add: test_packet_def bit_iff_odd)

lemma test_datagram_eq: "test_datagram = datagram xor_crypto (key test_peer) 1 (cb.voice_bytes test_packet)"
  by (simp add: test_datagram_def cb.encrypt_eq test_peer_simps)

lemma test_datagram_accepted:
  "accepted_nonce xor_crypto test_peer test_datagram = Some 1"
  "nonce_distance (decrypt_nonce test_peer) (test_datagram ! 0) = 1"
  unfolding test_datagram_eq
  by (rule datagram_accepted [OF xor_crypto_ok, where k = 1]; simp add: test_peer_simps)+

lemma test_datagram_decrypts:
  "\<exists>rest. decrypt xor_crypto Clientbound test_peer test_datagram
    = Return (Inr (Inr test_packet), accept_state test_peer 1, rest)"
  unfolding test_datagram_eq
  by (rule cb.decrypt_datagram [OF xor_crypto_ok]) (simp_all add: test_peer_simps wf_test_packet)

lemma test_replay_run:
  "\<exists>self'. decrypt_all xor_crypto Clientbound test_peer [test_datagram, test_datagram]
    = Return ([Inr (Inr test_packet), Inl Repeat], self')"
  using test_datagram_decrypts
    decrypt_replay [OF test_datagram_accepted(1) _ test_datagram_accepted(2) [symmetric], of Clientbound]
  by (auto simp: test_peer_simps)

theorem crypt_no_replay_witness:
  "distinct (accepted_nonces xor_crypto Clientbound test_peer [test_datagram, test_datagram]) \<and>
   length (accepted_nonces xor_crypto Clientbound test_peer [test_datagram, test_datagram]) = 1"
  using test_replay_run
    crypt_no_replay [of test_peer "[test_datagram, test_datagram]" xor_crypto Clientbound
      "[Inr (Inr test_packet), Inl Repeat]"]
  by (auto simp: test_peer_simps simp del: decrypt_all.simps accepted_nonces.simps)

text \<open>
  A datagram presented again right after it was accepted, early or late, is refused with
  \<open>Repeat\<close> and leaves the state as it was.
\<close>

theorem crypt_repeat_refused:
  assumes "length (decrypt_history self) = 0x100"
    and "decrypt cr vd self buf = Return (Inr r, self', rest)"
  shows "decrypt cr vd self' buf = Return (Inl Repeat, self', drop 4 buf)"
proof (cases "accepted_nonce cr self buf")
  case None
  then show ?thesis using decrypt_rejected [OF None, of vd] assms(2) by auto
next
  case (Some n)
  then show ?thesis
    using decrypt_accepted [OF Some, of vd] decrypt_replay [OF Some assms(1) refl, of vd] assms(2) by auto
qed

theorem crypt_repeat_refused_witness:
  "\<exists>self' rest. decrypt xor_crypto Clientbound test_peer test_datagram = Return (Inr (Inr test_packet), self', rest) \<and>
    decrypt xor_crypto Clientbound self' test_datagram = Return (Inl Repeat, self', drop 4 test_datagram)"
  using test_datagram_decrypts crypt_repeat_refused [of test_peer xor_crypto Clientbound test_datagram]
  by (fastforce simp: test_peer_simps)

text \<open>
  C33. \<open>decrypt\<close> never panics. On \<open>Eof\<close>, \<open>Repeat\<close> and \<open>Mac\<close> the state is unchanged,
  on \<open>Late\<close> only the decrypt nonce may differ. On success \<open>good\<close> grows by one, the key and the
  encrypt nonce are untouched, and the decrypt nonce moves forward by at most 127 or, for a late
  packet, not at all.
\<close>

theorem crypt_decrypt_effects:
  "\<exists>r self' rest. decrypt cr vd self buf = Return (r, self', rest) \<and>
    (case r of
       Inl Late \<Rightarrow> \<exists>n. self' = self\<lparr>decrypt_nonce := n\<rparr>
     | Inl e \<Rightarrow> self' = self
     | Inr p \<Rightarrow> good self' = good self + 1 \<and> key self' = key self \<and> encrypt_nonce self' = encrypt_nonce self \<and>
         length (decrypt_history self') = length (decrypt_history self) \<and>
         (if late self' = late self
          then \<exists>k. 0 < k \<and> k \<le> 127 \<and> decrypt_nonce self' = decrypt_nonce self + word_of_int k \<and>
                 lost self' = lost self + word_of_int (k - 1)
          else late self' = late self + 1 \<and> decrypt_nonce self' = decrypt_nonce self \<and> lost self' = lost self - 1))"
proof (cases "accepted_nonce cr self buf")
  case None
  then show ?thesis
    using decrypt_rejected [OF None, of vd] by (fastforce split: DecryptError.split if_splits)
next
  case (Some n)
  then obtain k where k: "k = nonce_distance (decrypt_nonce self) (buf ! 0)" "- 30 < k" "k \<le> 127"
    by (rule accepted_nonce_SomeD) blast
  obtain r rest where "decrypt cr vd self buf = Return (Inr r, accept_state self k, rest)"
    using decrypt_accepted [OF Some, of vd] k(1) by blast
  then show ?thesis
    using k(3) by (cases "0 < k") (auto simp: accept_state_def Let_def)
qed

text \<open>
  A packet overtaken by up to 29 later ones is still accepted, provided the history does not hold
  its high byte: it decrypts to the packet sent, moves from \<open>lost\<close> to \<open>late\<close>, and leaves the
  decrypt nonce where the later packets put it.
\<close>

theorem crypt_late_packet_accepted:
  assumes "aes_ok cr" and "length (key client) = KEY_SIZE" and "key server = key client" and "wf_voice packet"
    and "encrypt_nonce server + 1 = decrypt_nonce client - word_of_nat by" and "by < 30"
    and "decrypt_history client ! unat (ucast (encrypt_nonce server + 1) :: u8)
      \<noteq> ucast (drop_bit 8 (encrypt_nonce server + 1))"
  shows "\<exists>server' d client' rest. encrypt cr Clientbound server packet [] = Return (server', d) \<and>
    decrypt cr Clientbound client d = Return (Inr (Inr packet), client', rest) \<and>
    decrypt_nonce client' = decrypt_nonce client \<and> good client' = good client + 1 \<and>
    late client' = late client + 1 \<and> lost client' = lost client - 1"
proof -
  have "\<exists>rest. decrypt cr Clientbound client
      (datagram cr (key client) (encrypt_nonce server + 1) (cb.voice_bytes packet))
    = Return (Inr (Inr packet), accept_state client (- int by), rest)"
    using assms by (intro cb.decrypt_datagram) auto
  then show ?thesis
    using assms(3) by (auto simp: cb.encrypt_eq accept_state_def Let_def)
qed

theorem crypt_late_packet_accepted_witness:
  "\<exists>server' d client' rest.
    encrypt xor_crypto Clientbound (test_peer\<lparr>encrypt_nonce := 256\<rparr>) test_packet [] = Return (server', d) \<and>
    decrypt xor_crypto Clientbound (test_peer\<lparr>decrypt_nonce := 260\<rparr>) d = Return (Inr (Inr test_packet), client', rest) \<and>
    decrypt_nonce client' = 260 \<and> good client' = 1 \<and> late client' = 1 \<and> lost client' = - 1"
  using crypt_late_packet_accepted [OF xor_crypto_ok, of "test_peer\<lparr>decrypt_nonce := 260\<rparr>"
      "test_peer\<lparr>encrypt_nonce := 256\<rparr>" test_packet 3]
  by (simp add: test_peer_simps wf_test_packet)

lemma map_sum_Some_eq_iff: "map_sum id Some r = map_sum id Some r' \<longleftrightarrow> r = r'"
  by (cases r; cases r') auto

text \<open>
  C35. A \<open>Late\<close> answer breaks replay protection: the nonce is left rewound. After a packet was
  accepted, one forged header byte with no valid tag, 30 to 127 behind, makes the receiver accept the
  very same datagram a second time, as if it were new.
\<close>

theorem crypt_late_enables_replay:
  assumes "decrypt cr vd self d = Return (Inr r, self1, rest)" and "late self1 = late self"
    and "30 \<le> behind" and "behind \<le> 127"
  defines "forged \<equiv> [d ! 0 - word_of_nat behind, 0, 0, 0]"
  shows "\<exists>self2 self3. decrypt cr vd self1 forged = Return (Inl Late, self2, []) \<and>
    decrypt cr vd self2 d = Return (Inr r, self3, rest) \<and> good self3 = good self1 + 1"
proof -
  have "accepted_nonce cr self d \<noteq> None" using decrypt_rejected [of cr self d vd] assms(1) by auto
  then obtain n where acc: "accepted_nonce cr self d = Some n" by blast
  obtain k where k: "k = nonce_distance (decrypt_nonce self) (d ! 0)" and n: "n = decrypt_nonce self + word_of_int k"
    and low: "ucast n = d ! 0"
    using acc by (rule accepted_nonce_SomeD) blast
  have self1: "self1 = accept_state self k"
    and r: "voice_decode vd (fst (ocb_decrypt cr (key self) n (drop 4 d))) = (map_sum id Some r, rest)"
    using decrypt_accepted [OF acc, of vd] assms(1) k by auto
  have nonce1: "decrypt_nonce self1 = n" and key1: "key self1 = key self"
    using assms(2) n by (auto simp: self1 accept_state_def Let_def split: if_splits)
  define self2 where "self2 = self1\<lparr>decrypt_nonce := n + word_of_int (- int behind)\<rparr>"
  have "d ! 0 - word_of_nat behind = ucast (n + word_of_int (- int behind))"
    unfolding low_byte_add low_byte_of_int low by simp
  then have "nonce_distance n (d ! 0 - word_of_nat behind) = - int behind"
    using assms(4) by (simp only: nonce_distance_add)
  then have late: "decrypt cr vd self1 forged = Return (Inl Late, self2, [])"
    using assms(3) by (simp add: decrypt_def track_nonce_eq forged_def nonce1 self2_def)
  have again: "accepted_nonce cr self2 d = Some n"
    using assms(3,4) by (intro accepted_from_behind [OF acc, of _ "- int behind"]) (auto simp: self2_def key1)
  have "\<exists>self3. decrypt cr vd self2 d = Return (Inr r, self3, rest) \<and> good self3 = good self1 + 1"
    using decrypt_accepted [OF again, of vd] r
    by (auto simp: self2_def key1 accept_state_def Let_def map_sum_Some_eq_iff)
  with late show ?thesis by blast
qed

theorem crypt_late_enables_replay_witness:
  "\<exists>self1 rest self2 self3.
    decrypt xor_crypto Clientbound test_peer test_datagram = Return (Inr (Inr test_packet), self1, rest) \<and>
    decrypt xor_crypto Clientbound self1 [test_datagram ! 0 - 100, 0, 0, 0] = Return (Inl Late, self2, []) \<and>
    decrypt xor_crypto Clientbound self2 test_datagram = Return (Inr (Inr test_packet), self3, rest)"
proof -
  obtain rest where d: "decrypt xor_crypto Clientbound test_peer test_datagram
      = Return (Inr (Inr test_packet), accept_state test_peer 1, rest)"
    using test_datagram_decrypts by blast
  then show ?thesis
    using crypt_late_enables_replay [OF d, of 100] by (auto simp: accept_state_def Let_def)
qed

text \<open>
  A fresh history of zeros is a false memory: between two new peers whose nonces start at zero,
  when the second packet overtakes the first, the first is refused as \<open>Repeat\<close> although it was
  never seen.
\<close>

theorem crypt_fresh_history_refuses:
  assumes "aes_ok cr" and "length k = KEY_SIZE" and "wf_voice p2"
  defines "peer \<equiv> new_from k (replicate BLOCK_SIZE 0) (replicate BLOCK_SIZE 0)"
  shows "\<exists>server d1 d2 client. encrypt_all cr Clientbound peer [p1, p2] = Return (server, [d1, d2]) \<and>
    decrypt_all cr Clientbound peer [d2, d1] = Return ([Inr (Inr p2), Inl Repeat], client)"
proof -
  have peer: "key peer = k" "encrypt_nonce peer = 0" "decrypt_nonce peer = 0" "decrypt_history peer = replicate 256 0"
    by (simp_all add: peer_def new_from_def from_le_bytes_def from_be_bytes_zeros)
  obtain rest where d2: "decrypt cr Clientbound peer (datagram cr k 2 (cb.voice_bytes p2))
      = Return (Inr (Inr p2), accept_state peer 2, rest)"
    using cb.decrypt_datagram [OF assms(1) _ assms(3), of peer 2 2] assms(2) by (auto simp: peer)
  have "nonce_distance 2 1 = - 1" using nonce_distance_add [of "-1" 2] by simp
  then have "track_nonce (accept_state peer 2) 1 = (Inl Repeat, 2)"
    by (simp add: track_nonce_eq accept_state_def Let_def peer nth_list_update)
  then have "\<exists>s rest. decrypt cr Clientbound (accept_state peer 2) (datagram cr k 1 (cb.voice_bytes p1))
      = Return (Inl Repeat, s, rest)"
    by (simp add: decrypt_def datagram_simps)
  with d2 show ?thesis by (auto simp: cb.encrypt_eq peer)
qed

theorem crypt_fresh_history_refuses_witness:
  "\<exists>server d1 d2 client. encrypt_all xor_crypto Clientbound test_peer [test_packet, test_packet] = Return (server, [d1, d2]) \<and>
    decrypt_all xor_crypto Clientbound test_peer [d2, d1] = Return ([Inr (Inr test_packet), Inl Repeat], client)"
  using crypt_fresh_history_refuses [OF xor_crypto_ok, of "replicate 16 0x5A" test_packet test_packet] wf_test_packet
  by (simp add: KEY_SIZE_def BLOCK_SIZE_def test_peer_def)

text \<open>
  C34. Resynchronisation: a receiver whose decrypt nonce is set to the sender's encrypt nonce, as the
  sender reports it, decodes the next packet, whatever its nonce and history were before.
\<close>

theorem crypt_resync:
  assumes "aes_ok cr" and "length (key client) = KEY_SIZE" and "key server = key client" and "wf_voice packet"
  shows "\<exists>server' d client' rest. crypt_encode cr Clientbound server packet dst = Return (server', d) \<and>
    crypt_decode cr Clientbound (set_decrypt_nonce client (get_encrypt_nonce server)) d
      = Return (Inr (Some packet), client', rest) \<and>
    get_decrypt_nonce client' = get_encrypt_nonce server'"
proof -
  define client0 where "client0 = set_decrypt_nonce client (get_encrypt_nonce server)"
  have c0: "decrypt_nonce client0 = encrypt_nonce server" "key client0 = key server"
    using assms(3) by (simp_all add: client0_def set_decrypt_nonce_def get_encrypt_nonce_def BLOCK_SIZE_def
        del: be_bytes_numeral)
  obtain rest where "decrypt cr Clientbound client0
      (datagram cr (key server) (encrypt_nonce server + 1) (cb.voice_bytes packet))
      = Return (Inr (Inr packet), accept_state client0 1, rest)"
    using cb.decrypt_datagram [OF assms(1) _ assms(4), of client0 _ 1] assms(2,3) c0 by auto
  then show ?thesis
    using c0 unfolding client0_def [symmetric]
    by (simp add: crypt_encode_def crypt_decode_def cb.encrypt_eq get_decrypt_nonce_def
        get_encrypt_nonce_def accept_state_def Let_def)
qed

theorem crypt_resync_witness:
  "\<exists>server' d client' rest.
    crypt_encode xor_crypto Clientbound (test_peer\<lparr>encrypt_nonce := 77777\<rparr>) test_packet [] = Return (server', d) \<and>
    crypt_decode xor_crypto Clientbound
        (set_decrypt_nonce test_peer (get_encrypt_nonce (test_peer\<lparr>encrypt_nonce := 77777\<rparr>))) d
      = Return (Inr (Some test_packet), client', rest)"
  using crypt_resync [OF xor_crypto_ok, of test_peer "test_peer\<lparr>encrypt_nonce := 77777\<rparr>" test_packet "[]"]
  by (auto simp: test_peer_simps wf_test_packet)

text \<open>
  The block under which a nonce enters the cipher depends on the target: on a little-endian one it
  is the nonce as the peers exchange it, on a big-endian one its reverse, so that peers of different
  byte order agree only on nonces which read the same in both directions.
\<close>

theorem nonce_block_by_target:
  "be_bytes BLOCK_SIZE (u128_to_be cr (encrypt_nonce self)) =
    (if target_big_endian cr then rev (get_encrypt_nonce self) else get_encrypt_nonce self)"
  by (simp add: u128_to_be_def get_encrypt_nonce_def le_bytes_def BLOCK_SIZE_def
      be_bytes_from_be_bytes del: be_bytes_numeral)

end
