(* ===== verification/Crypt_Tests.thy ===== *)
theory Crypt_Tests
  imports Aes Crypt
begin

text \<open>
  The tests of \<open>mumble-protocol/src/crypt.rs\<close> (its module \<open>test\<close>), run in the logic: their helpers and their bodies are
  translated as they stand, an \<open>assert_eq!\<close> as a conjunct and an \<open>unwrap\<close> as a panic, and the theorems say that they pass with
  the real cipher. The published vectors of OCB so confirm the model of \<open>ocb_encrypt\<close> and \<open>ocb_decrypt\<close>.
\<close>

section \<open>The code\<close>

text \<open>\<open>from_str_radix(src, 16)\<close>, with \<open>char::to_digit\<close>.\<close>

definition to_hex_digit :: "char \<Rightarrow> nat option" where
  "to_hex_digit c =
    (let n = of_char c
     in if 48 \<le> n \<and> n \<le> 57 then Some (n - 48)
        else if 65 \<le> n \<and> n \<le> 70 then Some (n - 55)
        else if 97 \<le> n \<and> n \<le> 102 then Some (n - 87)
        else None)"

fun hex_digits :: "'a::len word \<Rightarrow> string \<Rightarrow> 'a word option" where
  "hex_digits result [] = Some result"
| "hex_digits result (c # cs) =
    (case to_hex_digit c of
       None \<Rightarrow> None
     | Some x \<Rightarrow> if unat result * 16 + x < 2 ^ LENGTH('a) then hex_digits (result * 16 + of_nat x) cs else None)"

definition from_str_radix_16 :: "string \<Rightarrow> 'a::len word outcome" where
  "from_str_radix_16 src =
    (if src = [] then Panic ''unwrap'' else expect_option (hex_digits 0 src) ''unwrap'')"

definition u128hex :: "string \<Rightarrow> u128 outcome" where
  "u128hex src = from_str_radix_16 src"

fun hex_to_bytes :: "string \<Rightarrow> bytes outcome" where
  "hex_to_bytes (a # b # cs) =
    bind_outcome (from_str_radix_16 [a, b]) (\<lambda>x. bind_outcome (hex_to_bytes cs) (\<lambda>dst. Return (x # dst)))"
| "hex_to_bytes [a] = Panic ''byte index 2 is out of bounds''"
| "hex_to_bytes [] = Return []"

definition bytes_from_hex :: "string \<Rightarrow> bytes outcome" where
  "bytes_from_hex src = hex_to_bytes src"

definition aes_test_vectors :: "crypto \<Rightarrow> bool outcome" where
  "aes_test_vectors cr =
    bind_outcome (u128hex ''E8E9EAEBEDEEEFF0F2F3F4F5F7F8F9FA'') (\<lambda>k.
    let state = new_from (be_bytes 16 k) (replicate 16 0) (replicate 16 0) in
    bind_outcome (u128hex ''6743C3D1519AB4F2CD9A78AB09A511BD'') (\<lambda>c.
    bind_outcome (u128hex ''014BAF2278A69D331D5180103643E99A'') (\<lambda>p.
    Return (c = aes_encrypt cr (key state) p \<and> p = aes_decrypt cr (key state) c))))"

text \<open>One case of the macro \<open>test_cases!\<close>: name, plain text, cipher text, tag.\<close>

definition ocb_test_case :: "crypto \<Rightarrow> string \<times> string \<times> string \<times> string \<Rightarrow> bool outcome" where
  "ocb_test_case cr = (\<lambda>(name, plain, cipher, tag).
    bind_outcome (u128hex ''000102030405060708090a0b0c0d0e0f'') (\<lambda>k.
    bind_outcome (u128hex ''000102030405060708090a0b0c0d0e0f'') (\<lambda>nonce.
    let state = new_from (be_bytes 16 k) (be_bytes 16 nonce) (be_bytes 16 nonce) in
    bind_outcome (bytes_from_hex plain) (\<lambda>m.
    bind_outcome (bytes_from_hex cipher) (\<lambda>c.
    bind_outcome (u128hex tag) (\<lambda>t.
    Return (ocb_encrypt cr (key state) (encrypt_nonce state) m = (c, t) \<and>
      ocb_decrypt cr (key state) (decrypt_nonce state) c = (m, t))))))))"

definition ocb_test_vectors :: "(string \<times> string \<times> string \<times> string) list" where
  "ocb_test_vectors = [
    (''OCB-AES-128-0B'',
     '''',
     '''',
     ''BF3108130773AD5EC70EC69E7875A7B0''),
    (''OCB-AES-128-8B'',
     ''0001020304050607'',
     ''C636B3A868F429BB'',
     ''A45F5FDEA5C088D1D7C8BE37CABC8C5C''),
    (''OCB-AES-128-16B'',
     ''000102030405060708090A0B0C0D0E0F'',
     ''52E48F5D19FE2D9869F0C4A4B3D2BE57'',
     ''F7EE49AE7AA5B5E6645DB6B3966136F9''),
    (''OCB-AES-128-24B'',
     ''000102030405060708090A0B0C0D0E0F1011121314151617'',
     ''F75D6BC8B4DC8D66B836A2B08B32A636CC579E145D323BEB'',
     ''A1A50F822819D6E0A216784AC24AC84C''),
    (''OCB-AES-128-32B'',
     ''000102030405060708090A0B0C0D0E0F101112131415161718191A1B1C1D1E1F'',
     ''F75D6BC8B4DC8D66B836A2B08B32A636CEC3C555037571709DA25E1BB0421A27'',
     ''09CA6C73F0B5C6C5FD587122D75F2AA3''),
    (''OCB-AES-128-40B'',
     ''000102030405060708090A0B0C0D0E0F101112131415161718191A1B1C1D1E1F2021222324252627'',
     ''F75D6BC8B4DC8D66B836A2B08B32A6369F1CD3C5228D79FD6C267F5F6AA7B231C7DFB9D59951AE9C'',
     ''9DB0CDF880F73E3E10D4EB3217766688'')]"

text \<open>The test of encryption against decryption, between two fresh states.\<close>

definition encrypt_and_decrypt_are_inverse :: "crypto \<Rightarrow> bool outcome" where
  "encrypt_and_decrypt_are_inverse cr =
    (let server_state = new_from (replicate 16 0) (replicate 16 0) (replicate 16 0);
         client_state = new_from (replicate 16 0) (replicate 16 0) (replicate 16 0);
         packet = Audio 13 42 123567 (Opus [0x74, 0x65, 0x73, 0x74] True) None
     in bind_outcome (encrypt cr Clientbound server_state packet []) (\<lambda>(server_state, buf).
        bind_outcome (decrypt cr Clientbound client_state buf) (\<lambda>(result, client_state, buf).
        bind_outcome (expect_result result ''Failed to decrypt'') (\<lambda>result.
        bind_outcome (expect_result result ''Failed to decode'') (\<lambda>result.
        Return (packet = result))))))"

section \<open>Evaluation\<close>

text \<open>The keys of the tests and their round keys.\<close>

definition ocb_key :: bytes where
  "ocb_key = [0x00, 0x01, 0x02, 0x03, 0x04, 0x05, 0x06, 0x07, 0x08, 0x09, 0x0A, 0x0B, 0x0C, 0x0D, 0x0E, 0x0F]"

definition aes_key :: bytes where
  "aes_key = [0xE8, 0xE9, 0xEA, 0xEB, 0xED, 0xEE, 0xEF, 0xF0, 0xF2, 0xF3, 0xF4, 0xF5, 0xF7, 0xF8, 0xF9, 0xFA]"

lemmas key_eval = KeyExpansion_def next_round_key_def look_up_def S_box_rows

lemma ocb_round_keys: "KeyExpansion ocb_key = [
    [0xD6, 0xAA, 0x74, 0xFD, 0xD2, 0xAF, 0x72, 0xFA, 0xDA, 0xA6, 0x78, 0xF1, 0xD6, 0xAB, 0x76, 0xFE],
    [0xB6, 0x92, 0xCF, 0x0B, 0x64, 0x3D, 0xBD, 0xF1, 0xBE, 0x9B, 0xC5, 0x00, 0x68, 0x30, 0xB3, 0xFE],
    [0xB6, 0xFF, 0x74, 0x4E, 0xD2, 0xC2, 0xC9, 0xBF, 0x6C, 0x59, 0x0C, 0xBF, 0x04, 0x69, 0xBF, 0x41],
    [0x47, 0xF7, 0xF7, 0xBC, 0x95, 0x35, 0x3E, 0x03, 0xF9, 0x6C, 0x32, 0xBC, 0xFD, 0x05, 0x8D, 0xFD],
    [0x3C, 0xAA, 0xA3, 0xE8, 0xA9, 0x9F, 0x9D, 0xEB, 0x50, 0xF3, 0xAF, 0x57, 0xAD, 0xF6, 0x22, 0xAA],
    [0x5E, 0x39, 0x0F, 0x7D, 0xF7, 0xA6, 0x92, 0x96, 0xA7, 0x55, 0x3D, 0xC1, 0x0A, 0xA3, 0x1F, 0x6B],
    [0x14, 0xF9, 0x70, 0x1A, 0xE3, 0x5F, 0xE2, 0x8C, 0x44, 0x0A, 0xDF, 0x4D, 0x4E, 0xA9, 0xC0, 0x26],
    [0x47, 0x43, 0x87, 0x35, 0xA4, 0x1C, 0x65, 0xB9, 0xE0, 0x16, 0xBA, 0xF4, 0xAE, 0xBF, 0x7A, 0xD2],
    [0x54, 0x99, 0x32, 0xD1, 0xF0, 0x85, 0x57, 0x68, 0x10, 0x93, 0xED, 0x9C, 0xBE, 0x2C, 0x97, 0x4E],
    [0x13, 0x11, 0x1D, 0x7F, 0xE3, 0x94, 0x4A, 0x17, 0xF3, 0x07, 0xA7, 0x8B, 0x4D, 0x2B, 0x30, 0xC5]]"
  by (simp add: key_eval ocb_key_def)

lemma aes_round_keys: "KeyExpansion aes_key = [
    [0xA8, 0x70, 0xC7, 0x83, 0x45, 0x9E, 0x28, 0x73, 0xB7, 0x6D, 0xDC, 0x86, 0x40, 0x95, 0x25, 0x7C],
    [0x80, 0x4F, 0xD7, 0x8A, 0xC5, 0xD1, 0xFF, 0xF9, 0x72, 0xBC, 0x23, 0x7F, 0x32, 0x29, 0x06, 0x03],
    [0x21, 0x20, 0xAC, 0xA9, 0xE4, 0xF1, 0x53, 0x50, 0x96, 0x4D, 0x70, 0x2F, 0xA4, 0x64, 0x76, 0x2C],
    [0x6A, 0x18, 0xDD, 0xE0, 0x8E, 0xE9, 0x8E, 0xB0, 0x18, 0xA4, 0xFE, 0x9F, 0xBC, 0xC0, 0x88, 0xB3],
    [0xC0, 0xDC, 0xB0, 0x85, 0x4E, 0x35, 0x3E, 0x35, 0x56, 0x91, 0xC0, 0xAA, 0xEA, 0x51, 0x48, 0x19],
    [0x31, 0x8E, 0x64, 0x02, 0x7F, 0xBB, 0x5A, 0x37, 0x29, 0x2A, 0x9A, 0x9D, 0xC3, 0x7B, 0xD2, 0x84],
    [0x50, 0x3B, 0x3B, 0x2C, 0x2F, 0x80, 0x61, 0x1B, 0x06, 0xAA, 0xFB, 0x86, 0xC5, 0xD1, 0x29, 0x02],
    [0xEE, 0x9E, 0x4C, 0x8A, 0xC1, 0x1E, 0x2D, 0x91, 0xC7, 0xB4, 0xD6, 0x17, 0x02, 0x65, 0xFF, 0x15],
    [0xB8, 0x88, 0x15, 0xFD, 0x79, 0x96, 0x38, 0x6C, 0xBE, 0x22, 0xEE, 0x7B, 0xBC, 0x47, 0x11, 0x6E],
    [0x2E, 0x0A, 0x8A, 0x98, 0x57, 0x9C, 0xB2, 0xF4, 0xE9, 0xBE, 0x5C, 0x8F, 0x55, 0xF9, 0x4D, 0xE1]]"
  by (simp add: key_eval aes_key_def)

text \<open>The calls of the cipher in the tests.\<close>

lemma aes_call: "aes_encrypt aes128 aes_key 0x14BAF2278A69D331D5180103643E99A = 0x6743C3D1519AB4F2CD9A78AB09A511BD"
proof (rule aes_encrypt_eval)
  show "Cipher aes_key
      [0x01, 0x4B, 0xAF, 0x22, 0x78, 0xA6, 0x9D, 0x33, 0x1D, 0x51, 0x80, 0x10, 0x36, 0x43, 0xE9, 0x9A]
    = [0x67, 0x43, 0xC3, 0xD1, 0x51, 0x9A, 0xB4, 0xF2, 0xCD, 0x9A, 0x78, 0xAB, 0x09, 0xA5, 0x11, 0xBD]"
    unfolding Cipher_def aes_round_keys unfolding aes_key_def by (simp add: aes_eval)
qed (simp_all add: from_be_bytes_def)

lemma ocb_call0: "aes_encrypt aes128 ocb_key 0x102030405060708090A0B0C0D0E0F = 0xA940BB5416EF045F1C39458C653EA5A"
proof (rule aes_encrypt_eval)
  show "Cipher ocb_key
      [0x00, 0x01, 0x02, 0x03, 0x04, 0x05, 0x06, 0x07, 0x08, 0x09, 0x0A, 0x0B, 0x0C, 0x0D, 0x0E, 0x0F]
    = [0x0A, 0x94, 0x0B, 0xB5, 0x41, 0x6E, 0xF0, 0x45, 0xF1, 0xC3, 0x94, 0x58, 0xC6, 0x53, 0xEA, 0x5A]"
    unfolding Cipher_def ocb_round_keys unfolding ocb_key_def by (simp add: aes_eval)
qed (simp_all add: from_be_bytes_def)

lemma ocb_call1: "aes_encrypt aes128 ocb_key 0x1528176A82DDE08BE38728B18CA7D4B4 = 0x1C8573E24332F195D62A22677C14E0CB"
proof (rule aes_encrypt_eval)
  show "Cipher ocb_key
      [0x15, 0x28, 0x17, 0x6A, 0x82, 0xDD, 0xE0, 0x8B, 0xE3, 0x87, 0x28, 0xB1, 0x8C, 0xA7, 0xD4, 0xB4]
    = [0x1C, 0x85, 0x73, 0xE2, 0x43, 0x32, 0xF1, 0x95, 0xD6, 0x2A, 0x22, 0x67, 0x7C, 0x14, 0xE0, 0xCB]"
    unfolding Cipher_def ocb_round_keys unfolding ocb_key_def by (simp add: aes_eval)
qed (simp_all add: from_be_bytes_def)

lemma ocb_call2: "aes_encrypt aes128 ocb_key 0x23FD4A5DC454D009F2A35BB5E9FC9D17 = 0xBF3108130773AD5EC70EC69E7875A7B0"
proof (rule aes_encrypt_eval)
  show "Cipher ocb_key
      [0x23, 0xFD, 0x4A, 0x5D, 0xC4, 0x54, 0xD0, 0x09, 0xF2, 0xA3, 0x5B, 0xB5, 0xE9, 0xFC, 0x9D, 0x17]
    = [0xBF, 0x31, 0x08, 0x13, 0x07, 0x73, 0xAD, 0x5E, 0xC7, 0x0E, 0xC6, 0x9E, 0x78, 0x75, 0xA7, 0xB0]"
    unfolding Cipher_def ocb_round_keys unfolding ocb_key_def by (simp add: aes_eval)
qed (simp_all add: from_be_bytes_def)

lemma ocb_call3: "aes_encrypt aes128 ocb_key 0x1528176A82DDE08BE38728B18CA7D4F4 = 0xC637B1AB6CF12FBCC3857A1213C85C20"
proof (rule aes_encrypt_eval)
  show "Cipher ocb_key
      [0x15, 0x28, 0x17, 0x6A, 0x82, 0xDD, 0xE0, 0x8B, 0xE3, 0x87, 0x28, 0xB1, 0x8C, 0xA7, 0xD4, 0xF4]
    = [0xC6, 0x37, 0xB1, 0xAB, 0x6C, 0xF1, 0x2F, 0xBC, 0xC3, 0x85, 0x7A, 0x12, 0x13, 0xC8, 0x5C, 0x20]"
    unfolding Cipher_def ocb_round_keys unfolding ocb_key_def by (simp add: aes_eval)
qed (simp_all add: from_be_bytes_def)

lemma ocb_call4: "aes_encrypt aes128 ocb_key 0x3F793BBC8363279BE70C03C0862021FC = 0xA45F5FDEA5C088D1D7C8BE37CABC8C5C"
proof (rule aes_encrypt_eval)
  show "Cipher ocb_key
      [0x3F, 0x79, 0x3B, 0xBC, 0x83, 0x63, 0x27, 0x9B, 0xE7, 0x0C, 0x03, 0xC0, 0x86, 0x20, 0x21, 0xFC]
    = [0xA4, 0x5F, 0x5F, 0xDE, 0xA5, 0xC0, 0x88, 0xD1, 0xD7, 0xC8, 0xBE, 0x37, 0xCA, 0xBC, 0x8C, 0x5C]"
    unfolding Cipher_def ocb_round_keys unfolding ocb_key_def by (simp add: aes_eval)
qed (simp_all add: from_be_bytes_def)

lemma ocb_call5: "aes_encrypt aes128 ocb_key 0x1528176A82DDE08BE38728B18CA7D434 = 0x52E58D5E1DFB2B9F61F9CEAFBFDFB058"
proof (rule aes_encrypt_eval)
  show "Cipher ocb_key
      [0x15, 0x28, 0x17, 0x6A, 0x82, 0xDD, 0xE0, 0x8B, 0xE3, 0x87, 0x28, 0xB1, 0x8C, 0xA7, 0xD4, 0x34]
    = [0x52, 0xE5, 0x8D, 0x5E, 0x1D, 0xFB, 0x2B, 0x9F, 0x61, 0xF9, 0xCE, 0xAF, 0xBF, 0xDF, 0xB0, 0x58]"
    unfolding Cipher_def ocb_round_keys unfolding ocb_key_def by (simp add: aes_eval)
qed (simp_all add: from_be_bytes_def)

lemma ocb_call6: "aes_encrypt aes128 ocb_key 0x3F793BBC8363279B2C8073D999E573D3 = 0xF7EE49AE7AA5B5E6645DB6B3966136F9"
proof (rule aes_encrypt_eval)
  show "Cipher ocb_key
      [0x3F, 0x79, 0x3B, 0xBC, 0x83, 0x63, 0x27, 0x9B, 0x2C, 0x80, 0x73, 0xD9, 0x99, 0xE5, 0x73, 0xD3]
    = [0xF7, 0xEE, 0x49, 0xAE, 0x7A, 0xA5, 0xB5, 0xE6, 0x64, 0x5D, 0xB6, 0xB3, 0x96, 0x61, 0x36, 0xF9]"
    unfolding Cipher_def ocb_round_keys unfolding ocb_key_def by (simp add: aes_eval)
qed (simp_all add: from_be_bytes_def)

lemma ocb_call7: "aes_encrypt aes128 ocb_key 0x1529156986D8E68CEB8E22BA80AADABB = 0xE2757CA236016DED5BB18A0107957282"
proof (rule aes_encrypt_eval)
  show "Cipher ocb_key
      [0x15, 0x29, 0x15, 0x69, 0x86, 0xD8, 0xE6, 0x8C, 0xEB, 0x8E, 0x22, 0xBA, 0x80, 0xAA, 0xDA, 0xBB]
    = [0xE2, 0x75, 0x7C, 0xA2, 0x36, 0x01, 0x6D, 0xED, 0x5B, 0xB1, 0x8A, 0x01, 0x07, 0x95, 0x72, 0x82]"
    unfolding Cipher_def ocb_round_keys unfolding ocb_key_def by (simp add: aes_eval)
qed (simp_all add: from_be_bytes_def)

lemma ocb_call8: "aes_encrypt aes128 ocb_key 0x2A502ED505BBC117C70E5163194FA928 = 0xDC468C0749272DFC8192226730F42418"
proof (rule aes_encrypt_eval)
  show "Cipher ocb_key
      [0x2A, 0x50, 0x2E, 0xD5, 0x05, 0xBB, 0xC1, 0x17, 0xC7, 0x0E, 0x51, 0x63, 0x19, 0x4F, 0xA9, 0x28]
    = [0xDC, 0x46, 0x8C, 0x07, 0x49, 0x27, 0x2D, 0xFC, 0x81, 0x92, 0x22, 0x67, 0x30, 0xF4, 0x24, 0x18]"
    unfolding Cipher_def ocb_round_keys unfolding ocb_key_def by (simp add: aes_eval)
qed (simp_all add: from_be_bytes_def)

lemma ocb_call9: "aes_encrypt aes128 ocb_key 0x6EE0636F1EDC5328C089DBC91729D1AF = 0xA1A50F822819D6E0A216784AC24AC84C"
proof (rule aes_encrypt_eval)
  show "Cipher ocb_key
      [0x6E, 0xE0, 0x63, 0x6F, 0x1E, 0xDC, 0x53, 0x28, 0xC0, 0x89, 0xDB, 0xC9, 0x17, 0x29, 0xD1, 0xAF]
    = [0xA1, 0xA5, 0x0F, 0x82, 0x28, 0x19, 0xD6, 0xE0, 0xA2, 0x16, 0x78, 0x4A, 0xC2, 0x4A, 0xC8, 0x4C]"
    unfolding Cipher_def ocb_round_keys unfolding ocb_key_def by (simp add: aes_eval)
qed (simp_all add: from_be_bytes_def)

lemma ocb_call10: "aes_encrypt aes128 ocb_key 0x2A502ED505BBC117C70E5163194FA9E8 = 0xDED2D7461760676785BB4400AC5F0438"
proof (rule aes_encrypt_eval)
  show "Cipher ocb_key
      [0x2A, 0x50, 0x2E, 0xD5, 0x05, 0xBB, 0xC1, 0x17, 0xC7, 0x0E, 0x51, 0x63, 0x19, 0x4F, 0xA9, 0xE8]
    = [0xDE, 0xD2, 0xD7, 0x46, 0x17, 0x60, 0x67, 0x67, 0x85, 0xBB, 0x44, 0x00, 0xAC, 0x5F, 0x04, 0x38]"
    unfolding Cipher_def ocb_round_keys unfolding ocb_key_def by (simp add: aes_eval)
qed (simp_all add: from_be_bytes_def)

lemma ocb_call11: "aes_encrypt aes128 ocb_key 0x6EE0636F1EDC53285902E3B53BC0EBA8 = 0x9CA6C73F0B5C6C5FD587122D75F2AA3"
proof (rule aes_encrypt_eval)
  show "Cipher ocb_key
      [0x6E, 0xE0, 0x63, 0x6F, 0x1E, 0xDC, 0x53, 0x28, 0x59, 0x02, 0xE3, 0xB5, 0x3B, 0xC0, 0xEB, 0xA8]
    = [0x09, 0xCA, 0x6C, 0x73, 0xF0, 0xB5, 0xC6, 0xC5, 0xFD, 0x58, 0x71, 0x22, 0xD7, 0x5F, 0x2A, 0xA3]"
    unfolding Cipher_def ocb_round_keys unfolding ocb_key_def by (simp add: aes_eval)
qed (simp_all add: from_be_bytes_def)

lemma ocb_call12: "aes_encrypt aes128 ocb_key 0x3A413CC611AED700DF174B780552B777 = 0xB54CFD102736B8EAAB282E3C73E81B59"
proof (rule aes_encrypt_eval)
  show "Cipher ocb_key
      [0x3A, 0x41, 0x3C, 0xC6, 0x11, 0xAE, 0xD7, 0x00, 0xDF, 0x17, 0x4B, 0x78, 0x05, 0x52, 0xB7, 0x77]
    = [0xB5, 0x4C, 0xFD, 0x10, 0x27, 0x36, 0xB8, 0xEA, 0xAB, 0x28, 0x2E, 0x3C, 0x73, 0xE8, 0x1B, 0x59]"
    unfolding Cipher_def ocb_round_keys unfolding ocb_key_def by (simp add: aes_eval)
qed (simp_all add: from_be_bytes_def)

lemma ocb_call13: "aes_encrypt aes128 ocb_key 0x54A05DAA0B77822F8E1CA2C6329F5290 = 0xE7FE9BF6BD7488BB5857D85F24D417D3"
proof (rule aes_encrypt_eval)
  show "Cipher ocb_key
      [0x54, 0xA0, 0x5D, 0xAA, 0x0B, 0x77, 0x82, 0x2F, 0x8E, 0x1C, 0xA2, 0xC6, 0x32, 0x9F, 0x52, 0x90]
    = [0xE7, 0xFE, 0x9B, 0xF6, 0xBD, 0x74, 0x88, 0xBB, 0x58, 0x57, 0xD8, 0x5F, 0x24, 0xD4, 0x17, 0xD3]"
    unfolding Cipher_def ocb_round_keys unfolding ocb_key_def by (simp add: aes_eval)
qed (simp_all add: from_be_bytes_def)

lemma ocb_call14: "aes_encrypt aes128 ocb_key 0xCDD1D4CD29ADB047DA622F056365F0B3 = 0x9DB0CDF880F73E3E10D4EB3217766688"
proof (rule aes_encrypt_eval)
  show "Cipher ocb_key
      [0xCD, 0xD1, 0xD4, 0xCD, 0x29, 0xAD, 0xB0, 0x47, 0xDA, 0x62, 0x2F, 0x05, 0x63, 0x65, 0xF0, 0xB3]
    = [0x9D, 0xB0, 0xCD, 0xF8, 0x80, 0xF7, 0x3E, 0x3E, 0x10, 0xD4, 0xEB, 0x32, 0x17, 0x76, 0x66, 0x88]"
    unfolding Cipher_def ocb_round_keys unfolding ocb_key_def by (simp add: aes_eval)
qed (simp_all add: from_be_bytes_def)

lemmas ocb_calls = ocb_call0 ocb_call1 ocb_call2 ocb_call3 ocb_call4 ocb_call5 ocb_call6 ocb_call7
  ocb_call8 ocb_call9 ocb_call10 ocb_call11 ocb_call12 ocb_call13 ocb_call14

text \<open>The offsets, and the bytes of the pads and of the encrypted blocks.\<close>

lemma ocb_offsets:
  "s2 0xA940BB5416EF045F1C39458C653EA5A = 0x1528176A82DDE08BE38728B18CA7D4B4"
  "s2 0x1528176A82DDE08BE38728B18CA7D4B4 = 0x2A502ED505BBC117C70E5163194FA968"
  "s2 0x2A502ED505BBC117C70E5163194FA968 = 0x54A05DAA0B77822F8E1CA2C6329F52D0"
  "s2 0x54A05DAA0B77822F8E1CA2C6329F52D0 = 0xA940BB5416EF045F1C39458C653EA5A0"
  by (simp_all add: s2_doubling)

lemma ocb_blocks:
  "be_bytes 16 (0x1C8573E24332F195D62A22677C14E0CB :: u128) =
    [0x1C, 0x85, 0x73, 0xE2, 0x43, 0x32, 0xF1, 0x95, 0xD6, 0x2A, 0x22, 0x67, 0x7C, 0x14, 0xE0, 0xCB]"
  "be_bytes 16 (0 :: u128) = [0, 0, 0, 0, 0, 0, 0, 0, 0, 0, 0, 0, 0, 0, 0, 0]"
  "be_bytes 16 (0xC637B1AB6CF12FBCC3857A1213C85C20 :: u128) =
    [0xC6, 0x37, 0xB1, 0xAB, 0x6C, 0xF1, 0x2F, 0xBC, 0xC3, 0x85, 0x7A, 0x12, 0x13, 0xC8, 0x5C, 0x20]"
  "be_bytes 16 (0xC636B3A868F429BB0000000000000000 :: u128) =
    [0xC6, 0x36, 0xB3, 0xA8, 0x68, 0xF4, 0x29, 0xBB, 0x00, 0x00, 0x00, 0x00, 0x00, 0x00, 0x00, 0x00]"
  "be_bytes 16 (0x52E58D5E1DFB2B9F61F9CEAFBFDFB058 :: u128) =
    [0x52, 0xE5, 0x8D, 0x5E, 0x1D, 0xFB, 0x2B, 0x9F, 0x61, 0xF9, 0xCE, 0xAF, 0xBF, 0xDF, 0xB0, 0x58]"
  "be_bytes 16 (0x52E48F5D19FE2D9869F0C4A4B3D2BE57 :: u128) =
    [0x52, 0xE4, 0x8F, 0x5D, 0x19, 0xFE, 0x2D, 0x98, 0x69, 0xF0, 0xC4, 0xA4, 0xB3, 0xD2, 0xBE, 0x57]"
  "be_bytes 16 (0xF75D6BC8B4DC8D66B836A2B08B32A636 :: u128) =
    [0xF7, 0x5D, 0x6B, 0xC8, 0xB4, 0xDC, 0x8D, 0x66, 0xB8, 0x36, 0xA2, 0xB0, 0x8B, 0x32, 0xA6, 0x36]"
  "be_bytes 16 (0xDC468C0749272DFC8192226730F42418 :: u128) =
    [0xDC, 0x46, 0x8C, 0x07, 0x49, 0x27, 0x2D, 0xFC, 0x81, 0x92, 0x22, 0x67, 0x30, 0xF4, 0x24, 0x18]"
  "be_bytes 16 (0xCC579E145D323BEB0000000000000000 :: u128) =
    [0xCC, 0x57, 0x9E, 0x14, 0x5D, 0x32, 0x3B, 0xEB, 0x00, 0x00, 0x00, 0x00, 0x00, 0x00, 0x00, 0x00]"
  "be_bytes 16 (0xDED2D7461760676785BB4400AC5F0438 :: u128) =
    [0xDE, 0xD2, 0xD7, 0x46, 0x17, 0x60, 0x67, 0x67, 0x85, 0xBB, 0x44, 0x00, 0xAC, 0x5F, 0x04, 0x38]"
  "be_bytes 16 (0xCEC3C555037571709DA25E1BB0421A27 :: u128) =
    [0xCE, 0xC3, 0xC5, 0x55, 0x03, 0x75, 0x71, 0x70, 0x9D, 0xA2, 0x5E, 0x1B, 0xB0, 0x42, 0x1A, 0x27]"
  "be_bytes 16 (0x9F1CD3C5228D79FD6C267F5F6AA7B231 :: u128) =
    [0x9F, 0x1C, 0xD3, 0xC5, 0x22, 0x8D, 0x79, 0xFD, 0x6C, 0x26, 0x7F, 0x5F, 0x6A, 0xA7, 0xB2, 0x31]"
  "be_bytes 16 (0xE7FE9BF6BD7488BB5857D85F24D417D3 :: u128) =
    [0xE7, 0xFE, 0x9B, 0xF6, 0xBD, 0x74, 0x88, 0xBB, 0x58, 0x57, 0xD8, 0x5F, 0x24, 0xD4, 0x17, 0xD3]"
  "be_bytes 16 (0xC7DFB9D59951AE9C0000000000000000 :: u128) =
    [0xC7, 0xDF, 0xB9, 0xD5, 0x99, 0x51, 0xAE, 0x9C, 0x00, 0x00, 0x00, 0x00, 0x00, 0x00, 0x00, 0x00]"
  by (rule be_bytes_eqI; simp add: from_be_bytes_def)+

abbreviation ocb_nonce :: u128 where
  "ocb_nonce \<equiv> from_le_bytes ocb_key"

lemma nonce_block: "u128_to_be aes128 ocb_nonce = 0x000102030405060708090A0B0C0D0E0F"
  by (simp add: u128_to_be_def aes128_def from_le_bytes_def BLOCK_SIZE_def ocb_key_def from_be_bytes_def)

lemmas ocb_eval = ocb_encrypt_def nonce_block ocb_encrypt_blocks.simps BLOCK_SIZE_def from_be_bytes_def
  ocb_calls ocb_offsets ocb_blocks

lemma ocb_vector0:
  "ocb_encrypt aes128 ocb_key ocb_nonce []
    = ([], 0xBF3108130773AD5EC70EC69E7875A7B0)"
  by (simp add: ocb_eval del: be_bytes_numeral)

lemma ocb_vector1:
  "ocb_encrypt aes128 ocb_key ocb_nonce [0x00, 0x01, 0x02, 0x03, 0x04, 0x05, 0x06, 0x07]
    = ([0xC6, 0x36, 0xB3, 0xA8, 0x68, 0xF4, 0x29, 0xBB], 0xA45F5FDEA5C088D1D7C8BE37CABC8C5C)"
  by (simp add: ocb_eval del: be_bytes_numeral)

lemma ocb_vector2:
  "ocb_encrypt aes128 ocb_key ocb_nonce [0x00, 0x01, 0x02, 0x03, 0x04, 0x05, 0x06, 0x07, 0x08, 0x09, 0x0A, 0x0B, 0x0C, 0x0D, 0x0E, 0x0F]
    = ([0x52, 0xE4, 0x8F, 0x5D, 0x19, 0xFE, 0x2D, 0x98, 0x69, 0xF0, 0xC4, 0xA4, 0xB3, 0xD2, 0xBE, 0x57], 0xF7EE49AE7AA5B5E6645DB6B3966136F9)"
  by (simp add: ocb_eval del: be_bytes_numeral)

lemma ocb_vector3:
  "ocb_encrypt aes128 ocb_key ocb_nonce [0x00, 0x01, 0x02, 0x03, 0x04, 0x05, 0x06, 0x07, 0x08, 0x09, 0x0A, 0x0B, 0x0C, 0x0D, 0x0E, 0x0F, 0x10, 0x11, 0x12, 0x13, 0x14, 0x15, 0x16, 0x17]
    = ([0xF7, 0x5D, 0x6B, 0xC8, 0xB4, 0xDC, 0x8D, 0x66, 0xB8, 0x36, 0xA2, 0xB0, 0x8B, 0x32, 0xA6, 0x36, 0xCC, 0x57, 0x9E, 0x14, 0x5D, 0x32, 0x3B, 0xEB], 0xA1A50F822819D6E0A216784AC24AC84C)"
  by (simp add: ocb_eval del: be_bytes_numeral)

lemma ocb_vector4:
  "ocb_encrypt aes128 ocb_key ocb_nonce [0x00, 0x01, 0x02, 0x03, 0x04, 0x05, 0x06, 0x07, 0x08, 0x09, 0x0A, 0x0B, 0x0C, 0x0D, 0x0E, 0x0F, 0x10, 0x11, 0x12, 0x13, 0x14, 0x15, 0x16, 0x17, 0x18, 0x19, 0x1A, 0x1B, 0x1C, 0x1D, 0x1E, 0x1F]
    = ([0xF7, 0x5D, 0x6B, 0xC8, 0xB4, 0xDC, 0x8D, 0x66, 0xB8, 0x36, 0xA2, 0xB0, 0x8B, 0x32, 0xA6, 0x36, 0xCE, 0xC3, 0xC5, 0x55, 0x03, 0x75, 0x71, 0x70, 0x9D, 0xA2, 0x5E, 0x1B, 0xB0, 0x42, 0x1A, 0x27], 0x09CA6C73F0B5C6C5FD587122D75F2AA3)"
  by (simp add: ocb_eval del: be_bytes_numeral)

lemma ocb_vector5:
  "ocb_encrypt aes128 ocb_key ocb_nonce [0x00, 0x01, 0x02, 0x03, 0x04, 0x05, 0x06, 0x07, 0x08, 0x09, 0x0A, 0x0B, 0x0C, 0x0D, 0x0E, 0x0F, 0x10, 0x11, 0x12, 0x13, 0x14, 0x15, 0x16, 0x17, 0x18, 0x19, 0x1A, 0x1B, 0x1C, 0x1D, 0x1E, 0x1F, 0x20, 0x21, 0x22, 0x23, 0x24, 0x25, 0x26, 0x27]
    = ([0xF7, 0x5D, 0x6B, 0xC8, 0xB4, 0xDC, 0x8D, 0x66, 0xB8, 0x36, 0xA2, 0xB0, 0x8B, 0x32, 0xA6, 0x36, 0x9F, 0x1C, 0xD3, 0xC5, 0x22, 0x8D, 0x79, 0xFD, 0x6C, 0x26, 0x7F, 0x5F, 0x6A, 0xA7, 0xB2, 0x31, 0xC7, 0xDF, 0xB9, 0xD5, 0x99, 0x51, 0xAE, 0x9C], 0x9DB0CDF880F73E3E10D4EB3217766688)"
  by (simp add: ocb_eval del: be_bytes_numeral)

lemma ocb_vector_decrypts:
  assumes "ocb_encrypt aes128 ocb_key ocb_nonce m = (c, t)"
  shows "ocb_decrypt aes128 ocb_key ocb_nonce c = (m, t)"
  using assms by (intro ocb_decrypt_encrypt aes128_ok) (simp add: ocb_key_def KEY_SIZE_def)

text \<open>The strings of the tests.\<close>

lemmas hex_eval = u128hex_def bytes_from_hex_def from_str_radix_16_def to_hex_digit_def

lemma hex_keys:
  "u128hex ''E8E9EAEBEDEEEFF0F2F3F4F5F7F8F9FA'' = Return 0xE8E9EAEBEDEEEFF0F2F3F4F5F7F8F9FA"
  "u128hex ''000102030405060708090a0b0c0d0e0f'' = Return 0x000102030405060708090A0B0C0D0E0F"
  by (simp_all add: hex_eval)

lemma test_keys:
  "be_bytes 16 (0xE8E9EAEBEDEEEFF0F2F3F4F5F7F8F9FA :: u128) = aes_key"
  "be_bytes 16 (0x000102030405060708090A0B0C0D0E0F :: u128) = ocb_key"
  by (rule be_bytes_eqI; simp add: from_be_bytes_def aes_key_def ocb_key_def)+

lemma ocb_test_case_passes:
  assumes "bytes_from_hex plain = Return m" and "bytes_from_hex cipher = Return c" and "u128hex tag = Return t"
    and "ocb_encrypt aes128 ocb_key ocb_nonce m = (c, t)"
  shows "ocb_test_case aes128 (name, plain, cipher, tag) = Return True"
  using assms ocb_vector_decrypts [OF assms(4)]
  by (simp add: ocb_test_case_def hex_keys test_keys new_from_def Let_def del: be_bytes_numeral)

lemma ocb_test_vectors_pass: "map (ocb_test_case aes128) ocb_test_vectors = replicate 6 (Return True)"
proof -
  have v0: "ocb_test_case aes128 (name,
      '''',
      '''',
      ''BF3108130773AD5EC70EC69E7875A7B0'') = Return True" for name
    by (rule ocb_test_case_passes [OF _ _ _ ocb_vector0]) (simp_all add: hex_eval)
  have v1: "ocb_test_case aes128 (name,
      ''0001020304050607'',
      ''C636B3A868F429BB'',
      ''A45F5FDEA5C088D1D7C8BE37CABC8C5C'') = Return True" for name
    by (rule ocb_test_case_passes [OF _ _ _ ocb_vector1]) (simp_all add: hex_eval)
  have v2: "ocb_test_case aes128 (name,
      ''000102030405060708090A0B0C0D0E0F'',
      ''52E48F5D19FE2D9869F0C4A4B3D2BE57'',
      ''F7EE49AE7AA5B5E6645DB6B3966136F9'') = Return True" for name
    by (rule ocb_test_case_passes [OF _ _ _ ocb_vector2]) (simp_all add: hex_eval)
  have v3: "ocb_test_case aes128 (name,
      ''000102030405060708090A0B0C0D0E0F1011121314151617'',
      ''F75D6BC8B4DC8D66B836A2B08B32A636CC579E145D323BEB'',
      ''A1A50F822819D6E0A216784AC24AC84C'') = Return True" for name
    by (rule ocb_test_case_passes [OF _ _ _ ocb_vector3]) (simp_all add: hex_eval)
  have v4: "ocb_test_case aes128 (name,
      ''000102030405060708090A0B0C0D0E0F101112131415161718191A1B1C1D1E1F'',
      ''F75D6BC8B4DC8D66B836A2B08B32A636CEC3C555037571709DA25E1BB0421A27'',
      ''09CA6C73F0B5C6C5FD587122D75F2AA3'') = Return True" for name
    by (rule ocb_test_case_passes [OF _ _ _ ocb_vector4]) (simp_all add: hex_eval)
  have v5: "ocb_test_case aes128 (name,
      ''000102030405060708090A0B0C0D0E0F101112131415161718191A1B1C1D1E1F2021222324252627'',
      ''F75D6BC8B4DC8D66B836A2B08B32A6369F1CD3C5228D79FD6C267F5F6AA7B231C7DFB9D59951AE9C'',
      ''9DB0CDF880F73E3E10D4EB3217766688'') = Return True" for name
    by (rule ocb_test_case_passes [OF _ _ _ ocb_vector5]) (simp_all add: hex_eval)
  show ?thesis
    by (simp add: ocb_test_vectors_def v0 v1 v2 v3 v4 v5 numeral_eq_Suc)
qed

lemma aes_key_size: "length aes_key = KEY_SIZE"
  by (simp add: aes_key_def KEY_SIZE_def)

lemma aes_test_vectors_pass: "aes_test_vectors aes128 = Return True"
proof -
  have "aes_decrypt aes128 aes_key 0x6743C3D1519AB4F2CD9A78AB09A511BD = 0x014BAF2278A69D331D5180103643E99A"
    using aes_decrypt_encrypt [OF aes128_ok aes_key_size, of "0x014BAF2278A69D331D5180103643E99A"] by (simp add: aes_call)
  moreover have "u128hex ''6743C3D1519AB4F2CD9A78AB09A511BD'' = Return 0x6743C3D1519AB4F2CD9A78AB09A511BD"
    "u128hex ''014BAF2278A69D331D5180103643E99A'' = Return 0x014BAF2278A69D331D5180103643E99A"
    by (simp_all add: hex_eval)
  ultimately show ?thesis
    by (simp add: aes_test_vectors_def hex_keys test_keys new_from_def Let_def aes_call del: be_bytes_numeral)
qed

lemma inverse_test_passes: "encrypt_and_decrypt_are_inverse aes128 = Return True"
proof -
  let ?state = "new_from (replicate 16 0) (replicate 16 0) (replicate 16 0)"
  let ?packet = "Audio 13 42 123567 (Opus [0x74, 0x65, 0x73, 0x74] True) None"
  have zero: "encrypt_nonce ?state = 0" "decrypt_nonce ?state = 0" "length (key ?state) = KEY_SIZE"
    by (simp_all add: new_from_def from_le_bytes_def from_be_bytes_zeros KEY_SIZE_def)
  then have "\<exists>rest. decrypt aes128 Clientbound ?state (datagram aes128 (key ?state) 1 (cb.voice_bytes ?packet))
      = Return (Inr (Inr ?packet), accept_state ?state 1, rest)"
    by (intro cb.decrypt_datagram [OF aes128_ok]) (simp_all add: bit_iff_odd)
  then show ?thesis
    by (auto simp: encrypt_and_decrypt_are_inverse_def cb.encrypt_eq zero)
qed

section \<open>Properties\<close>

text \<open>
  C8. The tests of the repository pass in the model: with AES-128 for the cipher, \<open>aes_encrypt\<close> and \<open>aes_decrypt\<close> reproduce the
  standard's test vector, \<open>ocb_encrypt\<close> and \<open>ocb_decrypt\<close> the six published vectors of OCB (empty, short, exact and longer
  messages, result and tag), and what a fresh server state encrypts, a fresh client state decrypts.
\<close>

theorem crypt_tests_pass:
  "aes_test_vectors aes128 = Return True \<and>
   map (ocb_test_case aes128) ocb_test_vectors = replicate 6 (Return True) \<and>
   encrypt_and_decrypt_are_inverse aes128 = Return True"
  using aes_test_vectors_pass ocb_test_vectors_pass inverse_test_passes by blast

end
