(* ===== verification/Routing_Table.thy ===== *)
theory Routing_Table
  imports Prelude "HOL-Library.Multiset"
begin

text \<open>
  The routing table of the server, \<open>stammer/src/routing_table.rs\<close>: the authenticated sessions, each
  in one room, and the rooms, each with the set of its members. Both directions are stored, so the
  table has an invariant, \<open>wf_table\<close>; the abstract view of a table is the placement of
  sessions in rooms, \<open>placement\<close>.

  The channel to a session (\<open>USender\<close>) is an opaque handle. The order in which a \<open>HashSet\<close> is
  iterated is not specified: it is an argument \<open>iter\<close>, of which \<open>iter_ok\<close> states that it
  enumerates a set without repetition.

  The locale \<open>session_directory\<close> is what the control and routing tasks rely on.
\<close>

section \<open>The code\<close>

type_synonym SessionID = u32
type_synonym RoomID = u32

record ('m, 'c) Session =
  session_room_id :: RoomID
  session_version :: 'm
  session_sender :: 'c

record Room =
  members :: "SessionID set"

definition Room_default :: Room where
  "Room_default = \<lparr>members = {}\<rparr>"

record ('m, 'c) RoutingTable =
  sessions :: "SessionID \<rightharpoonup> ('m, 'c) Session"
  rooms :: "RoomID \<rightharpoonup> Room"

definition RoutingTable_default :: "('m, 'c) RoutingTable" where
  "RoutingTable_default = \<lparr>sessions = Map.empty, rooms = Map.empty\<rparr>"

text \<open>The one error the table reports, \<open>unknown session {}\<close>.\<close>

datatype table_error = UnknownSession SessionID

definition holds_session :: "('m, 'c) RoutingTable \<Rightarrow> SessionID \<Rightarrow> bool" where
  "holds_session self session_id \<longleftrightarrow> sessions self session_id \<noteq> None"

text \<open>\<open>entry(room_id).or_insert(Room::default())\<close>.\<close>

definition room_entry :: "('m, 'c) RoutingTable \<Rightarrow> RoomID \<Rightarrow> Room" where
  "room_entry self room_id = (case rooms self room_id of Some room \<Rightarrow> room | None \<Rightarrow> Room_default)"

definition enroll_session ::
    "('m, 'c) RoutingTable \<Rightarrow> SessionID \<Rightarrow> 'm \<Rightarrow> 'c \<Rightarrow> ('m, 'c) RoutingTable" where
  "enroll_session self session_id version sender =
    (let room_id = 0;
         self = self\<lparr>sessions := (sessions self)(session_id \<mapsto>
           \<lparr>session_room_id = room_id, session_version = version, session_sender = sender\<rparr>)\<rparr>;
         room = room_entry self room_id
     in self\<lparr>rooms := (rooms self)(room_id \<mapsto> room\<lparr>members := insert session_id (members room)\<rparr>)\<rparr>)"

definition expel_session ::
    "('m, 'c) RoutingTable \<Rightarrow> SessionID \<Rightarrow> ((table_error + unit) \<times> ('m, 'c) RoutingTable) outcome" where
  "expel_session self session_id =
    (case sessions self session_id of
       None \<Rightarrow> Return (Inl (UnknownSession session_id), self)
     | Some session \<Rightarrow>
         let self = self\<lparr>sessions := (sessions self)(session_id := None)\<rparr>
         in bind_outcome (expect_option (rooms self (session_room_id session)) ''bad memberships'') (\<lambda>room.
              Return (Inr (), self\<lparr>rooms := (rooms self)(session_room_id session \<mapsto>
                room\<lparr>members := members room - {session_id}\<rparr>)\<rparr>)))"

definition move_session ::
    "('m, 'c) RoutingTable \<Rightarrow> SessionID \<Rightarrow> RoomID \<Rightarrow>
      ((table_error + unit) \<times> ('m, 'c) RoutingTable) outcome" where
  "move_session self session_id dest_room_id =
    (case sessions self session_id of
       None \<Rightarrow> Return (Inl (UnknownSession session_id), self)
     | Some session \<Rightarrow>
         let orig_room_id = session_room_id session
         in bind_outcome (expect_option (rooms self orig_room_id) ''bad memberships'') (\<lambda>orig_room.
              let self = self\<lparr>rooms := (rooms self)(orig_room_id \<mapsto>
                    orig_room\<lparr>members := members orig_room - {session_id}\<rparr>)\<rparr>;
                  dest_room = room_entry self dest_room_id;
                  self = self\<lparr>rooms := (rooms self)(dest_room_id \<mapsto>
                    dest_room\<lparr>members := insert session_id (members dest_room)\<rparr>)\<rparr>;
                  self = self\<lparr>sessions := (sessions self)(session_id \<mapsto>
                    session\<lparr>session_room_id := dest_room_id\<rparr>)\<rparr>
              in Return (Inr (), self)))"

definition sender :: "('m, 'c) RoutingTable \<Rightarrow> SessionID \<Rightarrow> 'c option" where
  "sender self session_id = map_option session_sender (sessions self session_id)"

definition room_id :: "('m, 'c) RoutingTable \<Rightarrow> SessionID \<Rightarrow> table_error + RoomID" where
  "room_id self session_id =
    (case sessions self session_id of
       None \<Rightarrow> Inl (UnknownSession session_id)
     | Some session \<Rightarrow> Inr (session_room_id session))"

definition room_senders ::
    "(SessionID set \<Rightarrow> SessionID list) \<Rightarrow> ('m, 'c) RoutingTable \<Rightarrow> RoomID \<Rightarrow> SessionID option \<Rightarrow>
      'c list outcome" where
  "room_senders iter self room exclude =
    bind_outcome (expect_option (rooms self room) ''called Option::unwrap() on a None value'') (\<lambda>room.
      Return (List.map_filter
        (\<lambda>session_id. if exclude = Some session_id then None else sender self session_id)
        (iter (members room))))"

definition target_senders ::
    "(SessionID set \<Rightarrow> SessionID list) \<Rightarrow> ('m, 'c) RoutingTable \<Rightarrow> SessionID \<Rightarrow> u8 \<Rightarrow>
      (table_error + 'c list) outcome" where
  "target_senders iter self session_id target =
    (if target = 0 then
       (case room_id self session_id of
          Inl e \<Rightarrow> Return (Inl e)
        | Inr room \<Rightarrow> bind_outcome (room_senders iter self room (Some session_id)) (\<lambda>senders.
            Return (Inr senders)))
     else Panic ''not implemented: non-zero targets not supported yet'')"

section \<open>The contract\<close>

definition iter_ok :: "('a set \<Rightarrow> 'a list) \<Rightarrow> bool" where
  "iter_ok iter \<longleftrightarrow> (\<forall>S. finite S \<longrightarrow> set (iter S) = S \<and> distinct (iter S))"

text \<open>
  What the tasks of the server rely on: a directory which knows, of every session it holds, its room
  and its channel, and which for a room yields the channels of its members, each once.
\<close>

locale session_directory =
  fixes inv :: "'t \<Rightarrow> bool"
    and place :: "'t \<Rightarrow> SessionID \<rightharpoonup> RoomID"
    and channel :: "'t \<Rightarrow> SessionID \<rightharpoonup> 'c"
    and audience :: "'t \<Rightarrow> RoomID \<Rightarrow> SessionID option \<Rightarrow> 'c list outcome"
    and empty :: 't
    and enroll :: "'t \<Rightarrow> SessionID \<Rightarrow> 'm \<Rightarrow> 'c \<Rightarrow> 't"
    and expel :: "'t \<Rightarrow> SessionID \<Rightarrow> ((table_error + unit) \<times> 't) outcome"
    and move :: "'t \<Rightarrow> SessionID \<Rightarrow> RoomID \<Rightarrow> ((table_error + unit) \<times> 't) outcome"
  assumes inv_empty: "inv empty" and place_empty: "place empty s = None"
    and finite_place: "inv t \<Longrightarrow> finite (dom (place t))"
    and dom_channel: "dom (channel t) = dom (place t)"
    and enroll_inv: "inv t \<Longrightarrow> place t s = None \<Longrightarrow> inv (enroll t s v c)"
    and enroll_place: "place (enroll t s v c) = (place t)(s \<mapsto> 0)"
    and enroll_channel: "channel (enroll t s v c) = (channel t)(s \<mapsto> c)"
    and expel_held: "inv t \<Longrightarrow> place t s = Some r \<Longrightarrow>
      \<exists>t'. expel t s = Return (Inr (), t') \<and> inv t' \<and> place t' = (place t)(s := None) \<and>
        channel t' = (channel t)(s := None)"
    and expel_unknown: "place t s = None \<Longrightarrow> expel t s = Return (Inl (UnknownSession s), t)"
    and move_held: "inv t \<Longrightarrow> place t s = Some r \<Longrightarrow>
      \<exists>t'. move t s d = Return (Inr (), t') \<and> inv t' \<and> place t' = (place t)(s \<mapsto> d) \<and>
        channel t' = channel t"
    and move_unknown: "place t s = None \<Longrightarrow> move t s d = Return (Inl (UnknownSession s), t)"
    and audience_of_room: "inv t \<Longrightarrow> place t s = Some r \<Longrightarrow>
      \<exists>cs. audience t r x = Return cs \<and>
        mset cs = image_mset (\<lambda>q. the (channel t q)) (mset_set {q. place t q = Some r \<and> x \<noteq> Some q})"
begin

text \<open>Operations on the directory, in any order; enrolling is for sessions it does not hold.\<close>

lemma expel_returns: "inv t \<Longrightarrow> \<exists>r t'. expel t s = Return (r, t') \<and> inv t' \<and> place t' = (place t)(s := None)"
  using expel_held [of t s] expel_unknown [of t s] by (cases "place t s") (auto simp: fun_upd_idem)

lemma audience_mset:
  assumes "inv t" and "place t s = Some r" and "audience t r x = Return cs"
  shows "mset cs = image_mset (\<lambda>q. the (channel t q)) (mset_set {q. place t q = Some r \<and> x \<noteq> Some q})"
proof -
  obtain cs' where "audience t r x = Return cs'" and
    "mset cs' = image_mset (\<lambda>q. the (channel t q)) (mset_set {q. place t q = Some r \<and> x \<noteq> Some q})"
    using audience_of_room [OF assms(1,2), of x] by blast
  then show ?thesis using assms(3) by simp
qed

lemma audience_set:
  assumes "inv t" and "place t s = Some r" and "audience t r x = Return cs"
  shows "set cs = {c. \<exists>q. place t q = Some r \<and> x \<noteq> Some q \<and> channel t q = Some c}"
proof -
  have fin: "finite {q. place t q = Some r \<and> x \<noteq> Some q}"
    using finite_place [OF assms(1)] by (rule rev_finite_subset) auto
  have ch: "channel t q = Some (the (channel t q))" if "place t q = Some r" for q
  proof -
    have "q \<in> dom (channel t)" using dom_channel [of t] that by blast
    then show ?thesis by auto
  qed
  have "set cs = (\<lambda>q. the (channel t q)) ` {q. place t q = Some r \<and> x \<noteq> Some q}"
    using arg_cong [OF audience_mset [OF assms], of set_mset] fin by simp
  then show ?thesis using ch by force
qed

lemma audience_length:
  assumes "inv t" and "place t s = Some r" and "audience t r x = Return cs"
  shows "length cs = card {q. place t q = Some r \<and> x \<noteq> Some q}"
  using arg_cong [OF audience_mset [OF assms], of size] by simp

text \<open>A session that has left its room hears nothing more there, and one that came hears everything.\<close>

lemma expelled_not_in_audience:
  assumes "inv t" and "place t s = Some r" and "channel t s = Some c" and "inj_on (channel t) (dom (channel t))"
    and "expel t s = Return (Inr (), t')" and "place t' q = Some r'" and "audience t' r' x = Return cs"
  shows "c \<notin> set cs"
proof -
  have t': "inv t'" "channel t' = (channel t)(s := None)"
    using expel_held [OF assms(1,2)] assms(5) by auto
  show ?thesis
    using audience_set [OF t'(1) assms(6,7)] t'(2) assms(3,4)
    by (auto simp: inj_on_def split: if_splits) (metis domI)
qed

end

section \<open>The table implements the contract\<close>

definition placement :: "('m, 'c) RoutingTable \<Rightarrow> SessionID \<rightharpoonup> RoomID" where
  "placement t = (\<lambda>s. map_option session_room_id (sessions t s))"

text \<open>
  The two directions agree: a session is a member of the room it is in, and of no other, and every
  member of a room is a session in it.
\<close>

definition wf_table :: "('m, 'c) RoutingTable \<Rightarrow> bool" where
  "wf_table t \<longleftrightarrow> finite (dom (sessions t)) \<and>
    (\<forall>r. case rooms t r of
         None \<Rightarrow> r \<notin> ran (placement t)
       | Some room \<Rightarrow> members room = {s. placement t s = Some r})"

lemma wf_tableD:
  assumes "wf_table t" and "placement t s = Some r"
  shows "rooms t r = Some \<lparr>members = {q. placement t q = Some r}\<rparr>"
proof (cases "rooms t r")
  case None
  then show ?thesis using assms by (auto simp: wf_table_def ran_def dest!: spec [of _ r])
next
  case (Some room)
  then show ?thesis using assms by (cases room) (auto simp: wf_table_def dest!: spec [of _ r])
qed

lemma room_entry_members:
  assumes "wf_table t"
  shows "members (room_entry t r) = {s. placement t s = Some r}"
proof (cases "rooms t r")
  case None
  then show ?thesis
    using assms by (auto simp: wf_table_def room_entry_def Room_default_def ran_def dest!: spec [of _ r])
next
  case (Some room)
  then show ?thesis using assms by (auto simp: wf_table_def room_entry_def dest!: spec [of _ r])
qed

lemma placement_default [simp]: "placement RoutingTable_default = Map.empty"
  by (simp add: placement_def RoutingTable_default_def)

lemma sender_default [simp]: "sender RoutingTable_default = Map.empty"
  by (auto simp: sender_def RoutingTable_default_def)

lemma placement_enroll: "placement (enroll_session t s v c) = (placement t)(s \<mapsto> 0)"
  by (auto simp: placement_def enroll_session_def Let_def)

lemma sender_enroll: "sender (enroll_session t s v c) = (sender t)(s \<mapsto> c)"
  by (auto simp: sender_def enroll_session_def Let_def)

lemma rooms_enroll:
  "rooms (enroll_session t s v c) = (rooms t)(0 \<mapsto> \<lparr>members = insert s (members (room_entry t 0))\<rparr>)"
  by (cases "room_entry t 0") (simp add: enroll_session_def Let_def room_entry_def)

lemma wf_enroll_root:
  assumes "wf_table t" and "placement t s = None \<or> placement t s = Some 0"
  shows "wf_table (enroll_session t s v c)"
proof -
  have "finite (dom (sessions (enroll_session t s v c)))"
    using assms(1) by (simp add: wf_table_def enroll_session_def Let_def)
  moreover have "case rooms (enroll_session t s v c) r of
      None \<Rightarrow> r \<notin> ran (placement (enroll_session t s v c))
    | Some room \<Rightarrow> members room = {q. placement (enroll_session t s v c) q = Some r}" for r
    using assms room_entry_members [OF assms(1), of 0]
    by (cases "r = 0"; cases "rooms t r")
      (auto simp: rooms_enroll placement_enroll wf_table_def ran_def dest!: spec [of _ r])
  ultimately show ?thesis by (simp add: wf_table_def)
qed

lemma wf_enroll: "wf_table t \<Longrightarrow> placement t s = None \<Longrightarrow> wf_table (enroll_session t s v c)"
  by (simp add: wf_enroll_root)

lemma wf_default: "wf_table RoutingTable_default"
  by (simp add: wf_table_def RoutingTable_default_def placement_def)

lemma expel_wf:
  assumes "wf_table t" and "placement t s = Some r"
  shows "\<exists>t'. expel_session t s = Return (Inr (), t') \<and> wf_table t' \<and>
    placement t' = (placement t)(s := None) \<and> sender t' = (sender t)(s := None)"
proof -
  obtain ses where ses: "sessions t s = Some ses" "session_room_id ses = r"
    using assms(2) by (auto simp: placement_def)
  define t' where "t' = t\<lparr>sessions := (sessions t)(s := None),
    rooms := (rooms t)(r \<mapsto> \<lparr>members = {q. placement t q = Some r} - {s}\<rparr>)\<rparr>"
  have "expel_session t s = Return (Inr (), t')"
    using wf_tableD [OF assms] by (simp add: expel_session_def ses t'_def)
  moreover have p: "placement t' = (placement t)(s := None)" and "sender t' = (sender t)(s := None)"
    by (auto simp: placement_def sender_def t'_def)
  moreover have "case rooms t' q of None \<Rightarrow> q \<notin> ran (placement t')
      | Some room \<Rightarrow> members room = {k. placement t' k = Some q}" for q
    using assms unfolding p
    by (cases "q = r"; cases "rooms t q") (auto simp: t'_def wf_table_def ran_def dest!: spec [of _ q])
  moreover have "finite (dom (sessions t'))" using assms(1) by (simp add: wf_table_def t'_def)
  ultimately show ?thesis by (auto simp: wf_table_def)
qed

lemma move_wf:
  assumes "wf_table t" and "placement t s = Some r"
  shows "\<exists>t'. move_session t s d = Return (Inr (), t') \<and> wf_table t' \<and>
    placement t' = (placement t)(s \<mapsto> d) \<and> sender t' = sender t"
proof -
  obtain ses where ses: "sessions t s = Some ses" "session_room_id ses = r"
    using assms(2) by (auto simp: placement_def)
  define left where "left = t\<lparr>rooms := (rooms t)(r \<mapsto> \<lparr>members = {q. placement t q = Some r} - {s}\<rparr>)\<rparr>"
  have entry: "members (room_entry left d) = {q. placement t q = Some d} - {s}"
    using room_entry_members [OF assms(1), of d] assms(2) by (auto simp: left_def room_entry_def)
  define t' where "t' = left\<lparr>rooms := (rooms left)(d \<mapsto> \<lparr>members = insert s {q. placement t q = Some d}\<rparr>),
    sessions := (sessions t)(s \<mapsto> ses\<lparr>session_room_id := d\<rparr>)\<rparr>"
  have "move_session t s d = Return (Inr (), t')"
    using wf_tableD [OF assms] entry
    by (cases "room_entry left d") (auto simp: move_session_def ses t'_def Let_def left_def)
  moreover have p: "placement t' = (placement t)(s \<mapsto> d)" and "sender t' = sender t"
    using ses by (auto simp: placement_def sender_def t'_def left_def)
  moreover have "case rooms t' q of None \<Rightarrow> q \<notin> ran (placement t')
      | Some room \<Rightarrow> members room = {k. placement t' k = Some q}" for q
    using assms unfolding p
    by (cases "q = d"; cases "q = r"; cases "rooms t q")
      (auto simp: t'_def left_def wf_table_def ran_def dest!: spec [of _ q])
  moreover have "finite (dom (sessions t'))" using assms(1) by (simp add: wf_table_def t'_def left_def)
  ultimately show ?thesis by (auto simp: wf_table_def)
qed

lemma map_filter_unless:
  "\<forall>q \<in> set xs. f q \<noteq> None \<Longrightarrow>
    List.map_filter (\<lambda>q. if P q then None else f q) xs = map (\<lambda>q. the (f q)) (filter (\<lambda>q. \<not> P q) xs)"
  by (induction xs) (auto simp: map_filter_simps)

text \<open>Iteration over a \<open>HashSet\<close>, in an order of which nothing else is known.\<close>

locale hash_iteration =
  fixes iter :: "SessionID set \<Rightarrow> SessionID list"
  assumes iter_ok: "iter_ok iter"
begin

lemma mset_iter: "finite S \<Longrightarrow> mset (iter S) = mset_set S"
  using iter_ok by (simp add: iter_ok_def) (metis mset_set_set)

lemma room_senders_of_room:
  assumes "wf_table t" and "placement t s = Some r"
  shows "\<exists>cs. room_senders iter t r x = Return cs \<and>
    mset cs = image_mset (\<lambda>q. the (sender t q)) (mset_set {q. placement t q = Some r \<and> x \<noteq> Some q})"
proof -
  define S where "S = {q. placement t q = Some r}"
  have "S \<subseteq> dom (sessions t)" by (auto simp: S_def placement_def)
  then have fin: "finite S" using assms(1) by (auto simp: wf_table_def intro: finite_subset)
  have "\<forall>q \<in> set (iter S). sender t q \<noteq> None"
    using fin iter_ok by (auto simp: iter_ok_def S_def placement_def sender_def)
  then have "List.map_filter (\<lambda>q. if x = Some q then None else sender t q) (iter S)
      = map (\<lambda>q. the (sender t q)) (filter (\<lambda>q. x \<noteq> Some q) (iter S))"
    by (rule map_filter_unless)
  then have "room_senders iter t r x
      = Return (map (\<lambda>q. the (sender t q)) (filter (\<lambda>q. x \<noteq> Some q) (iter S)))"
    using wf_tableD [OF assms] by (simp add: room_senders_def S_def)
  moreover have "mset (filter (\<lambda>q. x \<noteq> Some q) (iter S)) = mset_set {q \<in> S. x \<noteq> Some q}"
    by (simp only: mset_filter mset_iter [OF fin] filter_mset_mset_set [OF fin])
  ultimately show ?thesis by (auto simp: S_def)
qed

end

sublocale hash_iteration \<subseteq> rt: session_directory wf_table placement sender "room_senders iter"
    RoutingTable_default enroll_session expel_session move_session
proof unfold_locales
  fix t :: "('m, 'c) RoutingTable" and s :: SessionID and d :: RoomID
  show "dom (sender t) = dom (placement t)" by (auto simp: sender_def placement_def)
  show "wf_table t \<Longrightarrow> finite (dom (placement t))"
    by (auto simp: wf_table_def placement_def elim: rev_finite_subset)
  show "placement t s = None \<Longrightarrow> expel_session t s = Return (Inl (UnknownSession s), t)"
    "placement t s = None \<Longrightarrow> move_session t s d = Return (Inl (UnknownSession s), t)"
    by (auto simp: expel_session_def move_session_def placement_def)
qed (simp_all add: wf_default placement_enroll sender_enroll wf_enroll expel_wf move_wf room_senders_of_room)

interpretation sorted_iter: hash_iteration sorted_list_of_set
  by unfold_locales (simp add: iter_ok_def)

context hash_iteration
begin

lemma target_senders_of_room:
  assumes "wf_table t" and "placement t s = Some r"
  shows "\<exists>cs. target_senders iter t s 0 = Return (Inr cs) \<and>
    mset cs = {# the (sender t q). q \<in># mset_set {q. placement t q = Some r \<and> q \<noteq> s} #}"
proof -
  obtain cs where "room_senders iter t r (Some s) = Return cs" and
    "mset cs = {# the (sender t q). q \<in># mset_set {q. placement t q = Some r \<and> Some s \<noteq> Some q} #}"
    using rt.audience_of_room [OF assms, of "Some s"] by blast
  moreover have "room_id t s = Inr r" using assms(2) by (auto simp: room_id_def placement_def)
  moreover have "{q. placement t q = Some r \<and> Some s \<noteq> Some q} = {q. placement t q = Some r \<and> q \<noteq> s}"
    by auto
  ultimately show ?thesis by (simp add: target_senders_def)
qed

end

section \<open>Sequences of operations\<close>

text \<open>
  The operations that change the table, as they are, each with its result, and the specification, which works on the placement alone.
\<close>

datatype ('m, 'c) table_op = Enroll SessionID 'm 'c | Expel SessionID | Move SessionID RoomID

fun table_step ::
    "('m, 'c) table_op \<Rightarrow> ('m, 'c) RoutingTable \<Rightarrow> ((table_error + unit) \<times> ('m, 'c) RoutingTable) outcome" where
  "table_step (Enroll s v c) t = Return (Inr (), enroll_session t s v c)"
| "table_step (Expel s) t = expel_session t s"
| "table_step (Move s d) t = move_session t s d"

fun table_run ::
    "('m, 'c) table_op list \<Rightarrow> ('m, 'c) RoutingTable \<Rightarrow> ((table_error + unit) list \<times> ('m, 'c) RoutingTable) outcome" where
  "table_run [] t = Return ([], t)"
| "table_run (a # as) t =
    bind_outcome (table_step a t) (\<lambda>(r, t). bind_outcome (table_run as t) (\<lambda>(rs, t). Return (r # rs, t)))"

fun placement_step :: "('m, 'c) table_op \<Rightarrow> (SessionID \<rightharpoonup> RoomID) \<Rightarrow> (table_error + unit) \<times> (SessionID \<rightharpoonup> RoomID)" where
  "placement_step (Enroll s v c) p = (Inr (), p(s \<mapsto> 0))"
| "placement_step (Expel s) p = (if p s = None then (Inl (UnknownSession s), p) else (Inr (), p(s := None)))"
| "placement_step (Move s d) p = (if p s = None then (Inl (UnknownSession s), p) else (Inr (), p(s \<mapsto> d)))"

fun placement_run ::
    "('m, 'c) table_op list \<Rightarrow> (SessionID \<rightharpoonup> RoomID) \<Rightarrow> (table_error + unit) list \<times> (SessionID \<rightharpoonup> RoomID)" where
  "placement_run [] p = ([], p)"
| "placement_run (a # as) p =
    (let (r, p) = placement_step a p; (rs, p) = placement_run as p in (r # rs, p))"

text \<open>
  \<open>enroll_session\<close> does not look for a session of the same id: one that has been moved stays a member of the room it was moved
  to. \<open>tidy\<close> sequences do not enrol such a session; the control task does not, as it enrols only sessions the table does not hold.
\<close>

fun tidy_op :: "('m, 'c) table_op \<Rightarrow> (SessionID \<rightharpoonup> RoomID) \<Rightarrow> bool" where
  "tidy_op (Enroll s v c) p \<longleftrightarrow> p s = None \<or> p s = Some 0"
| "tidy_op _ p \<longleftrightarrow> True"

fun tidy :: "('m, 'c) table_op list \<Rightarrow> (SessionID \<rightharpoonup> RoomID) \<Rightarrow> bool" where
  "tidy [] p \<longleftrightarrow> True"
| "tidy (a # as) p \<longleftrightarrow> tidy_op a p \<and> tidy as (snd (placement_step a p))"

lemma holds_session_iff: "holds_session t s \<longleftrightarrow> placement t s \<noteq> None"
  by (simp add: holds_session_def placement_def)

text \<open>What holds of every table: each session is a member of the room it is in.\<close>

definition housed :: "('m, 'c) RoutingTable \<Rightarrow> bool" where
  "housed t \<longleftrightarrow> (\<forall>s r. placement t s = Some r \<longrightarrow> (\<exists>room. rooms t r = Some room \<and> s \<in> members room))"

lemma housedE:
  assumes "housed t" and "sessions t s = Some ses"
  obtains room where "rooms t (session_room_id ses) = Some room" "s \<in> members room"
proof -
  have "placement t s = Some (session_room_id ses)" using assms(2) by (simp add: placement_def)
  with assms(1) that show ?thesis unfolding housed_def by blast
qed

lemma housed_upd:
  assumes "housed t" and "sessions t' = (sessions t)(s := ses)"
    and "\<And>r room q. rooms t r = Some room \<Longrightarrow> q \<in> members room \<Longrightarrow> q \<noteq> s \<Longrightarrow> \<exists>room. rooms t' r = Some room \<and> q \<in> members room"
    and "\<And>x. ses = Some x \<Longrightarrow> \<exists>room. rooms t' (session_room_id x) = Some room \<and> s \<in> members room"
  shows "housed t'"
  unfolding housed_def
proof (intro allI impI)
  fix q r assume q: "placement t' q = Some r"
  show "\<exists>room. rooms t' r = Some room \<and> q \<in> members room"
  proof (cases "q = s")
    case True
    with q obtain x where "ses = Some x" "session_room_id x = r" by (auto simp: placement_def assms(2))
    with assms(4) True show ?thesis by blast
  next
    case False
    then have "placement t q = Some r" using q by (simp add: placement_def assms(2))
    with assms(1,3) False show ?thesis unfolding housed_def by blast
  qed
qed

lemma table_step_housed:
  assumes "housed t"
  shows "\<exists>t'. table_step a t = Return (fst (placement_step a (placement t)), t') \<and> housed t' \<and>
    placement t' = snd (placement_step a (placement t))"
proof (cases a)
  case (Enroll s v c)
  have "sessions (enroll_session t s v c) = (sessions t)(s \<mapsto> \<lparr>session_room_id = 0, session_version = v, session_sender = c\<rparr>)"
    by (simp add: enroll_session_def Let_def)
  then have "housed (enroll_session t s v c)"
    by (rule housed_upd [OF assms]) (auto simp: rooms_enroll room_entry_def)
  then show ?thesis using Enroll by (simp add: placement_enroll)
next
  case (Expel s)
  show ?thesis
  proof (cases "sessions t s")
    case (Some ses)
    then obtain room where room: "rooms t (session_room_id ses) = Some room" "s \<in> members room" by (rule housedE [OF assms])
    define t' where "t' = t\<lparr>sessions := (sessions t)(s := None),
      rooms := (rooms t)(session_room_id ses \<mapsto> room\<lparr>members := members room - {s}\<rparr>)\<rparr>"
    have "housed t'" by (rule housed_upd [OF assms, of _ s None]) (auto simp: t'_def room)
    moreover have "placement t' = (placement t)(s := None)" by (auto simp: placement_def t'_def)
    moreover have "expel_session t s = Return (Inr (), t')" using Some room by (simp add: expel_session_def t'_def)
    ultimately show ?thesis using Expel Some by (simp add: placement_def)
  qed (use assms Expel in \<open>simp add: expel_session_def placement_def\<close>)
next
  case (Move s d)
  show ?thesis
  proof (cases "sessions t s")
    case (Some ses)
    then obtain room where room: "rooms t (session_room_id ses) = Some room" "s \<in> members room" by (rule housedE [OF assms])
    define left where "left = t\<lparr>rooms := (rooms t)(session_room_id ses \<mapsto> room\<lparr>members := members room - {s}\<rparr>)\<rparr>"
    define t' where "t' = left\<lparr>rooms := (rooms left)(d \<mapsto> (room_entry left d)\<lparr>members := insert s (members (room_entry left d))\<rparr>),
      sessions := (sessions t)(s \<mapsto> ses\<lparr>session_room_id := d\<rparr>)\<rparr>"
    have t': "move_session t s d = Return (Inr (), t')"
      "sessions t' = (sessions t)(s \<mapsto> ses\<lparr>session_room_id := d\<rparr>)"
      using Some room by (simp_all add: move_session_def Let_def t'_def left_def)
    have "housed t'"
      by (rule housed_upd [OF assms t'(2)]) (auto simp: t'_def left_def room_entry_def room split: option.split)
    moreover have "placement t' = (placement t)(s \<mapsto> d)" by (auto simp: placement_def t'(2))
    ultimately show ?thesis using Move Some t'(1) by (simp add: placement_def)
  qed (use assms Move in \<open>simp add: move_session_def placement_def\<close>)
qed

lemma table_step_wf:
  assumes "wf_table t" and "tidy_op a (placement t)" and "table_step a t = Return (r, t')"
  shows "wf_table t'"
proof (cases a)
  case (Enroll s v c)
  then show ?thesis using assms by (auto simp: wf_enroll_root)
next
  case (Expel s)
  then show ?thesis
    using assms(1,3) sorted_iter.rt.expel_returns [OF assms(1), of s] by auto
next
  case (Move s d)
  then show ?thesis
    using assms(1,3) sorted_iter.rt.move_unknown [of t s d] sorted_iter.rt.move_held [OF assms(1), of s _ d]
    by (cases "placement t s") fastforce+
qed

lemma table_run_refines:
  assumes "housed t"
  shows "\<exists>t'. table_run as t = Return (fst (placement_run as (placement t)), t') \<and> housed t' \<and>
    placement t' = snd (placement_run as (placement t)) \<and> (wf_table t \<and> tidy as (placement t) \<longrightarrow> wf_table t')"
  using assms
proof (induction as arbitrary: t)
  case (Cons a as)
  from table_step_housed [OF Cons.prems, of a] obtain t1 where
    1: "table_step a t = Return (fst (placement_step a (placement t)), t1)" "housed t1"
    "placement t1 = snd (placement_step a (placement t))" by blast
  from Cons.IH [OF 1(2)] obtain t2 where
    2: "table_run as t1 = Return (fst (placement_run as (placement t1)), t2)" "housed t2"
    "placement t2 = snd (placement_run as (placement t1))" "wf_table t1 \<and> tidy as (placement t1) \<longrightarrow> wf_table t2" by blast
  have "wf_table t \<and> tidy (a # as) (placement t) \<longrightarrow> wf_table t2"
    using table_step_wf [OF _ _ 1(1)] 2(4) 1(3) by simp
  then show ?case using 1 2 by (simp add: case_prod_beta Let_def)
qed simp

lemma housed_default: "housed RoutingTable_default"
  by (simp add: housed_def)

section \<open>Properties\<close>

text \<open>
  C22. The table refines its specification. From the empty table, any sequence whatsoever of enrolling, expelling and moving sessions
  runs without a panic, reports unknown sessions and only these, places the sessions as the specification on placements says, and
  makes each a member of the room it is in. Where no session is enrolled anew that has been moved out of the default room, and not expelled
  since, the two directions of the table also agree throughout: the members of a room are exactly the sessions in it.
\<close>

theorem table_refines_placement:
  "\<exists>t. table_run as RoutingTable_default = Return (fst (placement_run as Map.empty), t) \<and>
    placement t = snd (placement_run as Map.empty) \<and>
    (\<forall>s r. placement t s = Some r \<longrightarrow> (\<exists>room. rooms t r = Some room \<and> s \<in> members room)) \<and>
    (tidy as Map.empty \<longrightarrow> wf_table t)"
  using table_run_refines [OF housed_default, of as] wf_default unfolding placement_default housed_def by blast

text \<open>A session that is moved, expelled and enrolled again; and one that is enrolled again without having been expelled.\<close>

theorem table_refines_placement_witness:
  "\<exists>t. table_run [Enroll 1 () (11 :: nat), Enroll 2 () 12, Move 1 7, Expel 1, Expel 3, Enroll 1 () 13] RoutingTable_default
      = Return ([Inr (), Inr (), Inr (), Inr (), Inl (UnknownSession 3), Inr ()], t) \<and>
    placement t = [2 \<mapsto> 0, 1 \<mapsto> 0] \<and> wf_table t"
  using table_refines_placement [of "[Enroll 1 () (11 :: nat), Enroll 2 () 12, Move 1 7, Expel 1, Expel 3, Enroll 1 () 13]"]
  by (auto simp: Let_def fun_upd_twist)

lemma untidy_enrolment:
  "\<exists>rs t. table_run [Enroll 1 () (11 :: nat), Move 1 7, Enroll 1 () 12] RoutingTable_default = Return (rs, t) \<and>
    placement t 1 = Some 0 \<and> rooms t 7 = Some \<lparr>members = {1}\<rparr>"
  by (simp add: move_session_def enroll_session_def RoutingTable_default_def room_entry_def Room_default_def Let_def placement_def)

text \<open>
  The recipients of normal speech. In a well-formed table, the senders of target 0 for a session
  are the channels of the other sessions in its room, each exactly once, whatever the
  iteration order, and never its own.
\<close>

theorem target_senders_audience:
  assumes "wf_table t" and "iter_ok iter" and "placement t s = Some r"
  shows "\<exists>cs. target_senders iter t s 0 = Return (Inr cs) \<and>
    mset cs = {# the (sender t q). q \<in># mset_set {q. placement t q = Some r \<and> q \<noteq> s} #}"
proof -
  have "hash_iteration iter" using assms(2) by unfold_locales
  then show ?thesis using assms(1,3) by (rule hash_iteration.target_senders_of_room)
qed

definition small_table :: "(unit, nat) RoutingTable" where
  "small_table = enroll_session (enroll_session (enroll_session RoutingTable_default 0 () 10) 1 () 11) 2 () 12"

lemma small_table_ok:
  "wf_table small_table" "placement small_table = [0 \<mapsto> 0, 1 \<mapsto> 0, 2 \<mapsto> 0]"
  "sender small_table = [0 \<mapsto> 10, 1 \<mapsto> 11, 2 \<mapsto> 12]"
  by (simp_all add: small_table_def wf_enroll wf_default placement_enroll sender_enroll)

theorem target_senders_audience_witness:
  "\<exists>cs. target_senders sorted_list_of_set small_table 1 0 = Return (Inr cs) \<and> mset cs = {#10, 12#}"
proof -
  have "{q. placement small_table q = Some 0 \<and> q \<noteq> 1} = {0, 2}"
    by (auto simp: small_table_ok split: if_splits)
  then show ?thesis
    using target_senders_audience [OF small_table_ok(1) sorted_iter.iter_ok, of 1 0]
    by (simp add: small_table_ok)
qed

text \<open>
  The panics of the table: a voice target other than 0 is one for every session, enrolled or
  not, and so is a room id which no session has ever been in.
\<close>

theorem table_panics:
  assumes "target \<noteq> 0" and "rooms t r = None"
  shows "target_senders iter t s target = Panic ''not implemented: non-zero targets not supported yet'' \<and>
    room_senders iter t r x = Panic ''called Option::unwrap() on a None value''"
  using assms by (simp add: target_senders_def room_senders_def)

theorem table_panics_witness:
  "target_senders sorted_list_of_set small_table 7 31
     = Panic ''not implemented: non-zero targets not supported yet'' \<and>
   room_senders sorted_list_of_set small_table 5 None = Panic ''called Option::unwrap() on a None value''"
  by (rule table_panics) (simp_all add: small_table_def rooms_enroll RoutingTable_default_def)

end
