(* ===== verification/Control.thy ===== *)
theory Control
  imports Voice
begin

text \<open>
  \<open>mumble-protocol/src/control.rs\<close>: the control channel. \<open>raw_decode\<close> and \<open>raw_encode\<close> are
  \<open>RawControlCodec\<close>; the macros \<open>define_packet_mappings\<close>, \<open>define_packet_from\<close> and
  \<open>define_packet_enum\<close> are modelled by what they expand to for the packets that the default features
  define (the three WebRTC packets are behind a feature that is off): the ids, the enum
  \<open>ControlPacket\<close>, its conversions from and to raw packets, and \<open>name\<close>; \<open>control_decode\<close>
  and \<open>control_encode\<close> are \<open>ControlCodec\<close>.

  The message types of \<open>msgs\<close> are generated from the \<open>.proto\<close> files by the build: they are the type
  variable \<open>'m\<close>, and what the code uses of them is the record \<open>'m msgs\<close>, an argument of the
  definitions. \<open>protobuf_ok\<close> names the one law assumed of it: parsing inverts serialising.
\<close>

unbundle bit_operations_syntax

section \<open>Raw packets\<close>

record RawControlPacket =
  raw_id :: u16
  raw_bytes :: bytes

definition raw_decode :: "bytes \<Rightarrow> (io_error + RawControlPacket option) \<times> bytes" where
  "raw_decode buf =
    (let buf_len = length buf
     in if buf_len \<ge> 6 then
          let pid = from_be_bytes (subslice 0 2 buf);
              len = unat (from_be_bytes (subslice 2 6 buf) :: u32)
          in if len > 0x7fffff then (Inl (OtherError ''packet too long''), buf)
             else if buf_len \<ge> 6 + len then
               (Inr (Some \<lparr>raw_id = pid, raw_bytes = drop 6 (take (6 + len) buf)\<rparr>), drop (6 + len) buf)
             else (Inr None, buf)
        else (Inr None, buf))"

definition raw_encode :: "RawControlPacket \<Rightarrow> bytes \<Rightarrow> bytes" where
  "raw_encode item dst =
    (let pid = raw_id item;
         bytes = raw_bytes item;
         len = length bytes
     in dst @ be_bytes 2 pid @ be_bytes 4 (of_nat len :: u32) @ bytes)"

section \<open>Packet names, ids and types\<close>

datatype PacketName =
    PVersion | PUDPTunnel | PAuthenticate | PPing | PReject | PServerSync | PChannelRemove |
    PChannelState | PUserRemove | PUserState | PBanList | PTextMessage | PPermissionDenied |
    PACL | PQueryUsers | PCryptSetup | PContextActionModify | PContextAction | PUserList |
    PVoiceTarget | PPermissionQuery | PCodecVersion | PUserStats | PRequestBlob |
    PServerConfig | PSuggestConfig

text \<open>The argument list of \<open>define_packets!\<close>, in its order.\<close>

definition packet_names :: "PacketName list" where
  "packet_names =
    [PVersion, PUDPTunnel, PAuthenticate, PPing, PReject, PServerSync, PChannelRemove,
     PChannelState, PUserRemove, PUserState, PBanList, PTextMessage, PPermissionDenied, PACL,
     PQueryUsers, PCryptSetup, PContextActionModify, PContextAction, PUserList, PVoiceTarget,
     PPermissionQuery, PCodecVersion, PUserStats, PRequestBlob, PServerConfig, PSuggestConfig]"

text \<open>\<open>define_packet_mappings!(@rec id, head, tail)\<close>: the constant of the head, then the tail from \<open>id + 1\<close>.\<close>

fun define_packet_mappings :: "u16 \<Rightarrow> PacketName list \<Rightarrow> (PacketName \<times> u16) list" where
  "define_packet_mappings pid [] = []"
| "define_packet_mappings pid (head # tail) = (head, pid) # define_packet_mappings (pid + 1) tail"

definition msg_id :: "PacketName \<Rightarrow> u16" where
  "msg_id name = the (map_of (define_packet_mappings 0 packet_names) name)"

text \<open>\<open>stringify!\<close>.\<close>

fun stringify :: "PacketName \<Rightarrow> string" where
  "stringify PVersion = ''Version''"
| "stringify PUDPTunnel = ''UDPTunnel''"
| "stringify PAuthenticate = ''Authenticate''"
| "stringify PPing = ''Ping''"
| "stringify PReject = ''Reject''"
| "stringify PServerSync = ''ServerSync''"
| "stringify PChannelRemove = ''ChannelRemove''"
| "stringify PChannelState = ''ChannelState''"
| "stringify PUserRemove = ''UserRemove''"
| "stringify PUserState = ''UserState''"
| "stringify PBanList = ''BanList''"
| "stringify PTextMessage = ''TextMessage''"
| "stringify PPermissionDenied = ''PermissionDenied''"
| "stringify PACL = ''ACL''"
| "stringify PQueryUsers = ''QueryUsers''"
| "stringify PCryptSetup = ''CryptSetup''"
| "stringify PContextActionModify = ''ContextActionModify''"
| "stringify PContextAction = ''ContextAction''"
| "stringify PUserList = ''UserList''"
| "stringify PVoiceTarget = ''VoiceTarget''"
| "stringify PPermissionQuery = ''PermissionQuery''"
| "stringify PCodecVersion = ''CodecVersion''"
| "stringify PUserStats = ''UserStats''"
| "stringify PRequestBlob = ''RequestBlob''"
| "stringify PServerConfig = ''ServerConfig''"
| "stringify PSuggestConfig = ''SuggestConfig''"

text \<open>\<open>protobuf::error::ProtobufError\<close>, as far as the code distinguishes its variants.\<close>

datatype ProtobufError = IoError io_error | ProtobufFailure string

text \<open>
  The generated module \<open>msgs\<close> and the \<open>protobuf\<close> runtime: serialising (which fails for messages
  with required fields missing), parsing at a message type, the conversion of errors, and
  \<open>msg_type\<close>, the static type of a message value.
\<close>

record 'm msgs =
  write_to_bytes :: "'m \<Rightarrow> ProtobufError + bytes"
  parse_from_bytes :: "PacketName \<Rightarrow> bytes \<Rightarrow> ProtobufError + 'm"
  into_io_error :: "ProtobufError \<Rightarrow> io_error"
  msg_type :: "'m \<Rightarrow> PacketName"

definition protobuf_ok :: "('m, 'x) msgs_scheme \<Rightarrow> bool" where
  "protobuf_ok pb \<longleftrightarrow>
    (\<forall>m bs. write_to_bytes pb m = Inr bs \<longrightarrow> parse_from_bytes pb (msg_type pb m) bs = Inr m)"

datatype ('s, 'm) ControlPacket =
    Version 'm | UDPTunnel "'s VoicePacket" | Authenticate 'm | Ping 'm | Reject 'm |
    ServerSync 'm | ChannelRemove 'm | ChannelState 'm | UserRemove 'm | UserState 'm |
    BanList 'm | TextMessage 'm | PermissionDenied 'm | ACL 'm | QueryUsers 'm |
    CryptSetup 'm | ContextActionModify 'm | ContextAction 'm | UserList 'm | VoiceTarget 'm |
    PermissionQuery 'm | CodecVersion 'm | UserStats 'm | RequestBlob 'm | ServerConfig 'm |
    SuggestConfig 'm | Other RawControlPacket

section \<open>Conversions\<close>

definition raw_from_voice :: "'s VoicePacketDst \<Rightarrow> 's VoicePacket \<Rightarrow> RawControlPacket outcome" where
  "raw_from_voice Dst msg =
    bind_outcome (voice_encode Dst msg []) (\<lambda>buf.
    Return \<lparr>raw_id = msg_id PUDPTunnel, raw_bytes = buf\<rparr>)"

definition voice_try_from_bytes ::
    "'s VoicePacketDst \<Rightarrow> bytes \<Rightarrow> (io_error + 's VoicePacket) outcome" where
  "voice_try_from_bytes Dst bytes =
    (case fst (voice_decode Dst bytes) of
       Inl e \<Rightarrow> Return (Inl e)
     | Inr it \<Rightarrow> bind_outcome (expect_option it ''VoiceCodec is stateless'') (\<lambda>p. Return (Inr p)))"

definition voice_try_from_raw ::
    "'s VoicePacketDst \<Rightarrow> RawControlPacket \<Rightarrow> (io_error + 's VoicePacket) outcome" where
  "voice_try_from_raw Dst packet =
    (if raw_id packet = msg_id PUDPTunnel then voice_try_from_bytes Dst (raw_bytes packet)
     else Return (Inl (OtherError (''expected packet of type '' @ stringify PUDPTunnel))))"

definition raw_from_msg ::
    "('m, 'x) msgs_scheme \<Rightarrow> PacketName \<Rightarrow> 'm \<Rightarrow> RawControlPacket outcome" where
  "raw_from_msg pb name msg =
    bind_outcome (expect_result (write_to_bytes pb msg) ''called Result::unwrap on an Err value'') (\<lambda>bytes.
    Return \<lparr>raw_id = msg_id name, raw_bytes = bytes\<rparr>)"

definition msg_try_from_raw ::
    "('m, 'x) msgs_scheme \<Rightarrow> PacketName \<Rightarrow> RawControlPacket \<Rightarrow> ProtobufError + 'm" where
  "msg_try_from_raw pb name packet =
    (if raw_id packet = msg_id name then parse_from_bytes pb name (raw_bytes packet)
     else Inl (IoError (OtherError (''expected packet of type '' @ stringify name))))"

definition parse_as ::
    "('m, 'x) msgs_scheme \<Rightarrow> PacketName \<Rightarrow> ('m \<Rightarrow> ('s, 'm) ControlPacket) \<Rightarrow> RawControlPacket \<Rightarrow>
      (ProtobufError + ('s, 'm) ControlPacket) outcome" where
  "parse_as pb name ctor packet =
    Return (bind_result (parse_from_bytes pb name (raw_bytes packet)) (\<lambda>m. Inr (ctor m)))"

definition control_try_from ::
    "('m, 'x) msgs_scheme \<Rightarrow> 's VoicePacketDst \<Rightarrow> RawControlPacket \<Rightarrow>
      (ProtobufError + ('s, 'm) ControlPacket) outcome" where
  "control_try_from pb Dst packet =
    (let pid = raw_id packet in
     if pid = msg_id PVersion then parse_as pb PVersion Version packet
     else if pid = msg_id PUDPTunnel then
       bind_outcome (voice_try_from_bytes Dst (raw_bytes packet)) (\<lambda>r.
       Return (case r of Inl e \<Rightarrow> Inl (IoError e) | Inr p \<Rightarrow> Inr (UDPTunnel p)))
     else if pid = msg_id PAuthenticate then parse_as pb PAuthenticate Authenticate packet
     else if pid = msg_id PPing then parse_as pb PPing ControlPacket.Ping packet
     else if pid = msg_id PReject then parse_as pb PReject Reject packet
     else if pid = msg_id PServerSync then parse_as pb PServerSync ServerSync packet
     else if pid = msg_id PChannelRemove then parse_as pb PChannelRemove ChannelRemove packet
     else if pid = msg_id PChannelState then parse_as pb PChannelState ChannelState packet
     else if pid = msg_id PUserRemove then parse_as pb PUserRemove UserRemove packet
     else if pid = msg_id PUserState then parse_as pb PUserState UserState packet
     else if pid = msg_id PBanList then parse_as pb PBanList BanList packet
     else if pid = msg_id PTextMessage then parse_as pb PTextMessage TextMessage packet
     else if pid = msg_id PPermissionDenied then parse_as pb PPermissionDenied PermissionDenied packet
     else if pid = msg_id PACL then parse_as pb PACL ACL packet
     else if pid = msg_id PQueryUsers then parse_as pb PQueryUsers QueryUsers packet
     else if pid = msg_id PCryptSetup then parse_as pb PCryptSetup CryptSetup packet
     else if pid = msg_id PContextActionModify then parse_as pb PContextActionModify ContextActionModify packet
     else if pid = msg_id PContextAction then parse_as pb PContextAction ContextAction packet
     else if pid = msg_id PUserList then parse_as pb PUserList UserList packet
     else if pid = msg_id PVoiceTarget then parse_as pb PVoiceTarget VoiceTarget packet
     else if pid = msg_id PPermissionQuery then parse_as pb PPermissionQuery PermissionQuery packet
     else if pid = msg_id PCodecVersion then parse_as pb PCodecVersion CodecVersion packet
     else if pid = msg_id PUserStats then parse_as pb PUserStats UserStats packet
     else if pid = msg_id PRequestBlob then parse_as pb PRequestBlob RequestBlob packet
     else if pid = msg_id PServerConfig then parse_as pb PServerConfig ServerConfig packet
     else if pid = msg_id PSuggestConfig then parse_as pb PSuggestConfig SuggestConfig packet
     else Return (Inr (Other packet)))"

fun control_into_raw ::
    "('m, 'x) msgs_scheme \<Rightarrow> 's VoicePacketDst \<Rightarrow> ('s, 'm) ControlPacket \<Rightarrow> RawControlPacket outcome" where
  "control_into_raw pb Dst (Version inner) = raw_from_msg pb PVersion inner"
| "control_into_raw pb Dst (UDPTunnel inner) = raw_from_voice Dst inner"
| "control_into_raw pb Dst (Authenticate inner) = raw_from_msg pb PAuthenticate inner"
| "control_into_raw pb Dst (ControlPacket.Ping inner) = raw_from_msg pb PPing inner"
| "control_into_raw pb Dst (Reject inner) = raw_from_msg pb PReject inner"
| "control_into_raw pb Dst (ServerSync inner) = raw_from_msg pb PServerSync inner"
| "control_into_raw pb Dst (ChannelRemove inner) = raw_from_msg pb PChannelRemove inner"
| "control_into_raw pb Dst (ChannelState inner) = raw_from_msg pb PChannelState inner"
| "control_into_raw pb Dst (UserRemove inner) = raw_from_msg pb PUserRemove inner"
| "control_into_raw pb Dst (UserState inner) = raw_from_msg pb PUserState inner"
| "control_into_raw pb Dst (BanList inner) = raw_from_msg pb PBanList inner"
| "control_into_raw pb Dst (TextMessage inner) = raw_from_msg pb PTextMessage inner"
| "control_into_raw pb Dst (PermissionDenied inner) = raw_from_msg pb PPermissionDenied inner"
| "control_into_raw pb Dst (ACL inner) = raw_from_msg pb PACL inner"
| "control_into_raw pb Dst (QueryUsers inner) = raw_from_msg pb PQueryUsers inner"
| "control_into_raw pb Dst (CryptSetup inner) = raw_from_msg pb PCryptSetup inner"
| "control_into_raw pb Dst (ContextActionModify inner) = raw_from_msg pb PContextActionModify inner"
| "control_into_raw pb Dst (ContextAction inner) = raw_from_msg pb PContextAction inner"
| "control_into_raw pb Dst (UserList inner) = raw_from_msg pb PUserList inner"
| "control_into_raw pb Dst (VoiceTarget inner) = raw_from_msg pb PVoiceTarget inner"
| "control_into_raw pb Dst (PermissionQuery inner) = raw_from_msg pb PPermissionQuery inner"
| "control_into_raw pb Dst (CodecVersion inner) = raw_from_msg pb PCodecVersion inner"
| "control_into_raw pb Dst (UserStats inner) = raw_from_msg pb PUserStats inner"
| "control_into_raw pb Dst (RequestBlob inner) = raw_from_msg pb PRequestBlob inner"
| "control_into_raw pb Dst (ServerConfig inner) = raw_from_msg pb PServerConfig inner"
| "control_into_raw pb Dst (SuggestConfig inner) = raw_from_msg pb PSuggestConfig inner"
| "control_into_raw pb Dst (Other inner) = Return inner"

fun control_name :: "('s, 'm) ControlPacket \<Rightarrow> string" where
  "control_name (Version inner) = stringify PVersion"
| "control_name (UDPTunnel inner) = stringify PUDPTunnel"
| "control_name (Authenticate inner) = stringify PAuthenticate"
| "control_name (ControlPacket.Ping inner) = stringify PPing"
| "control_name (Reject inner) = stringify PReject"
| "control_name (ServerSync inner) = stringify PServerSync"
| "control_name (ChannelRemove inner) = stringify PChannelRemove"
| "control_name (ChannelState inner) = stringify PChannelState"
| "control_name (UserRemove inner) = stringify PUserRemove"
| "control_name (UserState inner) = stringify PUserState"
| "control_name (BanList inner) = stringify PBanList"
| "control_name (TextMessage inner) = stringify PTextMessage"
| "control_name (PermissionDenied inner) = stringify PPermissionDenied"
| "control_name (ACL inner) = stringify PACL"
| "control_name (QueryUsers inner) = stringify PQueryUsers"
| "control_name (CryptSetup inner) = stringify PCryptSetup"
| "control_name (ContextActionModify inner) = stringify PContextActionModify"
| "control_name (ContextAction inner) = stringify PContextAction"
| "control_name (UserList inner) = stringify PUserList"
| "control_name (VoiceTarget inner) = stringify PVoiceTarget"
| "control_name (PermissionQuery inner) = stringify PPermissionQuery"
| "control_name (CodecVersion inner) = stringify PCodecVersion"
| "control_name (UserStats inner) = stringify PUserStats"
| "control_name (RequestBlob inner) = stringify PRequestBlob"
| "control_name (ServerConfig inner) = stringify PServerConfig"
| "control_name (SuggestConfig inner) = stringify PSuggestConfig"
| "control_name (Other inner) = ''unknown''"

section \<open>The codec\<close>

definition control_decode ::
    "('m, 'x) msgs_scheme \<Rightarrow> 's VoicePacketDst \<Rightarrow> bytes \<Rightarrow>
      ((io_error + ('s, 'm) ControlPacket option) \<times> bytes) outcome" where
  "control_decode pb DecodeDst buf =
    (case raw_decode buf of
       (Inl e, buf) \<Rightarrow> Return (Inl e, buf)
     | (Inr None, buf) \<Rightarrow> Return (Inr None, buf)
     | (Inr (Some raw_packet), buf) \<Rightarrow>
         bind_outcome (control_try_from pb DecodeDst raw_packet) (\<lambda>r.
         Return (case r of Inl e \<Rightarrow> Inl (into_io_error pb e) | Inr packet \<Rightarrow> Inr (Some packet), buf)))"

definition control_encode ::
    "('m, 'x) msgs_scheme \<Rightarrow> 's VoicePacketDst \<Rightarrow> ('s, 'm) ControlPacket \<Rightarrow> bytes \<Rightarrow> bytes outcome" where
  "control_encode pb EncodeDst item dst =
    bind_outcome (control_into_raw pb EncodeDst item) (\<lambda>raw. Return (raw_encode raw dst))"

section \<open>Frames of the control channel\<close>

abbreviation fits_frame :: "RawControlPacket \<Rightarrow> bool" where
  "fits_frame p \<equiv> length (raw_bytes p) \<le> 0x7fffff"

lemma raw_encode_append: "raw_encode p dst = dst @ raw_encode p []"
  by (simp add: raw_encode_def Let_def)

lemma raw_frame_header:
  fixes rest body :: bytes and pid :: u16
  assumes "length body < 2 ^ 32"
  defines "buf \<equiv> be_bytes 2 pid @ be_bytes 4 (of_nat (length body) :: u32) @ body @ rest"
  shows "from_be_bytes (subslice 0 2 buf) = pid"
    and "unat (from_be_bytes (subslice 2 6 buf) :: u32) = length body"
    and "drop 6 buf = body @ rest" and "length buf = 6 + length body + length rest"
  using assms by (simp_all add: subslice_def unat_of_nat del: be_bytes_numeral)

lemma raw_decode_encode:
  assumes "fits_frame p"
  shows "raw_decode (raw_encode p [] @ rest) = (Inr (Some p), rest)"
proof -
  have "length (raw_bytes p) < 2 ^ 32" using assms by simp
  from raw_frame_header [OF this, where pid = "raw_id p" and rest = rest] assms
  show ?thesis
    by (simp add: raw_decode_def raw_encode_def Let_def drop_take del: be_bytes_numeral
        flip: drop_drop)
qed

lemma raw_decode_cases:
  "raw_decode buf =
    (if length buf < 6 then (Inr None, buf)
     else let len = unat (from_be_bytes (subslice 2 6 buf) :: u32)
          in if len > 0x7fffff then (Inl (OtherError ''packet too long''), buf)
             else if length buf < 6 + len then (Inr None, buf)
             else (Inr (Some \<lparr>raw_id = from_be_bytes (subslice 0 2 buf),
                raw_bytes = subslice 6 (6 + len) buf\<rparr>), drop (6 + len) buf))"
  by (auto simp: raw_decode_def Let_def subslice_def drop_take)

lemma subslice_append: "b \<le> length xs \<Longrightarrow> subslice a b (xs @ ys) = subslice a b xs"
  by (cases "a \<le> length xs") (auto simp: subslice_def)

interpretation raw_frames: prefix_codec fits_frame "\<lambda>p. raw_encode p []"
  "\<lambda>buf. case raw_decode buf of
     (Inl e, _) \<Rightarrow> Inl e | (Inr None, _) \<Rightarrow> Inl UnexpectedEof | (Inr (Some p), rest) \<Rightarrow> Inr (p, rest)"
  by unfold_locales (simp add: raw_decode_encode)

interpretation raw_stream: stream_decoder raw_decode
  by unfold_locales
    (auto simp: raw_decode_cases Let_def subslice_append split: if_splits)

lemma drain_raw_frames:
  assumes "list_all fits_frame ps"
  shows "drain_all raw_decode (concat (map (\<lambda>p. raw_encode p []) ps)) = Drained ps []"
  using assms
proof (induction ps)
  case Nil
  show ?case by (simp add: drain_all_def raw_decode_cases)
next
  case (Cons p ps)
  then show ?case
    by (subst raw_stream.drain_all_unfold) (simp add: raw_decode_encode)
qed

section \<open>Ids\<close>

lemma msg_ids [simp]:
  "msg_id PVersion = 0" "msg_id PUDPTunnel = 1" "msg_id PAuthenticate = 2" "msg_id PPing = 3"
  "msg_id PReject = 4" "msg_id PServerSync = 5" "msg_id PChannelRemove = 6" "msg_id PChannelState = 7"
  "msg_id PUserRemove = 8" "msg_id PUserState = 9" "msg_id PBanList = 10" "msg_id PTextMessage = 11"
  "msg_id PPermissionDenied = 12" "msg_id PACL = 13" "msg_id PQueryUsers = 14" "msg_id PCryptSetup = 15"
  "msg_id PContextActionModify = 16" "msg_id PContextAction = 17" "msg_id PUserList = 18"
  "msg_id PVoiceTarget = 19" "msg_id PPermissionQuery = 20" "msg_id PCodecVersion = 21"
  "msg_id PUserStats = 22" "msg_id PRequestBlob = 23" "msg_id PServerConfig = 24"
  "msg_id PSuggestConfig = 25"
  by (simp_all add: msg_id_def packet_names_def)

lemma msg_id_inj: "inj msg_id"
proof (rule injI)
  fix a b assume "msg_id a = msg_id b"
  then show "a = b" by (cases a) (cases b; simp)+
qed

lemma packet_names_all: "n \<in> set packet_names"
  by (cases n) (simp_all add: packet_names_def)

section \<open>Round trip of control packets\<close>

text \<open>
  The packets a Rust program can build: the payload of each variant has the message type of the
  variant, a tunneled voice packet fits the voice wire format, and \<open>Other\<close> holds an id that no
  variant has (with a known id it would be parsed as that variant).
\<close>

fun typed_packet :: "('m, 'x) msgs_scheme \<Rightarrow> ('s, 'm) ControlPacket \<Rightarrow> bool" where
  "typed_packet pb (Version m) \<longleftrightarrow> msg_type pb m = PVersion"
| "typed_packet pb (UDPTunnel v) \<longleftrightarrow> wf_voice v"
| "typed_packet pb (Authenticate m) \<longleftrightarrow> msg_type pb m = PAuthenticate"
| "typed_packet pb (ControlPacket.Ping m) \<longleftrightarrow> msg_type pb m = PPing"
| "typed_packet pb (Reject m) \<longleftrightarrow> msg_type pb m = PReject"
| "typed_packet pb (ServerSync m) \<longleftrightarrow> msg_type pb m = PServerSync"
| "typed_packet pb (ChannelRemove m) \<longleftrightarrow> msg_type pb m = PChannelRemove"
| "typed_packet pb (ChannelState m) \<longleftrightarrow> msg_type pb m = PChannelState"
| "typed_packet pb (UserRemove m) \<longleftrightarrow> msg_type pb m = PUserRemove"
| "typed_packet pb (UserState m) \<longleftrightarrow> msg_type pb m = PUserState"
| "typed_packet pb (BanList m) \<longleftrightarrow> msg_type pb m = PBanList"
| "typed_packet pb (TextMessage m) \<longleftrightarrow> msg_type pb m = PTextMessage"
| "typed_packet pb (PermissionDenied m) \<longleftrightarrow> msg_type pb m = PPermissionDenied"
| "typed_packet pb (ACL m) \<longleftrightarrow> msg_type pb m = PACL"
| "typed_packet pb (QueryUsers m) \<longleftrightarrow> msg_type pb m = PQueryUsers"
| "typed_packet pb (CryptSetup m) \<longleftrightarrow> msg_type pb m = PCryptSetup"
| "typed_packet pb (ContextActionModify m) \<longleftrightarrow> msg_type pb m = PContextActionModify"
| "typed_packet pb (ContextAction m) \<longleftrightarrow> msg_type pb m = PContextAction"
| "typed_packet pb (UserList m) \<longleftrightarrow> msg_type pb m = PUserList"
| "typed_packet pb (VoiceTarget m) \<longleftrightarrow> msg_type pb m = PVoiceTarget"
| "typed_packet pb (PermissionQuery m) \<longleftrightarrow> msg_type pb m = PPermissionQuery"
| "typed_packet pb (CodecVersion m) \<longleftrightarrow> msg_type pb m = PCodecVersion"
| "typed_packet pb (UserStats m) \<longleftrightarrow> msg_type pb m = PUserStats"
| "typed_packet pb (RequestBlob m) \<longleftrightarrow> msg_type pb m = PRequestBlob"
| "typed_packet pb (ServerConfig m) \<longleftrightarrow> msg_type pb m = PServerConfig"
| "typed_packet pb (SuggestConfig m) \<longleftrightarrow> msg_type pb m = PSuggestConfig"
| "typed_packet pb (Other raw) \<longleftrightarrow> raw_id raw \<notin> msg_id ` set packet_names"

lemma voice_try_from_bytes_returns: "\<exists>r. voice_try_from_bytes Dst bs = Return r"
proof (cases "fst (voice_decode Dst bs)")
  case (Inr it)
  with voice_decode_not_None [of Dst bs] obtain p where "it = Some p" by (cases it) auto
  with Inr show ?thesis by (simp add: voice_try_from_bytes_def)
qed (simp add: voice_try_from_bytes_def)

lemma control_try_from_by_id:
  "raw_id packet = 0 \<Longrightarrow> control_try_from pb Dst packet = parse_as pb PVersion Version packet"
  "raw_id packet = 2 \<Longrightarrow> control_try_from pb Dst packet = parse_as pb PAuthenticate Authenticate packet"
  "raw_id packet = 3 \<Longrightarrow> control_try_from pb Dst packet = parse_as pb PPing ControlPacket.Ping packet"
  "raw_id packet = 4 \<Longrightarrow> control_try_from pb Dst packet = parse_as pb PReject Reject packet"
  "raw_id packet = 5 \<Longrightarrow> control_try_from pb Dst packet = parse_as pb PServerSync ServerSync packet"
  "raw_id packet = 6 \<Longrightarrow> control_try_from pb Dst packet = parse_as pb PChannelRemove ChannelRemove packet"
  "raw_id packet = 7 \<Longrightarrow> control_try_from pb Dst packet = parse_as pb PChannelState ChannelState packet"
  "raw_id packet = 8 \<Longrightarrow> control_try_from pb Dst packet = parse_as pb PUserRemove UserRemove packet"
  "raw_id packet = 9 \<Longrightarrow> control_try_from pb Dst packet = parse_as pb PUserState UserState packet"
  "raw_id packet = 10 \<Longrightarrow> control_try_from pb Dst packet = parse_as pb PBanList BanList packet"
  "raw_id packet = 11 \<Longrightarrow> control_try_from pb Dst packet = parse_as pb PTextMessage TextMessage packet"
  "raw_id packet = 12 \<Longrightarrow> control_try_from pb Dst packet = parse_as pb PPermissionDenied PermissionDenied packet"
  "raw_id packet = 13 \<Longrightarrow> control_try_from pb Dst packet = parse_as pb PACL ACL packet"
  "raw_id packet = 14 \<Longrightarrow> control_try_from pb Dst packet = parse_as pb PQueryUsers QueryUsers packet"
  "raw_id packet = 15 \<Longrightarrow> control_try_from pb Dst packet = parse_as pb PCryptSetup CryptSetup packet"
  "raw_id packet = 16 \<Longrightarrow> control_try_from pb Dst packet = parse_as pb PContextActionModify ContextActionModify packet"
  "raw_id packet = 17 \<Longrightarrow> control_try_from pb Dst packet = parse_as pb PContextAction ContextAction packet"
  "raw_id packet = 18 \<Longrightarrow> control_try_from pb Dst packet = parse_as pb PUserList UserList packet"
  "raw_id packet = 19 \<Longrightarrow> control_try_from pb Dst packet = parse_as pb PVoiceTarget VoiceTarget packet"
  "raw_id packet = 20 \<Longrightarrow> control_try_from pb Dst packet = parse_as pb PPermissionQuery PermissionQuery packet"
  "raw_id packet = 21 \<Longrightarrow> control_try_from pb Dst packet = parse_as pb PCodecVersion CodecVersion packet"
  "raw_id packet = 22 \<Longrightarrow> control_try_from pb Dst packet = parse_as pb PUserStats UserStats packet"
  "raw_id packet = 23 \<Longrightarrow> control_try_from pb Dst packet = parse_as pb PRequestBlob RequestBlob packet"
  "raw_id packet = 24 \<Longrightarrow> control_try_from pb Dst packet = parse_as pb PServerConfig ServerConfig packet"
  "raw_id packet = 25 \<Longrightarrow> control_try_from pb Dst packet = parse_as pb PSuggestConfig SuggestConfig packet"
  by (simp_all add: control_try_from_def)

lemma control_try_from_tunnel:
  "raw_id packet = 1 \<Longrightarrow> control_try_from pb Dst packet =
    bind_outcome (voice_try_from_bytes Dst (raw_bytes packet)) (\<lambda>r.
    Return (case r of Inl e \<Rightarrow> Inl (IoError e) | Inr p \<Rightarrow> Inr (UDPTunnel p)))"
  by (simp add: control_try_from_def)

lemma control_try_from_other:
  assumes "raw_id packet \<notin> msg_id ` set packet_names"
  shows "control_try_from pb Dst packet = Return (Inr (Other packet))"
  using assms by (simp add: control_try_from_def packet_names_def Let_def)

text \<open>Parsing a raw packet and decoding a buffer never panic.\<close>

lemma control_try_from_returns: "\<exists>r. control_try_from pb Dst packet = Return r"
proof (cases "raw_id packet = 1")
  case True
  then show ?thesis
    using voice_try_from_bytes_returns [of Dst "raw_bytes packet"] by (auto simp: control_try_from_tunnel)
next
  case False
  then show ?thesis by (simp add: control_try_from_def parse_as_def Let_def)
qed

lemma control_decode_returns: "\<exists>r. control_decode pb Dst buf = Return r"
  using control_try_from_returns [of pb Dst]
  by (auto simp: control_decode_def split: sum.splits option.splits prod.splits) (metis bind_outcome_simps(1))

lemma parse_as_written:
  assumes "protobuf_ok pb" and "raw_from_msg pb name m = Return raw" and "msg_type pb m = name"
  shows "parse_as pb name ctor raw = Return (Inr (ctor m)) \<and> raw_id raw = msg_id name"
  using assms
  by (auto simp: raw_from_msg_def parse_as_def protobuf_ok_def bind_outcome_eq_Return expect_result_def
      split: sum.splits)

context voice_dst
begin

lemma raw_from_voice_eq:
  "raw_from_voice dst p = Return \<lparr>raw_id = 1, raw_bytes = voice_bytes p\<rparr>"
  by (simp add: raw_from_voice_def voice_encode_eq)

lemma voice_try_from_voice_bytes:
  "wf_voice p \<Longrightarrow> voice_try_from_bytes dst (voice_bytes p) = Return (Inr p)"
  using voice_decode_encode [of p] by (simp add: voice_try_from_bytes_def)

lemma control_try_from_into:
  assumes "protobuf_ok pb" and "typed_packet pb p" and "control_into_raw pb dst p = Return raw"
  shows "control_try_from pb dst raw = Return (Inr p)"
proof (cases p)
  case (UDPTunnel v)
  with assms show ?thesis
    by (auto simp: control_try_from_tunnel raw_from_voice_eq voice_try_from_voice_bytes)
next
  case (Other r)
  with assms(2,3) show ?thesis
    by (simp add: control_try_from_other del: image_set)
qed (use assms(2,3) in \<open>auto simp: control_try_from_by_id dest!: parse_as_written [OF assms(1)]\<close>)

end

section \<open>Streams of control packets\<close>

definition control_frames ::
    "('m, 'x) msgs_scheme \<Rightarrow> 's VoicePacketDst \<Rightarrow> bytes \<Rightarrow>
      (io_error + ('s, 'm) ControlPacket option) \<times> bytes" where
  "control_frames pb Dst buf =
    (case control_decode pb Dst buf of Return r \<Rightarrow> r | Panic m \<Rightarrow> (Inr None, buf))"

lemma control_frames_eq:
  "control_frames pb Dst buf =
    (case raw_decode buf of
       (Inl e, buf) \<Rightarrow> (Inl e, buf)
     | (Inr None, buf) \<Rightarrow> (Inr None, buf)
     | (Inr (Some raw), buf) \<Rightarrow>
         (case control_try_from pb Dst raw of
            Return (Inl e) \<Rightarrow> (Inl (into_io_error pb e), buf)
          | Return (Inr p) \<Rightarrow> (Inr (Some p), buf)
          | Panic m \<Rightarrow> (Inr None, buf)))"
proof (cases "raw_decode buf")
  case (Pair r rest)
  show ?thesis
  proof (cases "\<exists>raw. r = Inr (Some raw)")
    case True
    then obtain raw where "r = Inr (Some raw)" by blast
    with Pair control_try_from_returns [of pb Dst raw] show ?thesis
      by (auto simp: control_frames_def control_decode_def split: sum.split)
  next
    case False
    with Pair show ?thesis
      by (auto simp: control_frames_def control_decode_def split: sum.splits option.splits)
  qed
qed

lemma control_decode_Return: "control_decode pb Dst buf = Return (control_frames pb Dst buf)"
  using control_decode_returns [of pb Dst buf] by (auto simp: control_frames_def)

interpretation control_stream: stream_decoder "control_frames pb Dst"
proof
  fix buf x buf' assume "control_frames pb Dst buf = (Inr (Some x), buf')"
  then obtain raw where raw: "raw_decode buf = (Inr (Some raw), buf')"
    "control_try_from pb Dst raw = Return (Inr x)"
    by (auto simp: control_frames_eq split: prod.splits sum.splits option.splits outcome.splits)
  then show "length buf' < length buf" by (auto dest: raw_stream.dec_item_shrinks)
  show "control_frames pb Dst (buf @ c) = (Inr (Some x), buf' @ c)" for c
    using raw raw_stream.dec_item_stable [OF raw(1), of c] by (simp add: control_frames_eq)
next
  fix buf e buf' c assume err: "control_frames pb Dst buf = (Inl e, buf')"
  show "\<exists>buf''. control_frames pb Dst (buf @ c) = (Inl e, buf'')"
  proof (cases "\<exists>raw. fst (raw_decode buf) = Inr (Some raw)")
    case True
    then obtain raw rest where raw: "raw_decode buf = (Inr (Some raw), rest)"
      by (cases "raw_decode buf") auto
    with err raw_stream.dec_item_stable [OF raw, of c] show ?thesis
      by (auto simp: control_frames_eq split: outcome.splits sum.splits)
  next
    case False
    with err have "raw_decode buf = (Inl e, buf')"
      by (auto simp: control_frames_eq split: prod.splits sum.splits option.splits)
    from raw_stream.dec_error_stable [OF this, of c] show ?thesis
      by (auto simp: control_frames_eq)
  qed
next
  fix buf buf' assume "control_frames pb Dst buf = (Inr None, buf')"
  then have "raw_decode buf = (Inr None, buf')"
    using control_try_from_returns [of pb Dst]
    by (auto simp: control_frames_eq split: prod.splits sum.splits option.splits outcome.splits)
      (metis outcome.distinct(1))
  then show "buf' = buf" by (rule raw_stream.dec_wait_keeps)
qed

text \<open>Sending a list of packets: the sink encodes them one after the other into its buffer.\<close>

fun control_encode_all ::
    "('m, 'x) msgs_scheme \<Rightarrow> 's VoicePacketDst \<Rightarrow> ('s, 'm) ControlPacket list \<Rightarrow> bytes \<Rightarrow> bytes outcome" where
  "control_encode_all pb Dst [] dst = Return dst"
| "control_encode_all pb Dst (p # ps) dst =
    bind_outcome (control_encode pb Dst p dst) (control_encode_all pb Dst ps)"

definition sendable :: "('m, 'x) msgs_scheme \<Rightarrow> 's VoicePacketDst \<Rightarrow> ('s, 'm) ControlPacket \<Rightarrow> bool" where
  "sendable pb Dst p \<longleftrightarrow> typed_packet pb p \<and>
    (case control_into_raw pb Dst p of Return raw \<Rightarrow> fits_frame raw | Panic m \<Rightarrow> False)"

context voice_dst
begin

lemma control_frames_encode:
  assumes "protobuf_ok pb" and "sendable pb dst p"
  shows "\<exists>raw. control_into_raw pb dst p = Return raw \<and> fits_frame raw \<and>
    control_frames pb dst (raw_encode raw [] @ rest) = (Inr (Some p), rest)"
proof -
  obtain raw where raw: "control_into_raw pb dst p = Return raw" "fits_frame raw"
    using assms(2) by (auto simp: sendable_def split: outcome.splits)
  with assms have "control_try_from pb dst raw = Return (Inr p)"
    by (intro control_try_from_into) (auto simp: sendable_def)
  with raw show ?thesis by (simp add: control_frames_eq raw_decode_encode)
qed

lemma control_encode_all_append:
  assumes "protobuf_ok pb" and "list_all (sendable pb dst) ps"
  shows "\<exists>bs. control_encode_all pb dst ps buf = Return (buf @ bs) \<and>
    drain_all (control_frames pb dst) bs = Drained ps []"
  using assms(2)
proof (induction ps arbitrary: buf)
  case Nil
  have "control_frames pb dst [] = (Inr None, [])" by (simp add: control_frames_eq raw_decode_cases)
  then show ?case by (simp add: control_stream.drain_all_unfold)
next
  case (Cons p ps)
  then have "sendable pb dst p" by simp
  from control_frames_encode [OF assms(1) this] obtain raw where
    raw: "control_into_raw pb dst p = Return raw" "fits_frame raw"
      "\<And>rest. control_frames pb dst (raw_encode raw [] @ rest) = (Inr (Some p), rest)"
    by (metis outcome.inject(1))
  obtain bs where bs: "control_encode_all pb dst ps (buf @ raw_encode raw []) = Return ((buf @ raw_encode raw []) @ bs)"
    "drain_all (control_frames pb dst) bs = Drained ps []"
    using Cons.IH [of "buf @ raw_encode raw []"] Cons.prems by auto
  have "control_encode_all pb dst (p # ps) buf = Return (buf @ raw_encode raw [] @ bs)"
    using raw(1) bs(1) by (simp add: control_encode_def raw_encode_append [of raw buf])
  moreover have "drain_all (control_frames pb dst) (raw_encode raw [] @ bs) = Drained (p # ps) []"
    by (subst control_stream.drain_all_unfold) (simp add: raw(3) bs(2))
  ultimately show ?case by blast
qed

lemma control_stream_sent:
  assumes "protobuf_ok pb" and "list_all (sendable pb dst) ps"
    and "control_encode_all pb dst ps [] = Return (concat chunks)" and "chunks \<noteq> []"
  shows "feed (control_frames pb dst) [] chunks = Drained ps []"
  using control_encode_all_append [OF assms(1,2), of "[]"] assms(3)
    control_stream.feed_chunks [OF assms(4), of pb dst "[]"] by auto

end

lemma raw_decode_prefix_waits:
  assumes "fits_frame p" and "raw_encode p [] = pre @ missing" and "missing \<noteq> []"
  shows "raw_decode pre = (Inr None, pre)"
proof -
  have full: "raw_decode (pre @ missing) = (Inr (Some p), [])"
    using raw_decode_encode [OF assms(1), of "[]"] assms(2) by simp
  obtain r rest where d: "raw_decode pre = (r, rest)" by (cases "raw_decode pre")
  have "r = Inr None"
  proof (cases r)
    case (Inl e)
    with raw_stream.dec_error_stable [of pre e rest missing] d full show ?thesis by auto
  next
    case (Inr opt)
    with raw_stream.dec_item_stable [of pre _ rest missing] d full assms(3) show ?thesis
      by (cases opt) auto
  qed
  with d raw_stream.dec_wait_keeps [of pre rest] show ?thesis by simp
qed

lemma raw_decode_oversize:
  assumes "0x7fffff < length (raw_bytes p)" and "length (raw_bytes p) < 2 ^ 32"
  shows "raw_decode (raw_encode p [] @ rest) = (Inl (OtherError ''packet too long''), raw_encode p [] @ rest)"
  using raw_frame_header [OF assms(2), where pid = "raw_id p" and rest = rest] assms(1)
  by (simp add: raw_decode_def raw_encode_def Let_def del: be_bytes_numeral)

text \<open>The three shapes of a buffer, as bytes rather than as the tests of the decoder.\<close>

definition awaits_bytes :: "bytes \<Rightarrow> bool" where
  "awaits_bytes buf \<longleftrightarrow> length buf < 6 \<or>
    (\<exists>pid :: u16. \<exists>len :: u32. \<exists>body. buf = be_bytes 2 pid @ be_bytes 4 len @ body \<and>
       length body < unat len \<and> unat len \<le> 0x7fffff)"

definition oversized :: "bytes \<Rightarrow> bool" where
  "oversized buf \<longleftrightarrow>
    (\<exists>pid :: u16. \<exists>len :: u32. \<exists>body. buf = be_bytes 2 pid @ be_bytes 4 len @ body \<and> 0x7fffff < unat len)"

lemma frame_split:
  assumes "6 \<le> length buf"
  shows "buf = be_bytes 2 (from_be_bytes (subslice 0 2 buf) :: u16) @ be_bytes 4 (from_be_bytes (subslice 2 6 buf) :: u32) @ drop 6 buf"
  using assms append_subslice [of 0 2 6 buf] append_subslice [of 0 6 "length buf" buf]
  by (simp add: length_subslice subslice_def del: be_bytes_numeral flip: append_assoc)

lemma raw_decode_progress:
  assumes "raw_decode buf = (r, rest)"
  shows "(rest = buf \<and> r = Inr None \<and> awaits_bytes buf) \<or>
    (rest = buf \<and> r = Inl (OtherError ''packet too long'') \<and> oversized buf) \<or>
    (\<exists>raw. r = Inr (Some raw) \<and> fits_frame raw \<and> buf = raw_encode raw [] @ rest)"
proof (cases "length buf < 6")
  case True
  then show ?thesis using assms by (simp add: raw_decode_cases awaits_bytes_def)
next
  case False
  define len where "len = (from_be_bytes (subslice 2 6 buf) :: u32)"
  define pid where "pid = (from_be_bytes (subslice 0 2 buf) :: u16)"
  have buf: "buf = be_bytes 2 pid @ be_bytes 4 len @ drop 6 buf"
    using frame_split [of buf] False by (simp add: len_def pid_def del: be_bytes_numeral)
  consider "unat len > 0x7fffff" | "unat len \<le> 0x7fffff" "length buf < 6 + unat len"
    | "unat len \<le> 0x7fffff" "6 + unat len \<le> length buf" by linarith
  then show ?thesis
  proof cases
    case 1
    then have "oversized buf" using buf unfolding oversized_def by blast
    with 1 False assms show ?thesis by (simp add: raw_decode_cases flip: len_def)
  next
    case 2
    then have "awaits_bytes buf" using buf False unfolding awaits_bytes_def
      by (intro disjI2 exI [of _ pid] exI [of _ len] exI [of _ "drop 6 buf"]) auto
    with 2 False assms show ?thesis by (simp add: raw_decode_cases flip: len_def)
  next
    case 3
    define raw where "raw = \<lparr>raw_id = pid, raw_bytes = subslice 6 (6 + unat len) buf\<rparr>"
    have r: "r = Inr (Some raw)" "rest = drop (6 + unat len) buf"
      using 3 False assms by (auto simp: raw_decode_cases raw_def pid_def Let_def simp flip: len_def)
    have body: "length (raw_bytes raw) = unat len" using 3 by (simp add: raw_def length_subslice)
    have "drop 6 buf = raw_bytes raw @ rest"
      using append_subslice [of 6 "6 + unat len" "length buf" buf] 3 by (simp add: raw_def r subslice_def)
    then have "buf = raw_encode raw [] @ rest"
      using buf body by (simp add: raw_encode_def Let_def raw_def del: be_bytes_numeral)
    with r body 3 show ?thesis by simp
  qed
qed

section \<open>Properties\<close>

text \<open>
  C10. The control channel transports packets faithfully: for any list of packets that can be
  sent, the bytes which the client-side codec writes, however the connection cuts them into
  chunks, make the server-side codec yield exactly these packets in order, with nothing left
  over.
\<close>

theorem control_stream_roundtrip:
  assumes "protobuf_ok pb" and "list_all (sendable pb Serverbound) ps"
    and "control_encode_all pb Serverbound ps [] = Return (concat chunks)" and "chunks \<noteq> []"
  shows "feed (control_frames pb Serverbound) [] chunks = Drained ps []"
  using assms by (rule sb.control_stream_sent)

text \<open>A module of messages that are their own bytes, tagged with their type, for the witnesses.\<close>

definition tagged_msgs :: "(PacketName \<times> bytes) msgs" where
  "tagged_msgs = \<lparr>
     write_to_bytes = (\<lambda>(name, bs). Inr bs),
     parse_from_bytes = (\<lambda>name bs. Inr (name, bs)),
     into_io_error = (\<lambda>e. case e of IoError e \<Rightarrow> e | ProtobufFailure s \<Rightarrow> OtherError s),
     msg_type = fst\<rparr>"

lemma tagged_msgs_ok: "protobuf_ok tagged_msgs"
  by (simp add: protobuf_ok_def tagged_msgs_def split: prod.splits)

theorem control_stream_roundtrip_witness:
  "feed (control_frames tagged_msgs Serverbound) []
     [[0, 3, 0], [0, 0, 2, 8, 5, 0, 1, 0, 0, 0, 2], [0x20, 7]]
   = Drained [ControlPacket.Ping (PPing, [8, 5]), UDPTunnel (VoicePacket.Ping 7)] []"
  by (rule control_stream_roundtrip [OF tagged_msgs_ok])
    (simp_all add: sendable_def tagged_msgs_def raw_from_msg_def sb.raw_from_voice_eq sb.voice_bytes_def
      control_encode_def raw_encode_def varint_bytes_def varint_pos_bytes_def)

text \<open>
  A frame that has not arrived completely is waited for: on every proper prefix of a frame
  the raw decoder returns \<open>Ok(None)\<close> and keeps the buffer.
\<close>

theorem raw_incomplete_frame_waits:
  assumes "length (raw_bytes p) \<le> 0x7fffff" and "raw_encode p [] = pre @ missing" and "missing \<noteq> []"
  shows "raw_decode pre = (Inr None, pre)"
  using assms by (rule raw_decode_prefix_waits)

theorem raw_incomplete_frame_waits_witness:
  "raw_decode [0, 3, 0, 0, 0, 2, 8] = (Inr None, [0, 3, 0, 0, 0, 2, 8])"
  by (rule raw_incomplete_frame_waits [of "\<lparr>raw_id = 3, raw_bytes = [8, 5]\<rparr>" _ "[5]"])
    (simp_all add: raw_encode_def)

text \<open>
  The encoder does not enforce the decoder's limit: a packet of more than \<open>0x7fffff\<close> bytes
  (and less than 4 GiB) is written without error, and the decoder of the other side rejects it
  with "packet too long", keeping the buffer, so that every later call fails the same way.
\<close>

theorem raw_oversize_rejected:
  assumes "0x7fffff < length (raw_bytes p)" and "length (raw_bytes p) < 2 ^ 32"
  shows "drain (Suc n) raw_decode (raw_encode p [] @ rest) = Failed [] (OtherError ''packet too long'') \<and>
    snd (raw_decode (raw_encode p [] @ rest)) = raw_encode p [] @ rest"
  using raw_decode_oversize [OF assms, of rest] by simp

theorem raw_oversize_rejected_witness:
  "drain 1 raw_decode (raw_encode \<lparr>raw_id = 11, raw_bytes = replicate 8388608 0\<rparr> [] @ [])
     = Failed [] (OtherError ''packet too long'')"
  using raw_oversize_rejected [of "\<lparr>raw_id = 11, raw_bytes = replicate 8388608 0\<rparr>" 0 "[]"]
  by (simp del: drain.simps add: One_nat_def)

text \<open>
  The ids generated by the macro are the protocol's: the packets have the ids 0 to 25 in the
  order of the list, no two the same, and no packet lacks one.
\<close>

theorem packet_ids:
  "map msg_id packet_names = map of_nat [0..<26] \<and> inj msg_id \<and> set packet_names = UNIV"
  using msg_id_inj packet_names_all by (auto simp: packet_names_def upt_rec [of _ "numeral _"])

text \<open>
  C37. Decoding a control packet takes exactly one frame, and never panics. Either the buffer begins with a whole frame, which is
  taken off, all of its bytes and no other, and the result is that of converting the raw packet in it; or its header announces more
  than \<open>0x7fffff\<close> bytes, and the buffer stays as it is behind the error; or it ends before its first frame does, and stays as it is. The three exclude each other.
\<close>

theorem control_decode_progress:
  "\<exists>r rest. control_decode pb Dst buf = Return (r, rest) \<and>
     ((rest = buf \<and> r = Inr None \<and>
        (length buf < 6 \<or> (\<exists>pid :: u16. \<exists>len :: u32. \<exists>body. buf = be_bytes 2 pid @ be_bytes 4 len @ body \<and>
           length body < unat len \<and> unat len \<le> 0x7fffff))) \<or>
      (rest = buf \<and> r = Inl (OtherError ''packet too long'') \<and>
        (\<exists>pid :: u16. \<exists>len :: u32. \<exists>body. buf = be_bytes 2 pid @ be_bytes 4 len @ body \<and> 0x7fffff < unat len)) \<or>
      (\<exists>raw s. length (raw_bytes raw) \<le> 0x7fffff \<and>
        buf = be_bytes 2 (raw_id raw) @ be_bytes 4 (of_nat (length (raw_bytes raw)) :: u32) @ raw_bytes raw @ rest \<and>
        control_try_from pb Dst raw = Return s \<and>
        r = (case s of Inl e \<Rightarrow> Inl (into_io_error pb e) | Inr packet \<Rightarrow> Inr (Some packet))))"
proof -
  obtain r rest where d: "raw_decode buf = (r, rest)" by (cases "raw_decode buf")
  consider "rest = buf" "r = Inr None" "awaits_bytes buf"
    | "rest = buf" "r = Inl (OtherError ''packet too long'')" "oversized buf"
    | raw where "r = Inr (Some raw)" "fits_frame raw" "buf = raw_encode raw [] @ rest"
    using raw_decode_progress [OF d] by blast
  then show ?thesis
  proof cases
    case 1
    have "control_decode pb Dst buf = Return (Inr None, buf)" using d 1(1,2) by (simp add: control_decode_def)
    with 1(3) show ?thesis unfolding awaits_bytes_def by blast
  next
    case 2
    have "control_decode pb Dst buf = Return (Inl (OtherError ''packet too long''), buf)"
      using d 2(1,2) by (simp add: control_decode_def)
    with 2(3) show ?thesis unfolding oversized_def by blast
  next
    case (3 raw)
    obtain s where s: "control_try_from pb Dst raw = Return s" using control_try_from_returns by blast
    have "control_decode pb Dst buf
        = Return (case s of Inl e \<Rightarrow> Inl (into_io_error pb e) | Inr packet \<Rightarrow> Inr (Some packet), rest)"
      using d 3(1) s by (simp add: control_decode_def)
    moreover have "buf = be_bytes 2 (raw_id raw) @ be_bytes 4 (of_nat (length (raw_bytes raw)) :: u32) @ raw_bytes raw @ rest"
      using 3(3) by (simp add: raw_encode_def Let_def del: be_bytes_numeral)
    ultimately show ?thesis using 3(2) s by blast
  qed
qed

end
