(* ===== verification/Task_Routing.thy ===== *)
theory Task_Routing
  imports Routing_Table Control
begin

text \<open>
  The routing task of the server, \<open>stammer/src/task_routing.rs\<close>: it owns a copy of the routing
  table, which the control task replaces, and forwards voice and text messages to the channels of
  their recipients.

  One iteration of its loop is \<open>routing_step\<close>: the packets it sends, in order, and then either
  the next state or a panic. Sends made before a panic have happened; a send to a channel whose
  session is gone is ignored by the code and appears here as any other.

  The generated class of text messages is a parameter: \<open>server_msgs\<close> extends the module of messages
  by the accessors used.
\<close>

section \<open>The code\<close>

record 'm server_msgs = "'m msgs" +
  get_session :: "'m \<Rightarrow> u32 list"
  get_channel_id :: "'m \<Rightarrow> u32 list"
  get_actor :: "'m \<Rightarrow> u32"
  set_actor :: "'m \<Rightarrow> u32 \<Rightarrow> 'm"
  Version_new :: 'm
  set_version :: "'m \<Rightarrow> u32 \<Rightarrow> 'm"

text \<open>What the accessors do: setting the actor is read back, and leaves the recipients alone.\<close>

definition text_ok :: "('m, 'x) server_msgs_scheme \<Rightarrow> bool" where
  "text_ok tm \<longleftrightarrow> (\<forall>m a. get_actor tm (set_actor tm m a) = a \<and>
     get_session tm (set_actor tm m a) = get_session tm m \<and>
     get_channel_id tm (set_actor tm m a) = get_channel_id tm m)"

datatype ('m, 'c) RoutingMessage =
    Voice u32 "unit VoicePacket"
  | Text u32 'm
  | Update "('m, 'c) RoutingTable"
  | Shutdown

record ('m, 'c) routing_task =
  routing_table :: "('m, 'c) RoutingTable"
  routing_closed :: bool

definition routing_init :: "('m, 'c) routing_task" where
  "routing_init = \<lparr>routing_table = RoutingTable_default, routing_closed = False\<rparr>"

type_synonym ('m, 'c) delivery = "'c \<times> (u32, 'm) ControlPacket"

text \<open>
  The lazy chain of the recipients of a text message: the sessions it names, then the members of the
  rooms it names. A room is looked up when its turn comes, so the recipients before an unknown room
  are served.
\<close>

fun room_recipients ::
    "(SessionID set \<Rightarrow> SessionID list) \<Rightarrow> ('m, 'c) RoutingTable \<Rightarrow> RoomID list \<Rightarrow> 'c list \<times> unit outcome" where
  "room_recipients iter t [] = ([], Return ())"
| "room_recipients iter t (r # rs) =
    (case room_senders iter t r None of
       Panic msg \<Rightarrow> ([], Panic msg)
     | Return cs \<Rightarrow> (let (ds, res) = room_recipients iter t rs in (cs @ ds, res)))"

definition routing_step ::
    "(SessionID set \<Rightarrow> SessionID list) \<Rightarrow> ('m, 'x) server_msgs_scheme \<Rightarrow> ('m, 'c) routing_task \<Rightarrow>
      ('m, 'c) RoutingMessage \<Rightarrow> ('m, 'c) delivery list \<times> ('m, 'c) routing_task outcome" where
  "routing_step iter tm self msg =
    (case msg of
       Voice session_id voice_packet \<Rightarrow>
         (case voice_packet of
            Audio target _ seq_num payload position_info \<Rightarrow>
              (case target_senders iter (routing_table self) session_id target of
                 Panic m \<Rightarrow> ([], Panic m)
               | Return (Inl err) \<Rightarrow> ([], Return self)
               | Return (Inr peer_senders) \<Rightarrow>
                   let voice_packet = Audio target session_id seq_num payload position_info
                   in (map (\<lambda>c. (c, UDPTunnel voice_packet)) peer_senders, Return self))
          | VoicePacket.Ping _ \<Rightarrow> ([], Panic ''not implemented: audio ping not supported yet''))
     | Text session_id text_message \<Rightarrow>
         let text_message = set_actor tm text_message session_id;
             direct = List.map_filter (sender (routing_table self)) (get_session tm text_message);
             (in_rooms, res) = room_recipients iter (routing_table self) (get_channel_id tm text_message)
         in (map (\<lambda>c. (c, TextMessage text_message)) (direct @ in_rooms),
             bind_outcome res (\<lambda>_. Return self))
     | Update rtbl \<Rightarrow> ([], Return (self\<lparr>routing_table := rtbl\<rparr>))
     | Shutdown \<Rightarrow> ([], Return (self\<lparr>routing_closed := True\<rparr>)))"

text \<open>The loop, on the messages it receives.\<close>

fun routing_run ::
    "(SessionID set \<Rightarrow> SessionID list) \<Rightarrow> ('m, 'x) server_msgs_scheme \<Rightarrow> ('m, 'c) routing_task \<Rightarrow>
      ('m, 'c) RoutingMessage list \<Rightarrow> ('m, 'c) delivery list \<times> ('m, 'c) routing_task outcome" where
  "routing_run iter tm self [] = ([], Return self)"
| "routing_run iter tm self (msg # msgs) =
    (case routing_step iter tm self msg of
       (ds, Panic m) \<Rightarrow> (ds, Panic m)
     | (ds, Return self) \<Rightarrow> (let (ds', res) = routing_run iter tm self msgs in (ds @ ds', res)))"

section \<open>Recipients\<close>

text \<open>The channels of the members of a room.\<close>

definition room_channels :: "('m, 'c) RoutingTable \<Rightarrow> RoomID \<Rightarrow> 'c multiset" where
  "room_channels t r = {# the (sender t q). q \<in># mset_set {q. placement t q = Some r} #}"

context hash_iteration
begin

lemma room_senders_known:
  assumes "wf_table t" and "rooms t r \<noteq> None"
  shows "\<exists>cs. room_senders iter t r None = Return cs \<and> mset cs = room_channels t r"
proof (cases "\<exists>s. placement t s = Some r")
  case True
  then show ?thesis using room_senders_of_room [OF assms(1), of _ r None] by (auto simp: room_channels_def)
next
  case False
  obtain room where room: "rooms t r = Some room" using assms(2) by blast
  then have "members room = {s. placement t s = Some r}"
    using assms(1) by (auto simp: wf_table_def dest!: spec [of _ r])
  with False room have "rooms t r = Some \<lparr>members = {}\<rparr>" by (cases room) simp
  moreover have "iter {} = []" using iter_ok by (auto simp: iter_ok_def)
  ultimately show ?thesis using False by (simp add: room_senders_def room_channels_def map_filter_simps)
qed

lemma room_recipients_known:
  assumes "wf_table t" and "\<forall>r \<in> set rs. rooms t r \<noteq> None"
  shows "\<exists>cs. room_recipients iter t rs = (cs, Return ()) \<and> mset cs = (\<Sum>r \<leftarrow> rs. room_channels t r)"
  using assms(2)
proof (induction rs)
  case (Cons r rs)
  obtain cs where "room_senders iter t r None = Return cs" "mset cs = room_channels t r"
    using room_senders_known [OF assms(1)] Cons.prems by force
  then show ?case using Cons by fastforce
qed simp

end

lemma room_recipients_unknown:
  "r \<in> set rs \<Longrightarrow> rooms t r = None \<Longrightarrow> \<exists>ds m. room_recipients iter t rs = (ds, Panic m)"
proof (induction rs)
  case (Cons q rs)
  show ?case
  proof (cases "room_senders iter t q None")
    case (Return cs)
    with Cons.prems(2) have "q \<noteq> r" by (auto simp: room_senders_def)
    with Cons Return show ?thesis by fastforce
  qed simp
qed simp

section \<open>An instance\<close>

text \<open>Text messages as triples of an actor, sessions and rooms, and a room with two sessions.\<close>

definition triple_msgs :: "(u32 \<times> u32 list \<times> u32 list) server_msgs" where
  "triple_msgs = \<lparr>
     write_to_bytes = (\<lambda>m. Inr []), parse_from_bytes = (\<lambda>name bs. Inr (0, [], [])),
     into_io_error = (\<lambda>e. UnexpectedEof), msg_type = (\<lambda>m. PTextMessage),
     get_session = (\<lambda>(a, ss, rs). ss), get_channel_id = (\<lambda>(a, ss, rs). rs),
     get_actor = fst, set_actor = (\<lambda>(_, ss, rs) a. (a, ss, rs)),
     Version_new = (0, [], []), set_version = (\<lambda>(_, ss, rs) v. (v, ss, rs))\<rparr>"

lemma triple_msgs_simps [simp]:
  "get_session triple_msgs (a, ss, rs) = ss" "get_channel_id triple_msgs (a, ss, rs) = rs"
  "set_actor triple_msgs (a, ss, rs) b = (b, ss, rs)" "get_actor triple_msgs (a, ss, rs) = a"
  by (simp_all add: triple_msgs_def)

lemma triple_msgs_ok: "text_ok triple_msgs"
  by (auto simp: text_ok_def)

definition typed_table :: "(u32 \<times> u32 list \<times> u32 list, nat) RoutingTable" where
  "typed_table = enroll_session (enroll_session RoutingTable_default 0 (0, [], []) 10) 1 (0, [], []) 11"

lemma typed_table_ok:
  "wf_table typed_table" "sender typed_table = [0 \<mapsto> 10, 1 \<mapsto> 11]" "rooms typed_table 0 \<noteq> None"
  "placement typed_table = [0 \<mapsto> 0, 1 \<mapsto> 0]"
  by (auto simp: typed_table_def wf_enroll wf_default placement_enroll sender_enroll rooms_enroll
      split: if_splits)

definition typed_routing :: "(u32 \<times> u32 list \<times> u32 list, nat) routing_task" where
  "typed_routing = \<lparr>routing_table = typed_table, routing_closed = False\<rparr>"

lemma typed_routing_table [simp]: "routing_table typed_routing = typed_table"
  by (simp add: typed_routing_def)

lemma typed_placement: "placement typed_table 1 = Some 0"
  by (simp add: typed_table_ok)

lemma typed_peers: "{q. placement typed_table q = Some 0 \<and> q \<noteq> 1} = {0}"
  by (auto simp: typed_table_ok split: if_splits)

lemma typed_members: "{q. placement typed_table q = Some 0} = {0, 1}"
  by (auto simp: typed_table_ok split: if_splits)

section \<open>Properties\<close>

text \<open>
  Voice routing. A voice packet for target 0 from an enrolled session is sent to the channel of
  every other session of its room, once each, with the target, the sequence number, the
  payload and the position unchanged and the session id of the speaker; the state is unchanged.
\<close>

theorem voice_reaches_room:
  assumes "wf_table (routing_table self)" and "iter_ok iter" and "placement (routing_table self) s = Some r"
  shows "\<exists>ds. routing_step iter tm self (Voice s (Audio 0 () seq_num payload pos)) = (ds, Return self) \<and>
    mset ds = {# (the (sender (routing_table self) q), UDPTunnel (Audio 0 s seq_num payload pos)).
      q \<in># mset_set {q. placement (routing_table self) q = Some r \<and> q \<noteq> s} #}"
proof -
  have "hash_iteration iter" using assms(2) by unfold_locales
  from hash_iteration.target_senders_of_room [OF this assms(1,3)] show ?thesis
    by (auto simp: routing_step_def Let_def image_mset.compositionality comp_def)
qed

theorem voice_reaches_room_witness:
  "\<exists>ds. routing_step sorted_list_of_set triple_msgs typed_routing (Voice 1 (Audio 0 () 7 (Opus [1] True) None))
      = (ds, Return typed_routing) \<and>
    mset ds = {#(10, UDPTunnel (Audio 0 1 7 (Opus [1] True) None))#}"
  using voice_reaches_room [of typed_routing sorted_list_of_set 1 0 triple_msgs 7 "Opus [1] True" None]
    typed_table_ok(1,2) typed_placement typed_peers
  by (simp add: sorted_iter.iter_ok)

text \<open>
  C25. Text routing. When the rooms a text message names are known, it goes to the sessions it names
  that are enrolled and to all members of the rooms it names, as often as named; in every
  copy the actor is the session it came from, whatever actor the client wrote. The sender need
  not be enrolled itself.
\<close>

theorem text_reaches_recipients:
  assumes "wf_table (routing_table self)" and "iter_ok iter" and "text_ok tm"
    and "\<forall>r \<in> set (get_channel_id tm m). rooms (routing_table self) r \<noteq> None"
  shows "\<exists>cs. routing_step iter tm self (Text s m)
      = (map (\<lambda>c. (c, TextMessage (set_actor tm m s))) cs, Return self) \<and>
    get_actor tm (set_actor tm m s) = s \<and>
    mset cs = mset (List.map_filter (sender (routing_table self)) (get_session tm m)) +
      (\<Sum>r \<leftarrow> get_channel_id tm m. room_channels (routing_table self) r)"
proof -
  have "hash_iteration iter" using assms(2) by unfold_locales
  then obtain cs where
    "room_recipients iter (routing_table self) (get_channel_id tm m) = (cs, Return ())"
    "mset cs = (\<Sum>r \<leftarrow> get_channel_id tm m. room_channels (routing_table self) r)"
    using hash_iteration.room_recipients_known [OF _ assms(1,4)] by blast
  then show ?thesis
    using assms(3)
    by (intro exI [of _ "List.map_filter (sender (routing_table self)) (get_session tm m) @ cs"])
      (simp add: routing_step_def text_ok_def Let_def)
qed

theorem text_reaches_recipients_witness:
  "\<exists>cs. routing_step sorted_list_of_set triple_msgs typed_routing (Text 99 (1, [1, 5], [0]))
    = (map (\<lambda>c. (c, TextMessage (99, [1, 5], [0]))) cs, Return typed_routing) \<and>
    mset cs = {#10, 11, 11#}"
  using text_reaches_recipients [of typed_routing sorted_list_of_set triple_msgs "(1, [1, 5], [0])" 99]
    typed_table_ok(1-3) typed_members
  by (simp add: sorted_iter.iter_ok triple_msgs_ok room_channels_def map_filter_simps)

text \<open>
  C39. Any connected client, authenticated or not, can stop the routing task: a voice ping, a voice
  packet with a non-zero target, or a text message to a room nobody has ever been in, each makes it
  panic, whatever session it comes from and whatever the table.
\<close>

theorem routing_panics_on_client_input:
  assumes "target \<noteq> 0" and "r \<in> set (get_channel_id tm m)" and "rooms (routing_table self) r = None" and "text_ok tm"
  shows "(\<exists>e. routing_step iter tm self (Voice s (VoicePacket.Ping t)) = ([], Panic e)) \<and>
    (\<exists>e. routing_step iter tm self (Voice s (Audio target () seq_num payload pos)) = ([], Panic e)) \<and>
    (\<exists>ds e. routing_step iter tm self (Text s m) = (ds, Panic e))"
proof -
  obtain ds e where "room_recipients iter (routing_table self) (get_channel_id tm m) = (ds, Panic e)"
    using room_recipients_unknown [OF assms(2,3)] by blast
  then show ?thesis
    using assms(1,4) by (simp add: routing_step_def target_senders_def Let_def text_ok_def)
qed

definition fresh_routing :: "(u32 \<times> u32 list \<times> u32 list, nat) routing_task" where
  "fresh_routing = routing_init"

theorem routing_panics_on_client_input_witness:
  "(\<exists>e. routing_step sorted_list_of_set triple_msgs fresh_routing (Voice 3 (VoicePacket.Ping 5)) = ([], Panic e)) \<and>
   (\<exists>e. routing_step sorted_list_of_set triple_msgs fresh_routing (Voice 3 (Audio 31 () 0 (Opus [] True) None)) = ([], Panic e)) \<and>
   (\<exists>ds e. routing_step sorted_list_of_set triple_msgs fresh_routing (Text 3 (0, [], [8])) = (ds, Panic e))"
  by (rule routing_panics_on_client_input [where r = 8])
    (simp_all add: triple_msgs_ok fresh_routing_def routing_init_def RoutingTable_default_def)

end
