(* ===== verification/Task_Control.thy ===== *)
theory Task_Control
  imports Task_Routing
begin

text \<open>
  The control task of the server, \<open>stammer/src/task_control.rs\<close>: it keeps the sessions which have
  not authenticated yet and the routing table, and sends the routing task a new copy of the table
  whenever it changes.

  One iteration of its loop is \<open>control_step\<close>: the next state and the messages it sends to the
  routing task, or a panic. Whether the routing task still accepts messages is the argument
  \<open>routing_open\<close>: a failed send is a panic here, by \<open>expect\<close>. The end of the loop is
  \<open>control_end\<close>.
\<close>

section \<open>The code\<close>

record ('m, 'c) UnAuthSession =
  ua_version :: 'm
  ua_send :: 'c

datatype ('m, 'c) ControlMessage =
    Packet u32 "(unit, 'm) ControlPacket"
  | AddSession u32 "('m, 'c) UnAuthSession"
  | RemoveSession u32
  | ControlShutdown

record ('m, 'c) control_task =
  unauth :: "u32 \<rightharpoonup> ('m, 'c) UnAuthSession"
  rtbl :: "('m, 'c) RoutingTable"
  control_closed :: bool

definition control_init :: "('m, 'c) control_task" where
  "control_init = \<lparr>unauth = Map.empty, rtbl = RoutingTable_default, control_closed = False\<rparr>"

datatype packet_error = BadPacket u32 | UnknownSender u32

text \<open>\<open>USender::send(..).expect(..)\<close>: what is sent, or a panic when the receiver is closed.\<close>

definition send_expect :: "bool \<Rightarrow> 'a \<Rightarrow> string \<Rightarrow> 'a list outcome" where
  "send_expect open x msg = (if open then Return [x] else Panic msg)"

definition handle_packet ::
    "bool \<Rightarrow> u32 \<Rightarrow> (unit, 'm) ControlPacket \<Rightarrow> ('m, 'c) control_task \<Rightarrow>
      ((packet_error + unit) \<times> ('m, 'c) control_task \<times> ('m, 'c) RoutingMessage list) outcome" where
  "handle_packet routing_open session_id packet self =
    (if holds_session (rtbl self) session_id then Return (Inr (), self, [])
     else
       case unauth self session_id of
         Some unauth_session \<Rightarrow>
           let self = self\<lparr>unauth := (unauth self)(session_id := None)\<rparr>
           in (case packet of
                 Authenticate _ \<Rightarrow>
                   let self = self\<lparr>rtbl := enroll_session (rtbl self) session_id
                         (ua_version unauth_session) (ua_send unauth_session)\<rparr>
                   in bind_outcome (send_expect routing_open (Update (rtbl self))
                          ''channel closes only upon later shutdown msg'') (\<lambda>out.
                        Return (Inr (), self, out))
               | _ \<Rightarrow> Return (Inl (BadPacket session_id), self, []))
       | None \<Rightarrow> Return (Inl (UnknownSender session_id), self, []))"

definition control_step ::
    "bool \<Rightarrow> ('m, 'c) control_task \<Rightarrow> ('m, 'c) ControlMessage \<Rightarrow>
      (('m, 'c) control_task \<times> ('m, 'c) RoutingMessage list) outcome" where
  "control_step routing_open self msg =
    (case msg of
       Packet sid packet \<Rightarrow>
         bind_outcome (handle_packet routing_open sid packet self) (\<lambda>(res, self, out). Return (self, out))
     | AddSession session_id unauth_session \<Rightarrow>
         Return (self\<lparr>unauth := (unauth self)(session_id \<mapsto> unauth_session)\<rparr>, [])
     | RemoveSession session_id \<Rightarrow>
         (case unauth self session_id of
            Some _ \<Rightarrow> Return (self\<lparr>unauth := (unauth self)(session_id := None)\<rparr>, [])
          | None \<Rightarrow>
              bind_outcome (expel_session (rtbl self) session_id) (\<lambda>(res, t).
                let self = self\<lparr>rtbl := t\<rparr>
                in case res of
                     Inl err \<Rightarrow> Return (self, [])
                   | Inr _ \<Rightarrow>
                       bind_outcome (send_expect routing_open (Update (rtbl self))
                           ''routing cannot be closed yet'') (\<lambda>out. Return (self, out))))
     | ControlShutdown \<Rightarrow> Return (self\<lparr>control_closed := True\<rparr>, []))"

text \<open>The loop on the messages received, and what follows it.\<close>

fun control_run ::
    "bool \<Rightarrow> ('m, 'c) control_task \<Rightarrow> ('m, 'c) ControlMessage list \<Rightarrow>
      (('m, 'c) control_task \<times> ('m, 'c) RoutingMessage list) outcome" where
  "control_run routing_open self [] = Return (self, [])"
| "control_run routing_open self (msg # msgs) =
    bind_outcome (control_step routing_open self msg) (\<lambda>(self, out).
      bind_outcome (control_run routing_open self msgs) (\<lambda>(self, out').
        Return (self, out @ out')))"

definition control_end :: "bool \<Rightarrow> ('m, 'c) RoutingMessage list outcome" where
  "control_end routing_open = send_expect routing_open Shutdown ''routing cannot be closed yet''"

section \<open>Steps\<close>

definition is_auth :: "('s, 'm) ControlPacket \<Rightarrow> bool" where
  "is_auth p \<longleftrightarrow> (case p of Authenticate _ \<Rightarrow> True | _ \<Rightarrow> False)"

lemma case_auth: "(case p of Authenticate _ \<Rightarrow> x | _ \<Rightarrow> y) = (if is_auth p then x else y)"
  by (cases p) (simp_all add: is_auth_def)

lemma is_authE: "is_auth p \<Longrightarrow> (\<And>a. p = Authenticate a \<Longrightarrow> thesis) \<Longrightarrow> thesis"
  by (cases p) (simp_all add: is_auth_def)

lemma send_expect_open [simp]: "send_expect True x msg = Return [x]"
  by (simp add: send_expect_def)

text \<open>
  What a step does, by cases: the table is unchanged and nothing is sent, or it is the new table that
  is sent.
\<close>

lemma control_step_open:
  assumes "wf_table (rtbl self)"
  shows "\<exists>self' out. control_step True self msg = Return (self', out) \<and> wf_table (rtbl self') \<and>
    (out = [] \<and> rtbl self' = rtbl self \<or> out = [Update (rtbl self')])"
proof (cases msg)
  case (Packet sid packet)
  then show ?thesis
    using assms
    by (auto simp: control_step_def handle_packet_def holds_session_iff wf_enroll Let_def case_auth
        split: option.split)
next
  case (RemoveSession sid)
  show ?thesis
  proof (cases "placement (rtbl self) sid")
    case None
    then show ?thesis
      using assms RemoveSession sorted_iter.rt.expel_unknown [OF None]
      by (auto simp: control_step_def split: option.split)
  next
    case (Some r)
    then obtain t where "expel_session (rtbl self) sid = Return (Inr (), t)" "wf_table t"
      using sorted_iter.rt.expel_held [OF assms Some] by blast
    then show ?thesis
      using assms RemoveSession by (auto simp: control_step_def split: option.split)
  qed
qed (use assms in \<open>auto simp: control_step_def\<close>)

text \<open>The table a routing task has after receiving a sequence of messages.\<close>

fun view_after :: "('m, 'c) RoutingTable \<Rightarrow> ('m, 'c) RoutingMessage list \<Rightarrow> ('m, 'c) RoutingTable" where
  "view_after t [] = t"
| "view_after t (Update t' # msgs) = view_after t' msgs"
| "view_after t (_ # msgs) = view_after t msgs"

lemma view_after_append [simp]: "view_after t (xs @ ys) = view_after (view_after t xs) ys"
  by (induction t xs rule: view_after.induct) auto

lemma control_run_open:
  assumes "wf_table (rtbl self)"
  shows "\<exists>self' out. control_run True self msgs = Return (self', out) \<and> wf_table (rtbl self') \<and>
    view_after (rtbl self) out = rtbl self' \<and> (\<forall>m \<in> set out. \<exists>t. m = Update t \<and> wf_table t)"
  using assms
proof (induction msgs arbitrary: self)
  case (Cons msg msgs)
  obtain self1 out where step: "control_step True self msg = Return (self1, out)" "wf_table (rtbl self1)"
    "out = [] \<and> rtbl self1 = rtbl self \<or> out = [Update (rtbl self1)]"
    using control_step_open [OF Cons.prems, of msg] by blast
  obtain self2 out' where run: "control_run True self1 msgs = Return (self2, out')" "wf_table (rtbl self2)"
    "view_after (rtbl self1) out' = rtbl self2" "\<forall>m \<in> set out'. \<exists>t. m = Update t \<and> wf_table t"
    using Cons.IH [OF step(2)] by blast
  then show ?case using step by auto
qed simp

lemma routing_run_updates:
  "\<forall>m \<in> set out. \<exists>t. m = Update t \<Longrightarrow>
    routing_run iter tm r out = ([], Return (r\<lparr>routing_table := view_after (routing_table r) out\<rparr>))"
proof (induction out arbitrary: r)
  case (Cons m out)
  then obtain t where "m = Update t" by auto
  then show ?case using Cons by (simp add: routing_step_def)
qed simp

section \<open>The life of a session\<close>

text \<open>
  What the control task knows of one session: whether it waits for authentication, and whether it is
  enrolled. The specification of a step depends on the messages of that session alone.
\<close>

fun session_spec :: "u32 \<Rightarrow> ('m, 'c) ControlMessage \<Rightarrow> bool \<times> bool \<Rightarrow> bool \<times> bool" where
  "session_spec s (Packet q p) (pending, enrolled) =
    (if q \<noteq> s \<or> enrolled \<or> \<not> pending then (pending, enrolled)
     else (False, case p of Authenticate _ \<Rightarrow> True | _ \<Rightarrow> False))"
| "session_spec s (AddSession q u) (pending, enrolled) = (pending \<or> q = s, enrolled)"
| "session_spec s (RemoveSession q) (pending, enrolled) =
    (if q \<noteq> s then (pending, enrolled) else (False, pending \<and> enrolled))"
| "session_spec s ControlShutdown st = st"

definition session_status :: "('m, 'c) control_task \<Rightarrow> u32 \<Rightarrow> bool \<times> bool" where
  "session_status self s = (unauth self s \<noteq> None, holds_session (rtbl self) s)"

lemma control_init_wf: "wf_table (rtbl control_init)"
  by (simp add: control_init_def wf_default)

lemma control_init_status: "session_status control_init s = (False, False)"
  by (simp add: session_status_def control_init_def holds_session_iff)

lemma control_step_status:
  assumes "wf_table (rtbl self)" and "control_step True self msg = Return (self', out)"
  shows "session_status self' s = session_spec s msg (session_status self s)"
proof (cases msg)
  case (Packet sid packet)
  then show ?thesis
    using assms
    by (auto simp: control_step_def handle_packet_def holds_session_iff session_status_def placement_enroll
        Let_def case_auth split: option.splits if_splits)
next
  case (RemoveSession sid)
  show ?thesis
  proof (cases "unauth self sid")
    case (Some u)
    then show ?thesis using assms(2) RemoveSession by (auto simp: control_step_def session_status_def)
  next
    case None
    obtain r t where expel: "expel_session (rtbl self) sid = Return (r, t)"
      "placement t = (placement (rtbl self))(sid := None)"
      using sorted_iter.rt.expel_returns [OF assms(1), of sid] by blast
    then have "rtbl self' = t \<and> unauth self' = unauth self"
      using assms(2) RemoveSession None by (auto simp: control_step_def Let_def split: sum.splits)
    then show ?thesis
      using expel(2) None RemoveSession by (auto simp: session_status_def holds_session_iff)
  qed
qed (use assms in \<open>auto simp: control_step_def session_status_def\<close>)

lemma control_run_status:
  assumes "wf_table (rtbl self)" and "control_run True self msgs = Return (self', out)"
  shows "session_status self' s = fold (session_spec s) msgs (session_status self s)"
  using assms
proof (induction msgs arbitrary: self out)
  case (Cons msg msgs)
  obtain self1 out1 where step: "control_step True self msg = Return (self1, out1)" "wf_table (rtbl self1)"
    using control_step_open [OF Cons.prems(1), of msg] by blast
  then obtain out2 where "control_run True self1 msgs = Return (self', out2)"
    using Cons.prems(2) by (auto simp: bind_outcome_eq_Return)
  then show ?case
    using Cons.IH [OF step(2)] control_step_status [OF Cons.prems(1) step(1)] by simp
qed simp

text \<open>An enrolled session has been added and, later, has sent an \<open>Authenticate\<close> packet.\<close>

lemma pending_was_added:
  "fold (session_spec s) msgs (False, False) = (True, e) \<Longrightarrow> \<exists>u. AddSession s u \<in> set msgs"
proof (induction msgs arbitrary: e rule: rev_induct)
  case (snoc m msgs)
  obtain p e' where "fold (session_spec s) msgs (False, False) = (p, e')" by fastforce
  with snoc show ?case by (cases m) (auto split: if_splits)
qed simp

lemma enrolled_was_authenticated:
  "fold (session_spec s) msgs (False, False) = (p, True) \<Longrightarrow>
    \<exists>before a after. msgs = before @ Packet s (Authenticate a) # after \<and> (\<exists>u. AddSession s u \<in> set before)"
proof (induction msgs arbitrary: p rule: rev_induct)
  case (snoc m msgs)
  obtain p' e' where st: "fold (session_spec s) msgs (False, False) = (p', e')" by fastforce
  show ?case
  proof (cases e')
    case True
    then obtain before a after where
      "msgs = before @ Packet s (Authenticate a) # after" "\<exists>u. AddSession s u \<in> set before"
      using snoc.IH [of p'] st by auto
    then show ?thesis by (intro exI [of _ before] exI [of _ a] exI [of _ "after @ [m]"]) auto
  next
    case False
    then obtain a where "m = Packet s (Authenticate a)" and "p'"
      using snoc.prems st by (cases m) (auto simp: case_auth elim: is_authE split: if_splits)
    then show ?thesis using pending_was_added [of s msgs] st by (intro exI [of _ msgs]) auto
  qed
qed simp

section \<open>Properties\<close>

text \<open>
  C16. Routing follows control. As long as the routing task is open, the control task never panics,
  whatever messages it gets; its table stays well-formed; and a routing task that has received
  what it sent has exactly its table, having sent nothing itself.
\<close>

theorem routing_view_is_control_table:
  "\<exists>self out. control_run True control_init msgs = Return (self, out) \<and> wf_table (rtbl self) \<and>
    routing_run iter tm routing_init out = ([], Return (routing_init\<lparr>routing_table := rtbl self\<rparr>))"
proof -
  obtain self out where run: "control_run True control_init msgs = Return (self, out)" "wf_table (rtbl self)"
    "view_after (rtbl control_init) out = rtbl self" "\<forall>m \<in> set out. \<exists>t. m = Update t"
    using control_run_open [OF control_init_wf, of msgs] by blast
  then show ?thesis
    using routing_run_updates [OF run(4), of iter tm routing_init] by (simp add: routing_init_def control_init_def)
qed

text \<open>
  C17. Authentication. What the control task knows of a session after any run is what the
  messages of that session alone say: it is pending once added, enrolled when its first packet is
  \<open>Authenticate\<close>, forgotten when that packet is any other, and gone when removed. So no other
  session's messages enroll it or expel it.
\<close>

theorem control_authenticates:
  "\<exists>self out. control_run True control_init msgs = Return (self, out) \<and>
    (\<forall>s. session_status self s = fold (session_spec s) msgs (False, False))"
  using control_run_open [OF control_init_wf, of msgs] control_run_status [OF control_init_wf, of msgs]
  by (auto simp: control_init_status)

text \<open>
  Nobody is routable without authenticating: a session in the routing table has registered and
  has then sent an \<open>Authenticate\<close> packet.
\<close>

theorem enrolled_only_after_authenticate:
  assumes "control_run True control_init msgs = Return (self, out)" and "holds_session (rtbl self) s"
  shows "\<exists>before a after. msgs = before @ Packet s (Authenticate a) # after \<and>
    (\<exists>u. AddSession s u \<in> set before)"
proof -
  have "fold (session_spec s) msgs (False, False) = (unauth self s \<noteq> None, True)"
    using control_run_status [OF control_init_wf assms(1), of s] assms(2)
    by (simp add: control_init_status) (simp add: session_status_def)
  then show ?thesis by (rule enrolled_was_authenticated)
qed

theorem enrolled_only_after_authenticate_witness:
  "\<exists>before a after.
    [AddSession 4 \<lparr>ua_version = (), ua_send = 40 :: nat\<rparr>, Packet 4 (Authenticate ())]
      = before @ Packet 4 (Authenticate a) # after \<and> (\<exists>u. AddSession 4 u \<in> set before)"
  by (rule enrolled_only_after_authenticate,
      simp add: control_step_def handle_packet_def control_init_def holds_session_iff,
      simp add: holds_session_iff placement_enroll)

end
