(* ===== verification/Task_Session.thy ===== *)
theory Task_Session
  imports Task_Control
begin

text \<open>
  The session task of the server, \<open>stammer/src/task_session.rs\<close>, one per connection: the version
  exchange with the client, the registration with the control task, and the loop which
  forwards packets between the client and the other tasks and watches for the client's pings.
  The accept task, \<open>stammer/src/task_accept.rs\<close>, which numbers and starts the sessions, is at the
  end.

  An iteration of the \<open>select!\<close> loop is \<open>session_step\<close> on the event that was ready: an item of the
  client's stream, a packet of the session's own channel, or a tick of the keepalive timer, each at
  a time. The result of sending to the client, where the code sends, is part of the event. Times and
  durations are natural numbers of some unit; \<open>Instant\<close> is monotonic. A send to the control or
  routing task that fails is ignored by the code, and appears among the outputs as any other.
\<close>

section \<open>The code\<close>

record StammerConfig =
  bind_addr :: string
  session_timeout :: nat

datatype 'm exchange_error = StreamError io_error | ClientClosed | ExpectedVersion "(unit, 'm) ControlPacket"

datatype ('m, 'c) session_out =
    ToClient "(u32, 'm) ControlPacket"
  | ToControl "('m, 'c) ControlMessage"
  | ToRouting "('m, 'c) RoutingMessage"

definition server_version :: "('m, 'x) server_msgs_scheme \<Rightarrow> 'm" where
  "server_version tm = set_version tm (Version_new tm) (push_bit 16 1 OR push_bit 8 2 OR 4)"

text \<open>The result of sending our version, and then the first item of the client's stream, if any.\<close>

definition version_exchange ::
    "io_error + unit \<Rightarrow> (io_error + (unit, 'm) ControlPacket) option \<Rightarrow> 'm exchange_error + 'm" where
  "version_exchange sent received =
    (case sent of
       Inl err \<Rightarrow> Inl (StreamError err)
     | Inr _ \<Rightarrow>
         (case received of
            None \<Rightarrow> Inl ClientClosed
          | Some (Inr version_packet) \<Rightarrow>
              (case version_packet of
                 Version version \<Rightarrow> Inr version
               | packet \<Rightarrow> Inl (ExpectedVersion packet))
          | Some (Inl err) \<Rightarrow> Inl (StreamError err)))"

record session_task =
  last_ping :: nat

text \<open>
  The part before the loop. \<open>session_send\<close> is the new channel to this session, \<open>control_open\<close>
  whether the control task accepts messages, \<open>now\<close> the time when the loop begins. \<open>interval\<close>
  panics on a period of zero: the task, which runs on its own, is then gone after it has registered.
\<close>

definition session_start ::
    "StammerConfig \<Rightarrow> ('m, 'x) server_msgs_scheme \<Rightarrow> u32 \<Rightarrow> io_error + unit \<Rightarrow>
      (io_error + (unit, 'm) ControlPacket) option \<Rightarrow> 'c \<Rightarrow> bool \<Rightarrow> nat \<Rightarrow>
      ('m, 'c) session_out list \<times> session_task option" where
  "session_start stammer_cfg tm session_id sent received session_send control_open now =
    (let hello = (case sent of Inl _ \<Rightarrow> [] | Inr _ \<Rightarrow> [ToClient (Version (server_version tm))])
     in case version_exchange sent received of
          Inl err \<Rightarrow> (hello, None)
        | Inr version \<Rightarrow>
            if control_open
            then (hello @ [ToControl (AddSession session_id \<lparr>ua_version = version, ua_send = session_send\<rparr>)],
                  if session_timeout stammer_cfg = 0 then None else Some \<lparr>last_ping = now\<rparr>)
            else (hello, None))"

datatype 'm session_event =
    ClientNext "(io_error + (unit, 'm) ControlPacket) option" "io_error + unit"
  | SessionNext "(u32, 'm) ControlPacket option" "io_error + unit"
  | KeepaliveTick

definition session_step ::
    "StammerConfig \<Rightarrow> u32 \<Rightarrow> session_task \<Rightarrow> nat \<times> 'm session_event \<Rightarrow>
      ('m, 'c) session_out list \<times> session_task option" where
  "session_step stammer_cfg session_id self ev =
    (let (now, event) = ev
     in case event of
          ClientNext received sent \<Rightarrow>
            (case received of
               None \<Rightarrow> ([ToControl (RemoveSession session_id)], None)
             | Some (Inl err) \<Rightarrow> ([ToControl (RemoveSession session_id)], None)
             | Some (Inr packet) \<Rightarrow>
                 (case packet of
                    UDPTunnel voice_packet \<Rightarrow> ([ToRouting (Voice session_id voice_packet)], Some self)
                  | TextMessage text_message \<Rightarrow> ([ToRouting (Text session_id text_message)], Some self)
                  | ControlPacket.Ping ts \<Rightarrow>
                      let self = self\<lparr>last_ping := now\<rparr>
                      in (case sent of
                            Inl err \<Rightarrow> ([ToControl (RemoveSession session_id)], None)
                          | Inr _ \<Rightarrow> ([ToClient (ControlPacket.Ping ts)], Some self))
                  | packet \<Rightarrow> ([ToControl (Packet session_id packet)], Some self)))
        | SessionNext packet sent \<Rightarrow>
            (case packet of
               None \<Rightarrow> ([], None)
             | Some packet \<Rightarrow>
                 (case sent of
                    Inl err \<Rightarrow> ([ToControl (RemoveSession session_id)], None)
                  | Inr _ \<Rightarrow> ([ToClient packet], Some self)))
        | KeepaliveTick \<Rightarrow>
            let since_last = now - last_ping self
            in if since_last > session_timeout stammer_cfg
               then ([ToControl (RemoveSession session_id)], None)
               else ([], Some self))"

text \<open>The loop: the outputs, the events that are left when it has ended, and the state.\<close>

fun session_run ::
    "StammerConfig \<Rightarrow> u32 \<Rightarrow> session_task \<Rightarrow> (nat \<times> 'm session_event) list \<Rightarrow>
      ('m, 'c) session_out list \<times> (nat \<times> 'm session_event) list \<times> session_task option" where
  "session_run cfg sid self [] = ([], [], Some self)"
| "session_run cfg sid self (ev # evs) =
    (case session_step cfg sid self ev of
       (outs, None) \<Rightarrow> (outs, evs, None)
     | (outs, Some self) \<Rightarrow>
         (let (outs', rest, st) = session_run cfg sid self evs in (outs @ outs', rest, st)))"

section \<open>Steps\<close>

text \<open>A message a session sends in its own name.\<close>

fun speaks_for :: "u32 \<Rightarrow> ('m, 'c) session_out \<Rightarrow> bool" where
  "speaks_for s (ToClient p) \<longleftrightarrow> True"
| "speaks_for s (ToControl (Packet q p)) \<longleftrightarrow> q = s"
| "speaks_for s (ToControl (RemoveSession q)) \<longleftrightarrow> q = s"
| "speaks_for s (ToControl m) \<longleftrightarrow> False"
| "speaks_for s (ToRouting (Voice q p)) \<longleftrightarrow> q = s"
| "speaks_for s (ToRouting (Text q m)) \<longleftrightarrow> q = s"
| "speaks_for s (ToRouting m) \<longleftrightarrow> False"

lemma session_step_client:
  "session_step cfg sid self (now, ClientNext (Some (Inr (UDPTunnel v))) sent)
    = ([ToRouting (Voice sid v)], Some self)"
  "session_step cfg sid self (now, ClientNext (Some (Inr (TextMessage m))) sent)
    = ([ToRouting (Text sid m)], Some self)"
  "session_step cfg sid self (now, ClientNext (Some (Inr (ControlPacket.Ping ts))) (Inr u))
    = ([ToClient (ControlPacket.Ping ts)], Some (self\<lparr>last_ping := now\<rparr>))"
  "session_step cfg sid self (now, ClientNext (Some (Inr (ControlPacket.Ping ts))) (Inl e))
    = ([ToControl (RemoveSession sid)], None)"
  by (simp_all add: session_step_def)

lemma session_step_control:
  assumes "\<And>v. p \<noteq> UDPTunnel v" and "\<And>m. p \<noteq> TextMessage m" and "\<And>ts. p \<noteq> ControlPacket.Ping ts"
  shows "session_step cfg sid self (now, ClientNext (Some (Inr p)) sent) = ([ToControl (Packet sid p)], Some self)"
  using assms by (cases p) (auto simp: session_step_def)

lemma session_step_cases:
  assumes "session_step cfg sid self (now, ev) = (outs, st)"
  obtains (stop) "outs = [ToControl (RemoveSession sid)]" and "st = None"
  | (shutdown) sent where "ev = SessionNext None sent" and "outs = []" and "st = None"
  | (ping) ts u where "ev = ClientNext (Some (Inr (ControlPacket.Ping ts))) (Inr u)"
      and "outs = [ToClient (ControlPacket.Ping ts)]" and "st = Some (self\<lparr>last_ping := now\<rparr>)"
  | (forward) "st = Some self" and "list_all (speaks_for sid) outs"
      and "ToControl (RemoveSession sid) \<notin> set outs"
      and "\<And>ts u. ev \<noteq> ClientNext (Some (Inr (ControlPacket.Ping ts))) (Inr u)"
      and "ev = KeepaliveTick \<Longrightarrow> now \<le> last_ping self + session_timeout cfg"
proof (cases ev)
  case (ClientNext received sent)
  consider (ended) "received = None \<or> (\<exists>e. received = Some (Inl e))"
    | (voice) v where "received = Some (Inr (UDPTunnel v))"
    | (written) m where "received = Some (Inr (TextMessage m))"
    | (ping) ts where "received = Some (Inr (ControlPacket.Ping ts))"
    | (other) p where "received = Some (Inr p)" and "\<And>v. p \<noteq> UDPTunnel v" and "\<And>m. p \<noteq> TextMessage m"
        and "\<And>ts. p \<noteq> ControlPacket.Ping ts"
    by (metis option.exhaust sum.exhaust)
  then show ?thesis
  proof cases
    case ended
    with ClientNext assms show ?thesis by (intro stop) (auto simp: session_step_def)
  next
    case voice
    with ClientNext assms show ?thesis by (intro forward) (auto simp: session_step_client)
  next
    case written
    with ClientNext assms show ?thesis by (intro forward) (auto simp: session_step_client)
  next
    case (ping ts)
    with ClientNext assms that(1,3) show ?thesis by (cases sent) (auto simp: session_step_client)
  next
    case (other p)
    with ClientNext assms show ?thesis by (intro forward) (auto simp: session_step_control)
  qed
next
  case (SessionNext p sent)
  then show ?thesis
    using assms that by (cases p; cases sent) (auto simp: session_step_def)
next
  case KeepaliveTick
  then show ?thesis
    using assms stop forward by (auto simp: session_step_def Let_def split: if_splits)
qed

section \<open>Runs of a session\<close>

lemma session_run_speaks:
  fixes outs :: "('m, 'c) session_out list"
  shows "session_run cfg sid self evs = (outs, rest, st) \<Longrightarrow> list_all (speaks_for sid) outs"
proof (induction evs arbitrary: self outs)
  case (Cons ev evs)
  obtain now e st1 and outs1 :: "('m, 'c) session_out list" where ev: "ev = (now, e)" "session_step cfg sid self (now, e) = (outs1, st1)"
    by (metis surj_pair)
  have "list_all (speaks_for sid) outs1" using ev(2) by (cases rule: session_step_cases) auto
  with Cons ev show ?case by (auto split: option.splits prod.splits)
qed simp

text \<open>How a run ends, and what it has told the control task then.\<close>

lemma session_run_ends:
  fixes outs :: "('m, 'c) session_out list"
  assumes "session_run cfg sid self evs = (outs, rest, st)"
  shows "\<exists>seen. evs = seen @ rest \<and>
    (case st of
       Some self' \<Rightarrow> rest = [] \<and> ToControl (RemoveSession sid) \<notin> set outs
     | None \<Rightarrow> seen \<noteq> [] \<and>
         ((\<exists>t sent. last seen = (t, SessionNext None sent)) \<and> ToControl (RemoveSession sid) \<notin> set outs \<or>
          (\<exists>outs'. outs = outs' @ [ToControl (RemoveSession sid)] \<and> ToControl (RemoveSession sid) \<notin> set outs')))"
  using assms
proof (induction evs arbitrary: self outs)
  case (Cons ev evs)
  obtain now e st1 and outs1 :: "('m, 'c) session_out list" where ev: "ev = (now, e)" "session_step cfg sid self (now, e) = (outs1, st1)"
    by (metis surj_pair)
  show ?case
  proof (cases st1)
    case None
    then have "outs = outs1" "rest = evs" "st = None" using Cons.prems ev by auto
    with ev None show ?thesis
      by (cases rule: session_step_cases [OF ev(2)]) (auto intro!: exI [of _ "[ev]"])
  next
    case (Some self1)
    then obtain outs2 where run: "session_run cfg sid self1 evs = (outs2, rest, st)" "outs = outs1 @ outs2"
      using Cons.prems ev by (auto split: prod.splits)
    have "ToControl (RemoveSession sid) \<notin> set outs1"
      using Some by (cases rule: session_step_cases [OF ev(2)]) auto
    moreover obtain seen where "evs = seen @ rest" and
      "case st of
         Some self' \<Rightarrow> rest = [] \<and> ToControl (RemoveSession sid) \<notin> set outs2
       | None \<Rightarrow> seen \<noteq> [] \<and>
         ((\<exists>t sent. last seen = (t, SessionNext None sent)) \<and> ToControl (RemoveSession sid) \<notin> set outs2 \<or>
          (\<exists>outs'. outs2 = outs' @ [ToControl (RemoveSession sid)] \<and> ToControl (RemoveSession sid) \<notin> set outs'))"
      using Cons.IH [OF run(1)] by blast
    ultimately show ?thesis
      using run(2) by (intro exI [of _ "ev # seen"]) (auto split: option.splits)
  qed
qed auto

text \<open>Events which by themselves do not end a session, and those which count as a sign of life.\<close>

definition benign :: "nat \<times> 'm session_event \<Rightarrow> bool" where
  "benign ev \<longleftrightarrow>
    (case snd ev of
       ClientNext (Some (Inr p)) (Inr u) \<Rightarrow> True
     | SessionNext (Some p) (Inr u) \<Rightarrow> True
     | KeepaliveTick \<Rightarrow> True
     | _ \<Rightarrow> False)"

definition is_ping :: "nat \<times> 'm session_event \<Rightarrow> bool" where
  "is_ping ev \<longleftrightarrow> (case snd ev of
      ClientNext (Some (Inr p)) sent \<Rightarrow> (case p of ControlPacket.Ping ts \<Rightarrow> True | _ \<Rightarrow> False)
    | _ \<Rightarrow> False)"

lemma session_step_benign:
  assumes "benign (now, e)" and "e = KeepaliveTick \<Longrightarrow> now \<le> last_ping self + session_timeout cfg"
  shows "\<exists>outs. session_step cfg sid self (now, e)
    = (outs, Some (if is_ping (now, e) then self\<lparr>last_ping := now\<rparr> else self))"
proof (cases e)
  case (ClientNext received sent)
  then obtain p u where e: "e = ClientNext (Some (Inr p)) (Inr u)"
    using assms(1) by (auto simp: benign_def split: option.splits sum.splits)
  then show ?thesis by (cases p) (simp_all add: session_step_def is_ping_def)
next
  case (SessionNext p sent)
  then show ?thesis
    using assms(1) by (auto simp: benign_def is_ping_def session_step_def split: option.splits sum.splits)
next
  case KeepaliveTick
  then show ?thesis using assms(2) by (simp add: session_step_def is_ping_def)
qed

lemma session_run_survives:
  fixes evs :: "(nat \<times> 'm session_event) list"
  assumes "\<forall>ev \<in> set evs. benign ev \<and> last_ping self \<le> fst ev" and "sorted (map fst evs)"
    and "\<forall>i < length evs. snd (evs ! i) = KeepaliveTick \<longrightarrow>
      fst (evs ! i) \<le> last_ping self + session_timeout cfg \<or>
      (\<exists>j < i. is_ping (evs ! j) \<and> fst (evs ! i) \<le> fst (evs ! j) + session_timeout cfg)"
  shows "\<exists>outs :: ('m, 'c) session_out list. \<exists>self'. session_run cfg sid self evs = (outs, [], Some self')"
  using assms
proof (induction evs arbitrary: self)
  case (Cons ev evs)
  obtain now e where ev: "ev = (now, e)" by fastforce
  define self1 where "self1 = (if is_ping ev then self\<lparr>last_ping := now\<rparr> else self)"
  have "e = KeepaliveTick \<Longrightarrow> now \<le> last_ping self + session_timeout cfg"
    using Cons.prems(3) [rule_format, of 0] ev by simp
  then obtain outs1 :: "('m, 'c) session_out list" where
    step: "session_step cfg sid self ev = (outs1, Some self1)"
    using session_step_benign [of now e self cfg sid] Cons.prems(1) ev by (auto simp: self1_def)
  have "fst (evs ! i) \<le> last_ping self1 + session_timeout cfg \<or>
      (\<exists>j < i. is_ping (evs ! j) \<and> fst (evs ! i) \<le> fst (evs ! j) + session_timeout cfg)"
    if "i < length evs" and "snd (evs ! i) = KeepaliveTick" for i
    using Cons.prems(3) [rule_format, of "Suc i"] that Cons.prems(1) ev
    by (auto simp: self1_def less_Suc_eq_0_disj)
  moreover have "\<forall>ev \<in> set evs. benign ev \<and> last_ping self1 \<le> fst ev"
    using Cons.prems(1,2) ev by (auto simp: self1_def)
  ultimately obtain outs2 :: "('m, 'c) session_out list" and self' where
    "session_run cfg sid self1 evs = (outs2, [], Some self')"
    using Cons.IH [of self1] Cons.prems(2) by auto
  with step show ?case by simp
qed simp

lemma session_run_dropped:
  fixes evs :: "(nat \<times> 'm session_event) list"
  assumes "\<forall>ev \<in> set evs. \<not> is_ping ev" and "(now, KeepaliveTick) \<in> set evs"
    and "last_ping self + session_timeout cfg < now"
    and "session_run cfg sid self evs = (outs :: ('m, 'c) session_out list, rest, st)"
  shows "st = None"
  using assms
proof (induction evs arbitrary: outs)
  case (Cons ev evs)
  obtain t e st1 and outs1 :: "('m, 'c) session_out list" where ev: "ev = (t, e)"
    and step: "session_step cfg sid self (t, e) = (outs1, st1)" by (metis surj_pair)
  from step show ?case
  proof (cases rule: session_step_cases)
    case ping
    then show ?thesis using Cons.prems(1) ev by (auto simp: is_ping_def)
  next
    case forward
    moreover have "ev \<noteq> (now, KeepaliveTick)" using forward(5) Cons.prems(3) ev by auto
    ultimately show ?thesis using Cons step ev by (auto split: prod.splits)
  qed (use Cons.prems(4) step ev in auto)
qed simp

section \<open>The accept task\<close>

text \<open>
  \<open>run_accept_task\<close> pushes a session task per connection, the id being the number of tasks
  before; the vector of tasks is the list of their ids. It goes on until it is told to stop or
  the listener fails, and then shuts the control task down.
\<close>

datatype accept_event = StopNotified | ListenerNext "(io_error + unit) option"

definition accept_step :: "u32 list \<Rightarrow> accept_event \<Rightarrow> (u32 list \<times> bool) outcome" where
  "accept_step session_ids event =
    (case event of
       StopNotified \<Rightarrow> Return (session_ids, False)
     | ListenerNext None \<Rightarrow> Panic ''internal error: entered unreachable code: bound listener stream never ends''
     | ListenerNext (Some (Inl err)) \<Rightarrow> Return (session_ids, False)
     | ListenerNext (Some (Inr tcp_stream)) \<Rightarrow>
         let session_id = of_nat (length session_ids)
         in Return (session_ids @ [session_id], True))"

fun accept_run :: "u32 list \<Rightarrow> accept_event list \<Rightarrow> (u32 list \<times> bool) outcome" where
  "accept_run session_ids [] = Return (session_ids, True)"
| "accept_run session_ids (ev # evs) =
    bind_outcome (accept_step session_ids ev) (\<lambda>(session_ids, go_on).
      if go_on then accept_run session_ids evs else Return (session_ids, False))"

definition accept_end :: "bool \<Rightarrow> ('m, 'c) ControlMessage list outcome" where
  "accept_end control_open = send_expect control_open ControlShutdown ''control cannot be closed yet''"

lemma accept_run_ids:
  "accept_run (map of_nat [0..<n]) evs = Return (ids, b) \<Longrightarrow> \<exists>m. ids = map of_nat [0..<m] \<and> n \<le> m"
proof (induction evs arbitrary: n)
  case (Cons ev evs)
  show ?case
  proof (cases "ev = ListenerNext (Some (Inr ()))")
    case True
    then have "accept_run (map of_nat [0..<Suc n]) evs = Return (ids, b)"
      using Cons.prems by (simp add: accept_step_def)
    then show ?thesis using Cons.IH [of "Suc n"] by fastforce
  next
    case False
    then show ?thesis
      using Cons.prems by (auto simp: accept_step_def split: accept_event.splits option.splits sum.splits)
  qed
qed auto

lemma distinct_word_of_nat: "distinct (map (of_nat :: nat \<Rightarrow> u32) [0..<m]) \<longleftrightarrow> m \<le> 2 ^ 32"
proof
  assume d: "distinct (map (of_nat :: nat \<Rightarrow> u32) [0..<m])"
  show "m \<le> 2 ^ 32"
  proof (rule ccontr)
    assume "\<not> m \<le> 2 ^ 32"
    then have m: "0 < m" "2 ^ 32 < m" by simp_all
    have "(of_nat 0 :: u32) = of_nat (2 ^ 32)" by simp
    with d m show False
      using nth_eq_iff_index_eq [OF d, of 0 "2 ^ 32"] by simp
  qed
next
  assume "m \<le> 2 ^ 32"
  then show "distinct (map (of_nat :: nat \<Rightarrow> u32) [0..<m])"
    by (auto simp: distinct_map intro!: inj_onI dest!: word_of_nat_eq_iff [THEN iffD1]
        simp: take_bit_nat_eq_self)
qed

section \<open>Properties\<close>

text \<open>
  C26. A session speaks only in its own name, and leaves a trace when it goes. Whatever the events,
  every control message, voice packet and text it forwards carries its own id; its loop ends either
  on the graceful closing of its channel, without deregistering, or with the
  \<open>RemoveSession\<close> of its own id as the last thing it says, said once.
\<close>

theorem session_speaks_and_deregisters:
  assumes "session_run cfg sid self evs = (outs, rest, st)"
  shows "list_all (speaks_for sid) outs \<and> (\<exists>seen. evs = seen @ rest \<and>
    (case st of
       Some self' \<Rightarrow> rest = [] \<and> ToControl (RemoveSession sid) \<notin> set outs
     | None \<Rightarrow> seen \<noteq> [] \<and>
         ((\<exists>t sent. last seen = (t, SessionNext None sent)) \<and> ToControl (RemoveSession sid) \<notin> set outs \<or>
          (\<exists>outs'. outs = outs' @ [ToControl (RemoveSession sid)] \<and> ToControl (RemoveSession sid) \<notin> set outs'))))"
  using session_run_speaks [OF assms] session_run_ends [OF assms] by simp

theorem session_speaks_and_deregisters_witness:
  "list_all (speaks_for 3) [ToRouting (Voice 3 (VoicePacket.Ping 1)), ToControl (RemoveSession 3)]"
proof -
  have "session_run \<lparr>bind_addr = [], session_timeout = 30\<rparr> 3 \<lparr>last_ping = 0\<rparr>
      [(1, ClientNext (Some (Inr (UDPTunnel (VoicePacket.Ping 1)))) (Inr ())), (2, ClientNext None (Inr ()))]
    = ([ToRouting (Voice 3 (VoicePacket.Ping 1)), ToControl (RemoveSession 3)], [], None)"
    by (simp add: session_step_def)
  from session_speaks_and_deregisters [OF this] show ?thesis by (rule conjunct1)
qed

text \<open>
  C29. A silent client is dropped within two timeouts: if no ping comes after the last one, and the
  timer, started at \<open>t0\<close>, ticks every timeout, the loop has ended by the last tick
  not later than two timeouts after that ping.
\<close>

theorem session_silent_dropped:
  assumes "0 < session_timeout cfg" and "t0 \<le> last_ping self + 2 * session_timeout cfg"
    and "\<forall>ev \<in> set evs. \<not> is_ping ev"
    and "\<forall>k. t0 + k * session_timeout cfg \<le> last_ping self + 2 * session_timeout cfg \<longrightarrow>
      (t0 + k * session_timeout cfg, KeepaliveTick) \<in> set evs"
    and "session_run cfg sid self evs = (outs, rest, st)"
  shows "st = None"
proof -
  define T where "T = session_timeout cfg"
  define k where "k = (last_ping self + 2 * T - t0) div T"
  have "k * T \<le> last_ping self + 2 * T - t0" unfolding k_def by simp
  moreover have "last_ping self + 2 * T - t0 < k * T + T"
    using assms(1) unfolding k_def T_def
    by (metis add.commute div_mult_mod_eq mod_less_divisor nat_add_left_cancel_less)
  ultimately have "t0 + k * T \<le> last_ping self + 2 * T" "last_ping self + T < t0 + k * T"
    using assms(2) T_def by linarith+
  with assms(4) have "(t0 + k * T, KeepaliveTick) \<in> set evs" "last_ping self + session_timeout cfg < t0 + k * T"
    by (simp_all add: T_def)
  then show ?thesis using assms(3,5) session_run_dropped by blast
qed

lemma triple_collapse: "x = (fst x, fst (snd x), snd (snd x))"
  by simp

theorem session_silent_dropped_witness:
  "snd (snd (session_run \<lparr>bind_addr = [], session_timeout = 30\<rparr> 3 \<lparr>last_ping = 1\<rparr>
     [(1, KeepaliveTick), (31, KeepaliveTick), (61, KeepaliveTick)])) = None"
proof (rule session_silent_dropped [where ?t0.0 = 1, OF _ _ _ _ triple_collapse])
  show "\<forall>k. 1 + k * session_timeout \<lparr>bind_addr = [], session_timeout = 30\<rparr>
      \<le> last_ping \<lparr>last_ping = 1\<rparr> + 2 * session_timeout \<lparr>bind_addr = [], session_timeout = 30\<rparr> \<longrightarrow>
    (1 + k * session_timeout \<lparr>bind_addr = [], session_timeout = 30\<rparr>, KeepaliveTick)
      \<in> set [(1, KeepaliveTick), (31, KeepaliveTick), (61, KeepaliveTick)]"
    by (auto simp: le_Suc_eq numeral_2_eq_2)
qed (simp_all add: is_ping_def)

text \<open>
  C40. Session ids. In any run of the accept task, the ids it has given out are all different exactly
  as long as it has accepted at most \<open>2^32\<close> connections; the next one gets the id of the first.
\<close>

theorem session_ids_unique:
  assumes "accept_run [] evs = Return (ids, b)"
  shows "distinct ids \<longleftrightarrow> length ids \<le> 2 ^ 32"
proof -
  obtain m where ids: "ids = map of_nat [0..<m]" using accept_run_ids [of 0 evs ids b] assms by auto
  show ?thesis unfolding ids distinct_word_of_nat by simp
qed

theorem session_ids_unique_witness:
  "distinct [0, 1 :: u32] \<longleftrightarrow> length [0, 1 :: u32] \<le> 2 ^ 32"
  by (rule session_ids_unique [of "[ListenerNext (Some (Inr ())), ListenerNext (Some (Inr ())), StopNotified]" _ False])
    (simp add: accept_step_def)

end
