(* ===== verification/Server.thy ===== *)
theory Server
  imports Task_Session
begin

text \<open>
  The server as a whole, \<open>run_stammer_task\<close> of \<open>stammer/src/lib.rs\<close>: the accept task, the session
  tasks, the control task and the routing task, running concurrently and connected by unbounded
  channels. The state holds the tasks' states and the channels' contents; a step is one iteration of
  one task's loop, so that a run is any interleaving of them, with any clients and any timing.

  A session is known by the number of its connection, which also stands for its channel; \<open>inbox\<close> is what waits
  in its channel, \<open>sent_to\<close> what the session task has written to its client's stream. A label
  tells what clients and the listener do: a trace of labels is the outside view of a run. A panic of the accept, the control or the routing
  task stops everything, as these are joined in one; it is the flag \<open>crashed\<close>. Session tasks are spawned: one that panics, which it
  does on a timeout of 0 only, takes just itself down, as an unwinding build does.
\<close>

section \<open>State\<close>

record 'm server =
  session_ids :: "u32 list"
  stopping :: bool
  handshaking :: "nat set"
  live :: "nat \<rightharpoonup> session_task"
  inbox :: "nat \<Rightarrow> (u32, 'm) ControlPacket list"
  sent_to :: "nat \<Rightarrow> (u32, 'm) ControlPacket list"
  control_queue :: "('m, nat) ControlMessage list"
  control :: "('m, nat) control_task"
  control_done :: bool
  routing_queue :: "('m, nat) RoutingMessage list"
  routing :: "('m, nat) routing_task"
  routing_done :: bool
  crashed :: bool

definition server_init :: "'m server" where
  "server_init = \<lparr>session_ids = [], stopping = False, handshaking = {}, live = Map.empty, inbox = (\<lambda>_. []), sent_to = (\<lambda>_. []),
     control_queue = [], control = control_init, control_done = False,
     routing_queue = [], routing = routing_init, routing_done = False, crashed = False\<rparr>"

text \<open>Sending on the channels: a closed receiver refuses.\<close>

definition to_control :: "('m, nat) ControlMessage \<Rightarrow> 'm server \<Rightarrow> 'm server" where
  "to_control m s = (if control_closed (control s) then s else s\<lparr>control_queue := control_queue s @ [m]\<rparr>)"

definition to_routing :: "('m, nat) RoutingMessage \<Rightarrow> 'm server \<Rightarrow> 'm server" where
  "to_routing m s = (if routing_closed (routing s) then s else s\<lparr>routing_queue := routing_queue s @ [m]\<rparr>)"

fun post :: "nat \<Rightarrow> ('m, nat) session_out list \<Rightarrow> 'm server \<Rightarrow> 'm server" where
  "post n [] s = s"
| "post n (ToClient p # outs) s = post n outs (s\<lparr>sent_to := (sent_to s)(n := sent_to s n @ [p])\<rparr>)"
| "post n (ToControl m # outs) s = post n outs (to_control m s)"
| "post n (ToRouting m # outs) s = post n outs (to_routing m s)"

fun deliver :: "('m, nat) delivery list \<Rightarrow> 'm server \<Rightarrow> 'm server" where
  "deliver [] s = s"
| "deliver ((n, p) # ds) s =
    deliver ds (if live s n = None then s else s\<lparr>inbox := (inbox s)(n := inbox s n @ [p])\<rparr>)"

text \<open>The tables that are about: those of the two tasks, and the copies under way.\<close>

definition tables :: "'m server \<Rightarrow> ('m, nat) RoutingTable set" where
  "tables s = insert (rtbl (control s)) (insert (routing_table (routing s)) {t. Update t \<in> set (routing_queue s)})"

text \<open>Whether a sender of a session's channel still exists.\<close>

definition channel_held :: "'m server \<Rightarrow> nat \<Rightarrow> bool" where
  "channel_held s n \<longleftrightarrow>
    (\<exists>q u. AddSession q u \<in> set (control_queue s) \<and> ua_send u = n) \<or>
    \<not> control_done s \<and> (n \<in> ua_send ` ran (unauth (control s)) \<or> n \<in> ran (sender (rtbl (control s)))) \<or>
    \<not> routing_done s \<and> n \<in> ran (sender (routing_table (routing s))) \<or>
    (\<exists>t. Update t \<in> set (routing_queue s) \<and> n \<in> ran (sender t))"

section \<open>Steps\<close>

datatype 'm label =
    Connected nat
  | ClientSent nat "(unit, 'm) ControlPacket"
  | ClientOverflow nat bytes nat
  | ListenerFailed io_error
  | ListenerEnded
  | Internal

text \<open>What the outside sees of an event of the accept task; the notification of \<open>stop\<close> comes from within the process.\<close>

fun accept_label :: "u32 list \<Rightarrow> accept_event \<Rightarrow> 'm label" where
  "accept_label ids StopNotified = Internal"
| "accept_label ids (ListenerNext None) = ListenerEnded"
| "accept_label ids (ListenerNext (Some (Inl err))) = ListenerFailed err"
| "accept_label ids (ListenerNext (Some (Inr tcp_stream))) = Connected (length ids)"

text \<open>The event a session task handles, with the rest of its inbox, and what the outside sees.\<close>

fun event_ok :: "'m server \<Rightarrow> nat \<Rightarrow> 'm session_event \<Rightarrow> (u32, 'm) ControlPacket list \<Rightarrow> bool" where
  "event_ok s n (ClientNext r sent) rest \<longleftrightarrow> rest = inbox s n"
| "event_ok s n (SessionNext (Some p) sent) rest \<longleftrightarrow> inbox s n = p # rest"
| "event_ok s n (SessionNext None sent) rest \<longleftrightarrow> inbox s n = [] \<and> rest = [] \<and> \<not> channel_held s n"
| "event_ok s n KeepaliveTick rest \<longleftrightarrow> rest = inbox s n"

fun event_label :: "nat \<Rightarrow> 'm session_event \<Rightarrow> 'm label" where
  "event_label n (ClientNext (Some (Inr p)) sent) = ClientSent n p"
| "event_label n ev = Internal"

text \<open>
  \<open>overflow\<close> is the one way in which decoding brings the server down (\<open>control_decode\<close> does not panic): a tunnelled voice packet of
  bytes \<open>bs\<close>, whose varints nest more calls than the \<open>frames\<close> there is room for on the stack of the thread.
\<close>

inductive server_step ::
    "StammerConfig \<Rightarrow> (SessionID set \<Rightarrow> SessionID list) \<Rightarrow> 'm server_msgs \<Rightarrow>
      'm server \<Rightarrow> 'm label \<Rightarrow> 'm server \<Rightarrow> bool"
  for cfg iter tm where
  connect:
    "\<not> crashed s \<Longrightarrow> \<not> stopping s \<Longrightarrow>
     accept_step (session_ids s) ev = Return (ids, True) \<Longrightarrow>
     server_step cfg iter tm s (accept_label (session_ids s) ev)
       (s\<lparr>session_ids := ids, handshaking := insert (length (session_ids s)) (handshaking s)\<rparr>)"
| stop:
    "\<not> crashed s \<Longrightarrow> \<not> stopping s \<Longrightarrow> accept_step (session_ids s) ev = Return (ids, False) \<Longrightarrow>
     accept_end (\<not> control_closed (control s)) = Return [m] \<Longrightarrow>
     server_step cfg iter tm s (accept_label (session_ids s) ev) (to_control m (s\<lparr>stopping := True\<rparr>))"
| accept_panic:
    "\<not> crashed s \<Longrightarrow> \<not> stopping s \<Longrightarrow> accept_step (session_ids s) ev = Panic e \<Longrightarrow>
     server_step cfg iter tm s (accept_label (session_ids s) ev) (s\<lparr>crashed := True\<rparr>)"
| stop_panic:
    "\<not> crashed s \<Longrightarrow> \<not> stopping s \<Longrightarrow> accept_step (session_ids s) ev = Return (ids, False) \<Longrightarrow>
     (accept_end (\<not> control_closed (control s)) :: ('m, nat) ControlMessage list outcome) = Panic e \<Longrightarrow>
     server_step cfg iter tm s (accept_label (session_ids s) ev) (s\<lparr>crashed := True\<rparr>)"
| overflow:
    "\<not> crashed s \<Longrightarrow> n \<in> handshaking s \<or> live s n \<noteq> None \<Longrightarrow> 0 < frames \<Longrightarrow> frames < serverbound_nesting bs \<Longrightarrow>
     server_step cfg iter tm s (ClientOverflow n bs frames) (s\<lparr>crashed := True\<rparr>)"
| start:
    "\<not> crashed s \<Longrightarrow> n \<in> handshaking s \<Longrightarrow>
     session_start cfg tm (session_ids s ! n) sent received n (\<not> control_closed (control s)) now = (outs, st) \<Longrightarrow>
     server_step cfg iter tm s (event_label n (ClientNext received sent))
       (post n outs (s\<lparr>handshaking := handshaking s - {n}, live := (live s)(n := st)\<rparr>))"
| session:
    "\<not> crashed s \<Longrightarrow> live s n = Some self \<Longrightarrow> event_ok s n ev rest \<Longrightarrow>
     session_step cfg (session_ids s ! n) self (now, ev) = (outs, st) \<Longrightarrow>
     server_step cfg iter tm s (event_label n ev)
       (post n outs (s\<lparr>inbox := (inbox s)(n := rest), live := (live s)(n := st)\<rparr>))"
| control:
    "\<not> crashed s \<Longrightarrow> \<not> control_done s \<Longrightarrow> control_queue s = m # q \<Longrightarrow>
     control_step (\<not> routing_closed (routing s)) (control s) m = Return (c, out) \<Longrightarrow>
     server_step cfg iter tm s Internal
       (s\<lparr>control_queue := q, control := c, routing_queue := routing_queue s @ out\<rparr>)"
| control_panic:
    "\<not> crashed s \<Longrightarrow> \<not> control_done s \<Longrightarrow> control_queue s = m # q \<Longrightarrow>
     control_step (\<not> routing_closed (routing s)) (control s) m = Panic e \<Longrightarrow>
     server_step cfg iter tm s Internal (s\<lparr>crashed := True\<rparr>)"
| control_stops:
    "\<not> crashed s \<Longrightarrow> \<not> control_done s \<Longrightarrow> control_queue s = [] \<Longrightarrow> control_closed (control s) \<Longrightarrow>
     control_end (\<not> routing_closed (routing s)) = Return out \<Longrightarrow>
     server_step cfg iter tm s Internal (s\<lparr>control_done := True, routing_queue := routing_queue s @ out\<rparr>)"
| control_stop_panic:
    "\<not> crashed s \<Longrightarrow> \<not> control_done s \<Longrightarrow> control_queue s = [] \<Longrightarrow> control_closed (control s) \<Longrightarrow>
     (control_end (\<not> routing_closed (routing s)) :: ('m, nat) RoutingMessage list outcome) = Panic e \<Longrightarrow>
     server_step cfg iter tm s Internal (s\<lparr>crashed := True\<rparr>)"
| routing:
    "\<not> crashed s \<Longrightarrow> \<not> routing_done s \<Longrightarrow> routing_queue s = m # q \<Longrightarrow>
     routing_step iter tm (routing s) m = (ds, Return r) \<Longrightarrow>
     server_step cfg iter tm s Internal (deliver ds (s\<lparr>routing_queue := q, routing := r\<rparr>))"
| routing_panic:
    "\<not> crashed s \<Longrightarrow> \<not> routing_done s \<Longrightarrow> routing_queue s = m # q \<Longrightarrow>
     routing_step iter tm (routing s) m = (ds, Panic e) \<Longrightarrow>
     server_step cfg iter tm s Internal (deliver ds (s\<lparr>routing_queue := q, crashed := True\<rparr>))"
| routing_stops:
    "\<not> crashed s \<Longrightarrow> \<not> routing_done s \<Longrightarrow> routing_queue s = [] \<Longrightarrow> routing_closed (routing s) \<Longrightarrow>
     server_step cfg iter tm s Internal (s\<lparr>routing_done := True\<rparr>)"

inductive server_run ::
    "StammerConfig \<Rightarrow> (SessionID set \<Rightarrow> SessionID list) \<Rightarrow> 'm server_msgs \<Rightarrow>
      'm label list \<Rightarrow> 'm server \<Rightarrow> bool"
  for cfg iter tm where
  init: "server_run cfg iter tm [] server_init"
| step: "server_run cfg iter tm tr s \<Longrightarrow> server_step cfg iter tm s l s' \<Longrightarrow> server_run cfg iter tm (tr @ [l]) s'"

section \<open>Effects of the helpers\<close>

definition control_msgs :: "('m, 'c) session_out list \<Rightarrow> ('m, 'c) ControlMessage list" where
  "control_msgs outs = List.map_filter (\<lambda>x. case x of ToControl m \<Rightarrow> Some m | _ \<Rightarrow> None) outs"

definition routing_msgs :: "('m, 'c) session_out list \<Rightarrow> ('m, 'c) RoutingMessage list" where
  "routing_msgs outs = List.map_filter (\<lambda>x. case x of ToRouting m \<Rightarrow> Some m | _ \<Rightarrow> None) outs"

lemma set_control_msgs: "set (control_msgs outs) = {m. ToControl m \<in> set outs}"
  by (induction outs) (auto simp: control_msgs_def map_filter_simps split: session_out.splits)

lemma set_routing_msgs: "set (routing_msgs outs) = {m. ToRouting m \<in> set outs}"
  by (induction outs) (auto simp: routing_msgs_def map_filter_simps split: session_out.splits)

definition client_msgs_of :: "('m, 'c) session_out list \<Rightarrow> (u32, 'm) ControlPacket list" where
  "client_msgs_of outs = List.map_filter (\<lambda>x. case x of ToClient p \<Rightarrow> Some p | _ \<Rightarrow> None) outs"

lemma set_client_msgs_of: "set (client_msgs_of outs) = {p. ToClient p \<in> set outs}"
  by (induction outs) (auto simp: client_msgs_of_def map_filter_simps split: session_out.splits)

lemma post_eq:
  "post n outs s = s\<lparr>
     sent_to := (sent_to s)(n := sent_to s n @ client_msgs_of outs),
     control_queue := control_queue s @ (if control_closed (control s) then [] else control_msgs outs),
     routing_queue := routing_queue s @ (if routing_closed (routing s) then [] else routing_msgs outs)\<rparr>"
proof (induction n outs s rule: post.induct)
  case (1 n s)
  then show ?case by (simp add: control_msgs_def routing_msgs_def client_msgs_of_def map_filter_simps)
qed (auto simp: to_control_def to_routing_def control_msgs_def routing_msgs_def client_msgs_of_def map_filter_simps
    cong: if_cong)

lemma deliver_eq:
  "\<exists>ib. deliver ds s = s\<lparr>inbox := ib\<rparr> \<and> (\<forall>n. set (ib n) \<subseteq> set (inbox s n) \<union> {p. (n, p) \<in> set ds})"
proof (induction ds arbitrary: s)
  case Nil
  then show ?case by (intro exI [of _ "inbox s"]) simp
next
  case (Cons d ds)
  obtain n p where d: "d = (n, p)" by fastforce
  define s1 where "s1 = (if live s n = None then s else s\<lparr>inbox := (inbox s)(n := inbox s n @ [p])\<rparr>)"
  obtain ib where ib: "deliver ds s1 = s1\<lparr>inbox := ib\<rparr>"
    "\<forall>k. set (ib k) \<subseteq> set (inbox s1 k) \<union> {p. (k, p) \<in> set ds}"
    using Cons.IH by blast
  have "set (ib k) \<subseteq> set (inbox s k) \<union> {p. (k, p) \<in> set (d # ds)}" for k
    using ib(2) [rule_format, of k] by (auto simp: s1_def d split: if_splits)
  moreover have "deliver (d # ds) s = s\<lparr>inbox := ib\<rparr>"
    using ib(1) by (simp add: d s1_def split: if_splits)
  ultimately show ?case by blast
qed

lemma accept_more:
  "accept_step ids ev = Return (ids', True) \<Longrightarrow> ids' = ids @ [of_nat (length ids)] \<and> ev = ListenerNext (Some (Inr ()))"
  by (auto simp: accept_step_def split: accept_event.splits option.splits sum.splits)

lemma accept_stops:
  "accept_step ids ev = Return (ids', False) \<Longrightarrow> ev = StopNotified \<or> (\<exists>err. ev = ListenerNext (Some (Inl err)))"
  by (auto simp: accept_step_def split: accept_event.splits option.splits sum.splits)

lemma accept_panics: "accept_step ids ev = Panic e \<Longrightarrow> ev = ListenerNext None"
  by (auto simp: accept_step_def split: accept_event.splits option.splits sum.splits)

text \<open>What a session task sends, and what it got from its client for it.\<close>

lemma session_step_origin:
  assumes "session_step cfg sid self (now, ev) = (outs, st)"
  shows "ToControl m \<in> set outs \<Longrightarrow>
      m = RemoveSession sid \<or> (\<exists>p. m = Packet sid p \<and> event_label n ev = ClientSent n p)"
    and "ToRouting r \<in> set outs \<Longrightarrow>
      (\<exists>v. r = Voice sid v \<and> event_label n ev = ClientSent n (UDPTunnel v)) \<or>
      (\<exists>x. r = Text sid x \<and> event_label n ev = ClientSent n (TextMessage x))"
proof -
  have "(ToControl m \<in> set outs \<longrightarrow>
      m = RemoveSession sid \<or> (\<exists>p. m = Packet sid p \<and> event_label n ev = ClientSent n p)) \<and>
    (ToRouting r \<in> set outs \<longrightarrow>
      (\<exists>v. r = Voice sid v \<and> event_label n ev = ClientSent n (UDPTunnel v)) \<or>
      (\<exists>x. r = Text sid x \<and> event_label n ev = ClientSent n (TextMessage x)))"
  proof (cases "\<exists>p sent. ev = ClientNext (Some (Inr p)) sent")
    case True
    then obtain p sent where ev: "ev = ClientNext (Some (Inr p)) sent" by blast
    show ?thesis
    proof (cases "(\<exists>v. p = UDPTunnel v) \<or> (\<exists>m. p = TextMessage m) \<or> (\<exists>ts. p = ControlPacket.Ping ts)")
      case True
      then show ?thesis using assms ev by (cases sent) (auto simp: session_step_client)
    next
      case False
      then show ?thesis using assms ev by (auto simp: session_step_control)
    qed
  next
    case False
    then show ?thesis
      using assms
      by (auto simp: session_step_def Let_def split: session_event.splits option.splits sum.splits if_splits)
  qed
  then show "ToControl m \<in> set outs \<Longrightarrow>
      m = RemoveSession sid \<or> (\<exists>p. m = Packet sid p \<and> event_label n ev = ClientSent n p)"
    and "ToRouting r \<in> set outs \<Longrightarrow>
      (\<exists>v. r = Voice sid v \<and> event_label n ev = ClientSent n (UDPTunnel v)) \<or>
      (\<exists>x. r = Text sid x \<and> event_label n ev = ClientSent n (TextMessage x))"
    by blast+
qed

lemma session_start_outs:
  assumes "session_start cfg tm sid sent received c open now = (outs, st)"
  shows "ToControl m \<in> set outs \<Longrightarrow> \<exists>v. m = AddSession sid \<lparr>ua_version = v, ua_send = c\<rparr>"
    and "ToRouting r \<notin> set outs"
    and "ToClient p \<in> set outs \<Longrightarrow> \<exists>m. p = Version m"
  using assms by (auto simp: session_start_def Let_def split: sum.splits if_splits)

lemma session_step_to_client:
  assumes "session_step cfg sid self (now, ev) = (outs, st)" and "ToClient p \<in> set outs"
  shows "(\<exists>m. p = ControlPacket.Ping m) \<or> (\<exists>sent. ev = SessionNext (Some p) sent)"
proof (cases "\<exists>p sent. ev = ClientNext (Some (Inr p)) sent")
  case True
  then obtain p' sent where ev: "ev = ClientNext (Some (Inr p')) sent" by blast
  show ?thesis
  proof (cases "(\<exists>v. p' = UDPTunnel v) \<or> (\<exists>m. p' = TextMessage m) \<or> (\<exists>ts. p' = ControlPacket.Ping ts)")
    case True
    then show ?thesis using assms ev by (cases sent) (auto simp: session_step_client)
  next
    case False
    then show ?thesis using assms ev by (auto simp: session_step_control)
  qed
next
  case False
  then show ?thesis
    using assms
    by (auto simp: session_step_def Let_def split: session_event.splits option.splits sum.splits if_splits)
qed

section \<open>The tables agree\<close>

text \<open>
  Every table is well-formed; the routing task, once it has read its queue, has the table of the
  control task; and it is told to stop only after the control task has stopped.
\<close>

definition table_inv :: "'m server \<Rightarrow> bool" where
  "table_inv s \<longleftrightarrow> (\<forall>t \<in> tables s. wf_table t) \<and>
    view_after (routing_table (routing s)) (routing_queue s) = rtbl (control s) \<and>
    (routing_closed (routing s) \<or> Shutdown \<in> set (routing_queue s) \<longrightarrow> control_done s)"

lemma view_after_no_update: "\<forall>t. Update t \<notin> set msgs \<Longrightarrow> view_after t msgs = t"
  by (induction t msgs rule: view_after.induct) auto

lemma table_inv_post:
  assumes "table_inv s" and "\<And>r. ToRouting r \<in> set outs \<Longrightarrow> (\<exists>q v. r = Voice q v) \<or> (\<exists>q x. r = Text q x)"
  shows "table_inv (post n outs s)"
proof -
  have "\<forall>t. Update t \<notin> set (routing_msgs outs)" "Shutdown \<notin> set (routing_msgs outs)"
    using assms(2) by (auto simp: set_routing_msgs)
  with assms(1) show ?thesis
    by (auto simp: table_inv_def tables_def post_eq view_after_no_update)
qed

lemma table_inv_deliver: "table_inv s \<Longrightarrow> table_inv (deliver ds s)"
  using deliver_eq [of ds s] by (auto simp: table_inv_def tables_def)

text \<open>Steps that leave the tables and the queues of the routing task alone.\<close>

lemma table_inv_cong:
  assumes "table_inv s" and "control s' = control s" and "routing s' = routing s"
    and "routing_queue s' = routing_queue s" and "control_done s' = control_done s"
  shows "table_inv s'"
  using assms by (simp add: table_inv_def tables_def)

lemma table_inv_control:
  assumes "table_inv s" and "\<not> control_done s"
  shows "\<exists>c out. control_step (\<not> routing_closed (routing s)) (control s) m = Return (c, out) \<and>
    table_inv (s\<lparr>control_queue := q, control := c, routing_queue := routing_queue s @ out\<rparr>)"
proof -
  have wf: "wf_table (rtbl (control s))" and "\<not> routing_closed (routing s)"
    using assms by (auto simp: table_inv_def tables_def)
  moreover obtain c out where "control_step True (control s) m = Return (c, out)" "wf_table (rtbl c)"
    "out = [] \<and> rtbl c = rtbl (control s) \<or> out = [Update (rtbl c)]"
    using control_step_open [OF wf, of m] by blast
  ultimately show ?thesis
    using assms by (auto simp: table_inv_def tables_def)
qed

lemma routing_step_table:
  assumes "routing_step iter tm r m = (ds, res)"
  shows "case res of
      Return r' \<Rightarrow> routing_table r' = view_after (routing_table r) [m] \<and>
        (routing_closed r' \<longleftrightarrow> routing_closed r \<or> m = Shutdown)
    | Panic e \<Rightarrow> (\<exists>q v. m = Voice q v) \<or> (\<exists>q x. m = Text q x)"
  using assms
  by (cases m) (auto simp: routing_step_def Let_def bind_outcome_def
      split: VoicePacket.splits outcome.splits sum.splits prod.splits)

lemma table_inv_routing:
  assumes "table_inv s" and "routing_queue s = m # q" and "routing_step iter tm (routing s) m = (ds, Return r)"
  shows "table_inv (s\<lparr>routing_queue := q, routing := r\<rparr>)"
proof -
  have r: "routing_table r = view_after (routing_table (routing s)) [m]"
    "routing_closed r \<longleftrightarrow> routing_closed (routing s) \<or> m = Shutdown"
    using routing_step_table [OF assms(3)] by auto
  have "view_after (routing_table r) q = view_after (routing_table (routing s)) ([m] @ q)"
    by (simp only: view_after_append r(1))
  moreover have "routing_table r \<in> tables s"
    using r(1) assms(2) by (cases m) (auto simp: tables_def)
  ultimately show ?thesis
    using assms(1,2) r(2) by (auto simp: table_inv_def tables_def)
qed

lemma table_inv_routing_panic:
  assumes "table_inv s" and "routing_queue s = m # q" and "routing_step iter tm (routing s) m = (ds, Panic e)"
  shows "table_inv (s\<lparr>routing_queue := q, crashed := True\<rparr>)"
  using assms(1,2) routing_step_table [OF assms(3)] by (auto simp: table_inv_def tables_def)

lemma table_inv_step:
  assumes "server_step cfg iter tm s l s'" and "table_inv s"
  shows "table_inv s'"
  using assms
proof (cases rule: server_step.cases)
  case (stop ev ids m)
  then show ?thesis using assms(2) by (auto simp: to_control_def intro: table_inv_cong)
next
  case (start n sent received now outs st)
  have "table_inv (s\<lparr>handshaking := handshaking s - {n}, live := (live s)(n := st)\<rparr>)"
    using assms(2) by (auto intro: table_inv_cong)
  then show ?thesis
    unfolding start(2) using session_start_outs(2) [OF start(5)] by (intro table_inv_post) auto
next
  case (session n self ev rest now outs st)
  have "table_inv (s\<lparr>inbox := (inbox s)(n := rest), live := (live s)(n := st)\<rparr>)"
    using assms(2) by (auto intro: table_inv_cong)
  then show ?thesis
    unfolding session(2) using session_step_origin(2) [OF session(6)] by (intro table_inv_post) blast+
next
  case (control m q c out)
  then show ?thesis using table_inv_control [OF assms(2), of m q] by auto
next
  case (control_stops out)
  then show ?thesis
    using assms(2) by (auto simp: control_end_def send_expect_def table_inv_def tables_def split: if_splits)
next
  case (routing m q ds r)
  then show ?thesis using assms(2) by (auto intro!: table_inv_deliver table_inv_routing)
next
  case (routing_panic m q ds e)
  then show ?thesis using assms(2) by (auto intro!: table_inv_deliver table_inv_routing_panic)
qed (auto intro: table_inv_cong)

lemma table_inv_init: "table_inv server_init"
  by (simp add: table_inv_def tables_def server_init_def control_init_def routing_init_def wf_default)

lemma table_inv_run: "server_run cfg iter tm tr s \<Longrightarrow> table_inv s"
  by (induction rule: server_run.induct) (auto intro: table_inv_init table_inv_step)

section \<open>What reaches a client\<close>

text \<open>
  In a trace: the client of connection \<open>n\<close> has authenticated; a session id stands for one of the
  first \<open>N\<close> connections, and its client has sent a packet; a packet in the inbox of
  \<open>n\<close> is a relayed one.
\<close>

definition authed :: "'m label list \<Rightarrow> nat \<Rightarrow> bool" where
  "authed tr n \<longleftrightarrow> (\<exists>a. ClientSent n (Authenticate a) \<in> set tr)"

definition origin :: "'m label list \<Rightarrow> nat \<Rightarrow> u32 \<Rightarrow> (unit, 'm) ControlPacket \<Rightarrow> bool" where
  "origin tr N q p \<longleftrightarrow> (\<exists>k < N. q = of_nat k \<and> ClientSent k p \<in> set tr)"

definition relayed :: "'m server_msgs \<Rightarrow> 'm label list \<Rightarrow> nat \<Rightarrow> nat \<Rightarrow> (u32, 'm) ControlPacket \<Rightarrow> bool" where
  "relayed tm tr N n p \<longleftrightarrow> authed tr n \<and>
    ((\<exists>q seq_num payload pos. p = UDPTunnel (Audio 0 q seq_num payload pos) \<and> q \<noteq> of_nat n \<and>
        origin tr N q (UDPTunnel (Audio 0 () seq_num payload pos))) \<or>
     (\<exists>q m. p = TextMessage (set_actor tm m q) \<and> origin tr N q (TextMessage m)))"

definition written :: "'m server_msgs \<Rightarrow> 'm label list \<Rightarrow> nat \<Rightarrow> nat \<Rightarrow> (u32, 'm) ControlPacket \<Rightarrow> bool" where
  "written tm tr N n p \<longleftrightarrow> (\<exists>m. p = Version m) \<or> (\<exists>m. p = ControlPacket.Ping m) \<or> relayed tm tr N n p"

definition senders_ok :: "'m label list \<Rightarrow> nat \<Rightarrow> ('m, nat) RoutingTable \<Rightarrow> bool" where
  "senders_ok tr N t \<longleftrightarrow> (\<forall>q n. sender t q = Some n \<longrightarrow> n < N \<and> q = of_nat n \<and> authed tr n)"

definition unauth_ok :: "nat \<Rightarrow> u32 \<Rightarrow> ('m, nat) UnAuthSession \<Rightarrow> bool" where
  "unauth_ok N q u \<longleftrightarrow> ua_send u < N \<and> q = of_nat (ua_send u)"

fun control_msg_ok :: "'m label list \<Rightarrow> nat \<Rightarrow> ('m, nat) ControlMessage \<Rightarrow> bool" where
  "control_msg_ok tr N (AddSession q u) \<longleftrightarrow> unauth_ok N q u"
| "control_msg_ok tr N (Packet q p) \<longleftrightarrow> origin tr N q p"
| "control_msg_ok tr N _ \<longleftrightarrow> True"

fun routing_msg_ok :: "'m label list \<Rightarrow> nat \<Rightarrow> ('m, nat) RoutingMessage \<Rightarrow> bool" where
  "routing_msg_ok tr N (Voice q v) \<longleftrightarrow> origin tr N q (UDPTunnel v)"
| "routing_msg_ok tr N (Text q m) \<longleftrightarrow> origin tr N q (TextMessage m)"
| "routing_msg_ok tr N (Update t) \<longleftrightarrow> senders_ok tr N t"
| "routing_msg_ok tr N Shutdown \<longleftrightarrow> True"

definition relay_inv :: "'m server_msgs \<Rightarrow> 'm label list \<Rightarrow> 'm server \<Rightarrow> bool" where
  "relay_inv tm tr s \<longleftrightarrow>
    (let N = length (session_ids s)
     in session_ids s = map of_nat [0..<N] \<and> handshaking s \<subseteq> {..<N} \<and> dom (live s) \<subseteq> {..<N} \<and>
        (\<forall>q u. unauth (control s) q = Some u \<longrightarrow> unauth_ok N q u) \<and>
        senders_ok tr N (rtbl (control s)) \<and> senders_ok tr N (routing_table (routing s)) \<and>
        list_all (control_msg_ok tr N) (control_queue s) \<and>
        list_all (routing_msg_ok tr N) (routing_queue s) \<and>
        (\<forall>n. list_all (relayed tm tr N n) (inbox s n)) \<and>
        (\<forall>n. list_all (written tm tr N n) (sent_to s n)))"

lemma origin_mono:
  assumes "origin tr N q p" and "set tr \<subseteq> set tr'" and "N \<le> N'"
  shows "origin tr' N' q p"
proof -
  obtain k where "k < N" "q = of_nat k" "ClientSent k p \<in> set tr" using assms(1) by (auto simp: origin_def)
  with assms(2,3) show ?thesis unfolding origin_def by (intro exI [of _ k]) auto
qed

lemma authed_mono: "authed tr n \<Longrightarrow> set tr \<subseteq> set tr' \<Longrightarrow> authed tr' n"
  by (auto simp: authed_def)

lemma relayed_mono: "relayed tm tr N n p \<Longrightarrow> set tr \<subseteq> set tr' \<Longrightarrow> N \<le> N' \<Longrightarrow> relayed tm tr' N' n p"
  unfolding relayed_def by (blast intro: origin_mono authed_mono)

lemma written_mono: "written tm tr N n p \<Longrightarrow> set tr \<subseteq> set tr' \<Longrightarrow> N \<le> N' \<Longrightarrow> written tm tr' N' n p"
  unfolding written_def by (blast intro: relayed_mono)

lemma senders_ok_mono: "senders_ok tr N t \<Longrightarrow> set tr \<subseteq> set tr' \<Longrightarrow> N \<le> N' \<Longrightarrow> senders_ok tr' N' t"
  unfolding senders_ok_def by (meson authed_mono order_less_le_trans)

lemma unauth_ok_mono: "unauth_ok N q u \<Longrightarrow> N \<le> N' \<Longrightarrow> unauth_ok N' q u"
  by (simp add: unauth_ok_def)

lemma control_msg_ok_mono:
  "control_msg_ok tr N m \<Longrightarrow> set tr \<subseteq> set tr' \<Longrightarrow> N \<le> N' \<Longrightarrow> control_msg_ok tr' N' m"
  by (cases m) (auto intro: origin_mono unauth_ok_mono)

lemma routing_msg_ok_mono:
  "routing_msg_ok tr N m \<Longrightarrow> set tr \<subseteq> set tr' \<Longrightarrow> N \<le> N' \<Longrightarrow> routing_msg_ok tr' N' m"
  by (cases m) (auto intro: origin_mono senders_ok_mono)

lemmas relay_mono = relayed_mono written_mono senders_ok_mono control_msg_ok_mono routing_msg_ok_mono

lemma relay_inv_mono:
  assumes "relay_inv tm tr s" and "set tr \<subseteq> set tr'"
  shows "relay_inv tm tr' s"
  using assms(1) relay_mono [OF _ assms(2) order_refl]
  by (auto simp: relay_inv_def Let_def list_all_iff)

lemma relay_inv_post:
  assumes "relay_inv tm tr s"
    and "\<And>m. ToControl m \<in> set outs \<Longrightarrow> control_msg_ok tr (length (session_ids s)) m"
    and "\<And>m. ToRouting m \<in> set outs \<Longrightarrow> routing_msg_ok tr (length (session_ids s)) m"
    and "\<And>p. ToClient p \<in> set outs \<Longrightarrow> written tm tr (length (session_ids s)) n p"
  shows "relay_inv tm tr (post n outs s)"
proof -
  have "list_all (written tm tr (length (session_ids s)) n) (client_msgs_of outs)"
    using assms(4) by (auto simp: list_all_iff set_client_msgs_of)
  moreover
  have "list_all (control_msg_ok tr (length (session_ids s))) (control_msgs outs)"
    "list_all (routing_msg_ok tr (length (session_ids s))) (routing_msgs outs)"
    using assms(2,3) by (auto simp: list_all_iff set_control_msgs set_routing_msgs)
  ultimately show ?thesis using assms(1) by (simp add: relay_inv_def Let_def post_eq)
qed

lemma relay_inv_deliver:
  assumes "relay_inv tm tr s" and "\<And>n p. (n, p) \<in> set ds \<Longrightarrow> relayed tm tr (length (session_ids s)) n p"
  shows "relay_inv tm tr (deliver ds s)"
proof -
  obtain ib where "deliver ds s = s\<lparr>inbox := ib\<rparr>" "\<forall>n. set (ib n) \<subseteq> set (inbox s n) \<union> {p. (n, p) \<in> set ds}"
    using deliver_eq by blast
  with assms show ?thesis by (fastforce simp: relay_inv_def Let_def list_all_iff)
qed

text \<open>The control task enrolls a session on its own client's packet.\<close>

lemma word_of_nat_eqD: "(of_nat a :: u32) = of_nat b \<Longrightarrow> a < N \<Longrightarrow> b < N \<Longrightarrow> N \<le> 2 ^ 32 \<Longrightarrow> a = b"
  by (simp add: word_of_nat_eq_iff take_bit_nat_eq_self)

lemma relay_control_step:
  assumes "\<forall>q u. unauth c q = Some u \<longrightarrow> unauth_ok N q u" and "senders_ok tr N (rtbl c)"
    and "control_msg_ok tr N m" and "N \<le> 2 ^ 32" and "wf_table (rtbl c)"
    and "control_step True c m = Return (c', out)"
  shows "(\<forall>q u. unauth c' q = Some u \<longrightarrow> unauth_ok N q u) \<and> senders_ok tr N (rtbl c')"
proof (cases m)
  case (Packet q p)
  show ?thesis
  proof (cases "holds_session (rtbl c) q \<or> unauth c q = None \<or> \<not> is_auth p")
    case True
    then show ?thesis
      using assms(1,2,6) Packet
      by (auto simp: control_step_def handle_packet_def case_auth split: option.splits if_splits)
  next
    case False
    then obtain u a where u: "unauth c q = Some u" and a: "p = Authenticate a"
      by (auto elim: is_authE)
    obtain k where k: "k < N" "q = of_nat k" "ClientSent k (Authenticate a) \<in> set tr"
      using assms(3) Packet a by (auto simp: origin_def)
    have "ua_send u < N" "q = of_nat (ua_send u)" using assms(1) u by (auto simp: unauth_ok_def)
    then have "ua_send u = k" using k assms(4) by (intro word_of_nat_eqD) auto
    moreover have "rtbl c' = enroll_session (rtbl c) q (ua_version u) (ua_send u)" "unauth c' = (unauth c)(q := None)"
      using assms(6) Packet a u False by (auto simp: control_step_def handle_packet_def Let_def)
    ultimately show ?thesis
      using assms(1,2) k by (auto simp: senders_ok_def sender_enroll authed_def)
  qed
next
  case (RemoveSession q)
  show ?thesis
  proof (cases "unauth c q = None \<and> placement (rtbl c) q \<noteq> None")
    case True
    then obtain r where r: "placement (rtbl c) q = Some r" by blast
    obtain t where "expel_session (rtbl c) q = Return (Inr (), t)" "sender t = (sender (rtbl c))(q := None)"
      using sorted_iter.rt.expel_held [OF assms(5) r] by blast
    then show ?thesis
      using assms(1,2,6) RemoveSession True by (auto simp: control_step_def Let_def senders_ok_def split: if_splits)
  next
    case False
    then show ?thesis
      using assms(1,2,6) RemoveSession sorted_iter.rt.expel_unknown [of "rtbl c" q]
      by (auto simp: control_step_def split: option.splits if_splits)
  qed
qed (use assms in \<open>auto simp: control_step_def split: if_splits\<close>)

text \<open>The routing task forwards to others' channels only.\<close>

lemma in_map_filter: "n \<in> set (List.map_filter f xs) \<longleftrightarrow> (\<exists>x \<in> set xs. f x = Some n)"
  by (induction xs) (auto simp: map_filter_simps split: option.splits)

lemma room_senders_from_table:
  assumes "room_senders iter t r x = Return cs" and "n \<in> set cs"
  shows "\<exists>q. x \<noteq> Some q \<and> sender t q = Some n"
proof -
  obtain room :: Room where "cs = List.map_filter (\<lambda>q. if x = Some q then None else sender t q) (iter (members room))"
    using assms(1) by (auto simp: room_senders_def bind_outcome_eq_Return)
  with assms(2) show ?thesis by (auto simp: in_map_filter split: if_splits)
qed

lemma room_recipients_from_table:
  "room_recipients iter t rs = (cs, res) \<Longrightarrow> n \<in> set cs \<Longrightarrow> \<exists>q. sender t q = Some n"
proof (induction rs arbitrary: cs)
  case (Cons r rs)
  then show ?case
    by (auto split: outcome.splits prod.splits dest!: room_senders_from_table)
qed simp

lemma relay_routing_step:
  assumes "senders_ok tr N (routing_table r)" and "routing_msg_ok tr N m"
    and "routing_step iter tm r m = (ds, res)" and "(n, p) \<in> set ds"
  shows "relayed tm tr N n p"
proof (cases m)
  case (Voice q v)
  then obtain target seq_num payload pos where v: "v = Audio target () seq_num payload pos"
    using assms(3,4) by (cases v) (auto simp: routing_step_def)
  then have "target = 0" using assms(3,4) Voice by (auto simp: routing_step_def target_senders_def split: if_splits)
  then obtain cs where "target_senders iter (routing_table r) q 0 = Return (Inr cs)"
    and n: "n \<in> set cs" and p: "p = UDPTunnel (Audio 0 q seq_num payload pos)"
    using assms(3,4) Voice v by (auto simp: routing_step_def Let_def split: outcome.splits sum.splits)
  then obtain rm where rm: "room_senders iter (routing_table r) rm (Some q) = Return cs"
    by (auto simp: target_senders_def bind_outcome_eq_Return split: sum.splits)
  obtain q' where "q \<noteq> q'" "sender (routing_table r) q' = Some n"
    using room_senders_from_table [OF rm n] by auto
  then have "authed tr n" "q \<noteq> of_nat n" using assms(1) by (auto simp: senders_ok_def)
  moreover have "origin tr N q (UDPTunnel (Audio 0 () seq_num payload pos))"
    using assms(2) Voice v \<open>target = 0\<close> by simp
  ultimately show ?thesis unfolding relayed_def p by blast
next
  case (Text q x)
  obtain cs res' where rr: "room_recipients iter (routing_table r) (get_channel_id tm (set_actor tm x q)) = (cs, res')"
    by fastforce
  with assms(3,4) Text have p: "p = TextMessage (set_actor tm x q)" and
    "n \<in> set (List.map_filter (sender (routing_table r)) (get_session tm (set_actor tm x q))) \<or> n \<in> set cs"
    by (auto simp: routing_step_def Let_def)
  then obtain q' where "sender (routing_table r) q' = Some n"
    using room_recipients_from_table [OF rr] by (auto simp: in_map_filter)
  then have "authed tr n" using assms(1) by (auto simp: senders_ok_def)
  moreover have "origin tr N q (TextMessage x)" using assms(2) Text by simp
  ultimately show ?thesis unfolding relayed_def p by blast
qed (use assms in \<open>auto simp: routing_step_def\<close>)

lemma session_ids_grow: "server_step cfg iter tm s l s' \<Longrightarrow> length (session_ids s) \<le> length (session_ids s')"
proof (induction rule: server_step.induct)
  case (routing s m q ds r)
  then show ?case using deliver_eq [of ds "s\<lparr>routing_queue := q, routing := r\<rparr>"] by auto
next
  case (routing_panic s m q ds e)
  then show ?case using deliver_eq [of ds "s\<lparr>routing_queue := q, crashed := True\<rparr>"] by auto
qed (auto simp: post_eq to_control_def dest: accept_more)

text \<open>The steps one by one; \<open>tr\<close> is the trace with the label of the step.\<close>

lemma relay_inv_ids:
  assumes "relay_inv tm tr s" and "n < length (session_ids s)"
  shows "session_ids s ! n = of_nat n"
proof -
  have "session_ids s = map of_nat [0..<length (session_ids s)]"
    using assms(1) unfolding relay_inv_def Let_def by (rule conjunct1)
  then show ?thesis using assms(2) by (metis add.left_neutral length_map length_upt minus_nat.diff_0 nth_map nth_upt)
qed

lemma relay_inv_bounds:
  assumes "relay_inv tm tr s"
  shows "n \<in> handshaking s \<Longrightarrow> n < length (session_ids s)" and "live s n = Some st \<Longrightarrow> n < length (session_ids s)"
  using assms unfolding relay_inv_def Let_def by blast+

lemma relay_inv_connect:
  assumes "relay_inv tm tr s"
  defines "N \<equiv> length (session_ids s)"
  shows "relay_inv tm tr (s\<lparr>session_ids := session_ids s @ [of_nat N], handshaking := insert N (handshaking s)\<rparr>)"
proof -
  note parts = assms(1) [unfolded relay_inv_def Let_def, folded N_def]
  have "session_ids s @ [of_nat N] = map of_nat [0..<Suc N]" using parts by simp
  moreover have le: "N \<le> Suc N" by simp
  ultimately show ?thesis
    using parts
    by (auto simp: relay_inv_def Let_def list_all_iff less_Suc_eq simp flip: N_def
        intro: relay_mono [OF _ subset_refl le] unauth_ok_mono [OF _ le])
qed

lemma relay_inv_start:
  assumes inv: "relay_inv tm tr s" and n: "n \<in> handshaking s"
    and start: "session_start cfg tm (session_ids s ! n) sent received n opened now = (outs, st)"
  shows "relay_inv tm tr (post n outs (s\<lparr>handshaking := handshaking s - {n}, live := (live s)(n := st)\<rparr>))"
proof (rule relay_inv_post)
  have n': "n < length (session_ids s)" using relay_inv_bounds(1) [OF inv n] .
  show "relay_inv tm tr (s\<lparr>handshaking := handshaking s - {n}, live := (live s)(n := st)\<rparr>)"
    using inv n' unfolding relay_inv_def Let_def by auto
  show "control_msg_ok tr (length (session_ids (s\<lparr>handshaking := handshaking s - {n}, live := (live s)(n := st)\<rparr>))) m"
    if "ToControl m \<in> set outs" for m
    using session_start_outs(1) [OF start that] n' relay_inv_ids [OF inv n'] by (auto simp: unauth_ok_def)
qed (use session_start_outs(2,3) [OF start] in \<open>auto simp: written_def\<close>)

lemma relay_inv_session:
  assumes inv: "relay_inv tm tr s" and "live s n = Some self" and ok: "event_ok s n ev rest"
    and step: "session_step cfg (session_ids s ! n) self (now, ev) = (outs, st)" and "event_label n ev \<in> set tr"
  shows "relay_inv tm tr (post n outs (s\<lparr>inbox := (inbox s)(n := rest), live := (live s)(n := st)\<rparr>))"
proof (rule relay_inv_post)
  have n: "n < length (session_ids s)" using relay_inv_bounds(2) [OF inv assms(2)] .
  have "set rest \<subseteq> set (inbox s n)"
    using ok by (cases "(s, n, ev, rest)" rule: event_ok.cases) auto
  then show "relay_inv tm tr (s\<lparr>inbox := (inbox s)(n := rest), live := (live s)(n := st)\<rparr>)"
    using inv n unfolding relay_inv_def Let_def list_all_iff by auto
  note sid = relay_inv_ids [OF inv n]
  show "control_msg_ok tr (length (session_ids (s\<lparr>inbox := (inbox s)(n := rest), live := (live s)(n := st)\<rparr>))) m"
    if "ToControl m \<in> set outs" for m
    using session_step_origin(1) [OF step that, of n] n sid assms(5) by (auto simp: origin_def)
  show "routing_msg_ok tr (length (session_ids (s\<lparr>inbox := (inbox s)(n := rest), live := (live s)(n := st)\<rparr>))) m"
    if "ToRouting m \<in> set outs" for m
    using session_step_origin(2) [OF step that, of n] n sid assms(5) by (auto simp: origin_def)
  show "written tm tr (length (session_ids (s\<lparr>inbox := (inbox s)(n := rest), live := (live s)(n := st)\<rparr>))) n p"
    if "ToClient p \<in> set outs" for p
    using session_step_to_client [OF step that] ok inv
    unfolding written_def relay_inv_def Let_def list_all_iff by fastforce
qed

lemma relay_inv_control:
  assumes inv: "relay_inv tm tr s" and tinv: "table_inv s" and few: "length (session_ids s) \<le> 2 ^ 32"
    and "\<not> control_done s" and q: "control_queue s = m # q"
    and step: "control_step (\<not> routing_closed (routing s)) (control s) m = Return (c, out)"
  shows "relay_inv tm tr (s\<lparr>control_queue := q, control := c, routing_queue := routing_queue s @ out\<rparr>)"
proof -
  define N where "N = length (session_ids s)"
  note parts = inv [unfolded relay_inv_def Let_def, folded N_def]
  have opened: "\<not> routing_closed (routing s)" and wf: "wf_table (rtbl (control s))"
    using tinv assms(4) by (auto simp: table_inv_def tables_def)
  have ok: "(\<forall>q u. unauth c q = Some u \<longrightarrow> unauth_ok N q u) \<and> senders_ok tr N (rtbl c)"
    using parts q step opened wf few [folded N_def]
    by (intro relay_control_step [of "control s" N tr m c out]) auto
  moreover have "list_all (routing_msg_ok tr N) out"
    using control_step_open [OF wf, of m] step opened ok by auto
  ultimately show ?thesis
    using parts q by (simp add: relay_inv_def Let_def flip: N_def)
qed

lemma relay_inv_routing:
  assumes inv: "relay_inv tm tr s" and q: "routing_queue s = m # q"
    and step: "routing_step iter tm (routing s) m = (ds, res)" and r: "case res of Return r' \<Rightarrow> r = r' | Panic e \<Rightarrow> r = routing s"
  shows "relay_inv tm tr (deliver ds (s\<lparr>routing_queue := q, routing := r, crashed := b\<rparr>))"
proof (rule relay_inv_deliver)
  define N where "N = length (session_ids s)"
  note parts = inv [unfolded relay_inv_def Let_def, folded N_def]
  have "senders_ok tr N (routing_table r)"
    using routing_step_table [OF step] parts q r by (cases m; cases res) auto
  then show "relay_inv tm tr (s\<lparr>routing_queue := q, routing := r, crashed := b\<rparr>)"
    using parts q by (simp add: relay_inv_def Let_def flip: N_def)
  show "relayed tm tr (length (session_ids (s\<lparr>routing_queue := q, routing := r, crashed := b\<rparr>))) n p"
    if "(n, p) \<in> set ds" for n p
    using relay_routing_step [OF _ _ step that] parts q by (simp flip: N_def)
qed

lemma relay_inv_step:
  assumes step: "server_step cfg iter tm s l s'" and tinv: "table_inv s"
    and few: "length (session_ids s) \<le> 2 ^ 32" and inv: "relay_inv tm tr s"
  shows "relay_inv tm (tr @ [l]) s'"
proof -
  have inv': "relay_inv tm (tr @ [l]) s" using inv by (rule relay_inv_mono) auto
  from step show ?thesis
  proof (cases rule: server_step.cases)
    case (connect ev ids)
    then show ?thesis using relay_inv_connect [OF inv'] accept_more [OF connect(5)] by simp
  next
    case (stop ev ids m)
    then have "m = ControlShutdown" by (auto simp: accept_end_def send_expect_def split: if_splits)
    with stop inv' show ?thesis by (auto simp: relay_inv_def Let_def to_control_def)
  next
    case (start n sent received now outs st)
    then show ?thesis using relay_inv_start [OF inv'] by simp
  next
    case (session n self ev rest now outs st)
    then show ?thesis using relay_inv_session [OF inv'] by simp
  next
    case (control m q c out)
    then show ?thesis using relay_inv_control [OF inv' tinv few] by simp
  next
    case (control_stops out)
    then show ?thesis
      using inv' by (auto simp: control_end_def send_expect_def relay_inv_def Let_def split: if_splits)
  next
    case (routing m q ds r)
    have eq: "s\<lparr>routing_queue := q, routing := r, crashed := False\<rparr> = s\<lparr>routing_queue := q, routing := r\<rparr>"
      using routing(3) by (cases s) simp
    show ?thesis using relay_inv_routing [OF inv' routing(5,6), of r False] unfolding eq routing(2) by simp
  next
    case (routing_panic m q ds e)
    moreover have "s\<lparr>routing_queue := q, routing := routing s, crashed := True\<rparr> = s\<lparr>routing_queue := q, crashed := True\<rparr>"
      by (cases s) simp
    ultimately show ?thesis using relay_inv_routing [OF inv' routing_panic(5,6), of "routing s" True] by simp
  qed (use inv' in \<open>simp_all add: relay_inv_def Let_def\<close>)
qed

lemma relay_inv_run:
  "server_run cfg iter tm tr s \<Longrightarrow> length (session_ids s) \<le> 2 ^ 32 \<Longrightarrow> relay_inv tm tr s"
proof (induction rule: server_run.induct)
  case init
  then show ?case
    by (simp add: relay_inv_def server_init_def control_init_def routing_init_def senders_ok_def)
next
  case (step tr s l s')
  then have "length (session_ids s) \<le> 2 ^ 32" using session_ids_grow by fastforce
  with step table_inv_run show ?case by (blast intro: relay_inv_step)
qed

section \<open>The order of the shutdown\<close>

text \<open>How far the shutdown has come.\<close>

definition phase_inv :: "'m server \<Rightarrow> bool" where
  "phase_inv s \<longleftrightarrow>
    (stopping s \<longleftrightarrow> control_closed (control s) \<or> ControlShutdown \<in> set (control_queue s)) \<and>
    (control_done s \<longrightarrow> control_closed (control s) \<and> control_queue s = [] \<and>
      (routing_closed (routing s) \<or> Shutdown \<in> set (routing_queue s))) \<and>
    (routing_done s \<longrightarrow> routing_closed (routing s) \<and> routing_queue s = []) \<and>
    handshaking s \<subseteq> {..<length (session_ids s)} \<and> dom (live s) \<subseteq> {..<length (session_ids s)}"

lemma sum_unit_exhaust: "\<forall>x. a \<noteq> Inl x \<Longrightarrow> a \<noteq> Inr () \<Longrightarrow> P"
  by (cases a) auto

lemma control_step_closed:
  assumes "control_step open c m = Return (c', out)"
  shows "control_closed c' \<longleftrightarrow> control_closed c \<or> m = ControlShutdown" and "Shutdown \<notin> set out"
  using assms
  by (auto simp: control_step_def handle_packet_def send_expect_def bind_outcome_eq_Return Let_def
      split: ControlMessage.splits ControlPacket.splits option.splits sum.splits if_splits
      elim: sum_unit_exhaust)

text \<open>What the session tasks and the channels leave alone.\<close>

lemma deliver_simps [simp]:
  "session_ids (deliver ds s) = session_ids s" "stopping (deliver ds s) = stopping s"
  "handshaking (deliver ds s) = handshaking s" "live (deliver ds s) = live s"
  "control_queue (deliver ds s) = control_queue s" "control (deliver ds s) = control s"
  "control_done (deliver ds s) = control_done s" "routing_queue (deliver ds s) = routing_queue s"
  "routing (deliver ds s) = routing s" "routing_done (deliver ds s) = routing_done s"
  "crashed (deliver ds s) = crashed s"
  using deliver_eq [of ds s] by auto

lemma phase_inv_post:
  assumes "phase_inv s" and "ControlShutdown \<notin> set (control_msgs outs)"
  shows "phase_inv (post n outs s)"
  using assms by (auto simp: phase_inv_def post_eq)

lemma phase_inv_step:
  assumes "server_step cfg iter tm s l s'" and "phase_inv s" and "table_inv s"
  shows "phase_inv s'"
  using assms(1)
proof (cases rule: server_step.cases)
  case (connect ev ids)
  then show ?thesis using assms(2) by (auto simp: phase_inv_def dest!: accept_more)
next
  case (stop ev ids m)
  then show ?thesis using assms(2) by (auto simp: phase_inv_def to_control_def accept_end_def send_expect_def split: if_splits)
next
  case (start n sent received now outs st)
  have "phase_inv (s\<lparr>handshaking := handshaking s - {n}, live := (live s)(n := st)\<rparr>)"
    using assms(2) start(4) by (auto simp: phase_inv_def split: if_splits)
  then show ?thesis
    unfolding start(2) using session_start_outs(1) [OF start(5)] by (intro phase_inv_post) (auto simp: set_control_msgs)
next
  case (session n self ev rest now outs st)
  have "phase_inv (s\<lparr>inbox := (inbox s)(n := rest), live := (live s)(n := st)\<rparr>)"
    using assms(2) session(4) by (auto simp: phase_inv_def split: if_splits)
  then show ?thesis
    unfolding session(2) using session_step_origin(1) [OF session(6)] by (intro phase_inv_post) (auto simp: set_control_msgs)
next
  case (control m q c out)
  have "\<not> routing_closed (routing s)" using assms(3) control(4) by (auto simp: table_inv_def)
  then show ?thesis using assms(2) control control_step_closed [OF control(6)] by (auto simp: phase_inv_def)
next
  case (control_stops out)
  then show ?thesis using assms(2) by (auto simp: phase_inv_def control_end_def send_expect_def split: if_splits)
next
  case (routing m q ds r)
  then show ?thesis using assms(2) routing_step_table [OF routing(6)] by (auto simp: phase_inv_def)
next
  case (routing_panic m q ds e)
  then show ?thesis using assms(2) routing_step_table [OF routing_panic(6)] by (auto simp: phase_inv_def)
qed (use assms(2) in \<open>auto simp: phase_inv_def\<close>)

lemma phase_inv_run: "server_run cfg iter tm tr s \<Longrightarrow> phase_inv s"
proof (induction rule: server_run.induct)
  case (step tr s l s')
  then show ?case using phase_inv_step table_inv_run by blast
qed (simp add: phase_inv_def server_init_def control_init_def routing_init_def)

section \<open>Why the server stops\<close>

text \<open>The packets of a client which can bring the routing task down.\<close>

fun fatal :: "'m server_msgs \<Rightarrow> (unit, 'm) ControlPacket \<Rightarrow> bool" where
  "fatal tm (UDPTunnel (VoicePacket.Ping t)) \<longleftrightarrow> True"
| "fatal tm (UDPTunnel (Audio target u seq_num payload pos)) \<longleftrightarrow> target \<noteq> 0"
| "fatal tm (TextMessage m) \<longleftrightarrow> get_channel_id tm m \<noteq> []"
| "fatal tm p \<longleftrightarrow> False"

lemma target_senders_no_panic:
  assumes "wf_table t" shows "target_senders iter t q 0 \<noteq> Panic e"
proof (cases "sessions t q")
  case (Some ses)
  then have "placement t q = Some (session_room_id ses)" by (simp add: placement_def)
  from wf_tableD [OF assms this] Some show ?thesis
    by (simp add: target_senders_def room_id_def room_senders_def)
qed (simp add: target_senders_def room_id_def)

lemma routing_panic_cause:
  assumes "wf_table (routing_table r)" and "text_ok tm" and "routing_step iter tm r m = (ds, Panic e)"
    and "routing_msg_ok tr N m"
  shows "\<exists>k p. ClientSent k p \<in> set tr \<and> fatal tm p"
proof (cases m)
  case (Voice q v)
  then obtain k where k: "ClientSent k (UDPTunnel v) \<in> set tr" using assms(4) by (auto simp: origin_def)
  moreover have "fatal tm (UDPTunnel v)"
    using assms(3) Voice target_senders_no_panic [OF assms(1), of iter q]
    by (cases v) (auto simp: routing_step_def Let_def split: outcome.splits sum.splits)
  ultimately show ?thesis by blast
next
  case (Text q x)
  then obtain k where k: "ClientSent k (TextMessage x) \<in> set tr" using assms(4) by (auto simp: origin_def)
  have "get_channel_id tm x \<noteq> []"
  proof
    assume "get_channel_id tm x = []"
    with assms(2,3) Text show False by (simp add: routing_step_def Let_def text_ok_def)
  qed
  with k show ?thesis by (intro exI [of _ k] exI [of _ "TextMessage x"]) simp
qed (use assms(3) in \<open>simp_all add: routing_step_def\<close>)

lemma crash_step:
  assumes "server_step cfg iter tm s l s'" and "crashed s'" and "table_inv s" and "phase_inv s" and "relay_inv tm tr s" and "text_ok tm"
  shows "(\<exists>k p. ClientSent k p \<in> set tr \<and> fatal tm p) \<or> l = ListenerEnded \<or>
    (\<exists>k bs frames. l = ClientOverflow k bs frames \<and> 0 < frames \<and> frames < serverbound_nesting bs)"
  using assms(1)
proof (cases rule: server_step.cases)
  case (accept_panic ev e)
  then show ?thesis using accept_panics [OF accept_panic(5)] by simp
next
  case (stop_panic ev ids e)
  then show ?thesis using assms(4) by (auto simp: phase_inv_def accept_end_def send_expect_def split: if_splits)
next
  case (control_stop_panic e)
  then show ?thesis using assms(3) by (auto simp: table_inv_def control_end_def send_expect_def split: if_splits)
next
  case (control_panic m q e)
  then show ?thesis using table_inv_control [OF assms(3), of m q] by auto
next
  case (routing_panic m q ds e)
  have "wf_table (routing_table (routing s))" using assms(3) by (simp add: table_inv_def tables_def)
  moreover have "routing_msg_ok tr (length (session_ids s)) m"
    using assms(5) routing_panic(5) by (simp add: relay_inv_def Let_def)
  ultimately show ?thesis using routing_panic_cause [OF _ assms(6) routing_panic(6)] by blast
qed (use assms(2) in \<open>auto simp: post_eq to_control_def split: if_splits\<close>)

lemma crash_run:
  "server_run cfg iter tm tr s \<Longrightarrow> length (session_ids s) \<le> 2 ^ 32 \<Longrightarrow> text_ok tm \<Longrightarrow> crashed s \<Longrightarrow>
    (\<exists>k p. ClientSent k p \<in> set tr \<and> fatal tm p) \<or> ListenerEnded \<in> set tr \<or>
    (\<exists>k bs frames. ClientOverflow k bs frames \<in> set tr \<and> 0 < frames \<and> frames < serverbound_nesting bs)"
proof (induction rule: server_run.induct)
  case (step tr s l s')
  have few: "length (session_ids s) \<le> 2 ^ 32" using step session_ids_grow by fastforce
  show ?case
    using crash_step [OF step(2) step(6) table_inv_run [OF step(1)] phase_inv_run [OF step(1)] relay_inv_run [OF step(1) few] step(5)]
    unfolding set_append list.set by blast
qed (simp add: server_init_def)

section \<open>A run\<close>

text \<open>
  A client connects, exchanges versions, authenticates and writes a text message to itself; and one
  which instead sends a voice ping.
\<close>

lemma run_step:
  "server_run cfg iter tm tr s \<Longrightarrow> server_step cfg iter tm s l s1 \<Longrightarrow> tr' = tr @ [l] \<Longrightarrow> s' = s1 \<Longrightarrow>
    server_run cfg iter tm tr' s'"
  by (auto intro: server_run.step)

definition demo_cfg :: StammerConfig where
  "demo_cfg = \<lparr>bind_addr = ''localhost'', session_timeout = 30\<rparr>"

abbreviation demo_run :: "(u32 \<times> u32 list \<times> u32 list) label list \<Rightarrow> (u32 \<times> u32 list \<times> u32 list) server \<Rightarrow> bool" where
  "demo_run \<equiv> server_run demo_cfg sorted_list_of_set triple_msgs"

abbreviation hello :: "u32 \<times> u32 list \<times> u32 list" where
  "hello \<equiv> (1, [], [])"

abbreviation note_to_self :: "u32 \<times> u32 list \<times> u32 list" where
  "note_to_self \<equiv> (9, [0], [])"

definition demo_started :: "(u32 \<times> u32 list \<times> u32 list) server" where
  "demo_started = server_init\<lparr>session_ids := [0], live := [0 \<mapsto> \<lparr>last_ping = 0\<rparr>],
     sent_to := (\<lambda>_. [])(0 := [Version (server_version triple_msgs)]),
     control_queue := [AddSession 0 \<lparr>ua_version = hello, ua_send = 0\<rparr>]\<rparr>"

lemma demo_start: "demo_run [Connected 0, ClientSent 0 (Version hello)] demo_started"
proof -
  have "demo_run [Connected 0] (server_init\<lparr>session_ids := [0], handshaking := {0}\<rparr>)"
    by (rule run_step [OF server_run.init server_step.connect [where ids = "[0]" and ev = "ListenerNext (Some (Inr ()))"]])
      (simp_all add: server_init_def accept_step_def)
  then show ?thesis
    by (rule run_step [OF _ server_step.start [where n = 0 and sent = "Inr ()" and now = 0
            and received = "Some (Inr (Version hello))"
            and outs = "[ToClient (Version (server_version triple_msgs)),
              ToControl (AddSession 0 \<lparr>ua_version = hello, ua_send = 0\<rparr>)]"
            and st = "Some \<lparr>last_ping = 0\<rparr>"]])
      (simp_all add: demo_started_def server_init_def control_init_def session_start_def version_exchange_def demo_cfg_def
        to_control_def)
qed

lemma demo_relay:
  "\<exists>tr s. demo_run tr s \<and> session_ids s = [0] \<and> TextMessage (0, [0], []) \<in> set (inbox s 0)"
proof -
  define table where "table = enroll_session (RoutingTable_default :: (_, nat) RoutingTable) 0 hello 0"
  define s3 where "s3 = demo_started\<lparr>control_queue := [AddSession 0 \<lparr>ua_version = hello, ua_send = 0\<rparr>,
    Packet 0 (Authenticate hello)]\<rparr>"
  define c4 where "c4 = (control_init :: (_, nat) control_task)\<lparr>unauth := [0 \<mapsto> \<lparr>ua_version = hello, ua_send = 0\<rparr>]\<rparr>"
  define c5 where "c5 = (control_init :: (_, nat) control_task)\<lparr>rtbl := table\<rparr>"
  define s6 where "s6 = demo_started\<lparr>control_queue := [], control := c5,
    routing := \<lparr>routing_table = table, routing_closed = False\<rparr>\<rparr>"
  note defs = demo_started_def server_init_def control_init_def routing_init_def to_control_def to_routing_def
  have "demo_run [Connected 0, ClientSent 0 (Version hello), ClientSent 0 (Authenticate hello)] s3"
    by (rule run_step [OF demo_start server_step.session [where n = 0 and now = 0
            and ev = "ClientNext (Some (Inr (Authenticate hello))) (Inr ())" and rest = "[]"
            and outs = "[ToControl (Packet 0 (Authenticate hello))]"]])
      (simp_all add: defs s3_def session_step_def fun_upd_idem)
  then have "demo_run [Connected 0, ClientSent 0 (Version hello), ClientSent 0 (Authenticate hello), Internal]
      (demo_started\<lparr>control_queue := [Packet 0 (Authenticate hello)], control := c4\<rparr>)"
    by (rule run_step [OF _ server_step.control [where c = c4 and out = "[]" and q = "[Packet 0 (Authenticate hello)]"
            and m = "AddSession 0 \<lparr>ua_version = hello, ua_send = 0\<rparr>"]])
      (simp_all add: defs s3_def c4_def control_step_def)
  then have "demo_run [Connected 0, ClientSent 0 (Version hello), ClientSent 0 (Authenticate hello), Internal, Internal]
      (demo_started\<lparr>control_queue := [], control := c5, routing_queue := [Update table]\<rparr>)"
    by (rule run_step [OF _ server_step.control [where c = c5 and out = "[Update table]" and q = "[]"
            and m = "Packet 0 (Authenticate hello)"]])
      (simp_all add: defs c4_def c5_def control_step_def handle_packet_def holds_session_iff table_def)
  then have "demo_run [Connected 0, ClientSent 0 (Version hello), ClientSent 0 (Authenticate hello), Internal, Internal, Internal] s6"
    by (rule run_step [OF _ server_step.routing [where m = "Update table" and q = "[]" and ds = "[]"
            and r = "\<lparr>routing_table = table, routing_closed = False\<rparr>"]])
      (simp_all add: defs s6_def routing_step_def)
  then have "demo_run [Connected 0, ClientSent 0 (Version hello), ClientSent 0 (Authenticate hello), Internal, Internal, Internal,
      ClientSent 0 (TextMessage note_to_self)] (s6\<lparr>routing_queue := [Text 0 note_to_self]\<rparr>)"
    by (rule run_step [OF _ server_step.session [where n = 0 and now = 0
            and ev = "ClientNext (Some (Inr (TextMessage note_to_self))) (Inr ())" and rest = "[]"
            and outs = "[ToRouting (Text 0 note_to_self)]"]])
      (simp_all add: defs s6_def session_step_def fun_upd_idem)
  then have "demo_run [Connected 0, ClientSent 0 (Version hello), ClientSent 0 (Authenticate hello), Internal, Internal, Internal,
      ClientSent 0 (TextMessage note_to_self), Internal] (s6\<lparr>inbox := (\<lambda>_. [])(0 := [TextMessage (0, [0], [])])\<rparr>)"
    by (rule run_step [OF _ server_step.routing [where m = "Text 0 note_to_self" and q = "[]"
            and ds = "[(0, TextMessage (0, [0], []))]" and r = "\<lparr>routing_table = table, routing_closed = False\<rparr>"]])
      (simp_all add: defs s6_def routing_step_def table_def sender_enroll map_filter_simps)
  then show ?thesis by (intro exI conjI) (assumption, simp_all add: s6_def demo_started_def)
qed

lemma demo_crash: "\<exists>tr s. demo_run tr s \<and> session_ids s = [0] \<and> crashed s"
proof -
  have "demo_run [Connected 0, ClientSent 0 (Version hello), ClientSent 0 (UDPTunnel (VoicePacket.Ping 5))]
      (demo_started\<lparr>routing_queue := [Voice 0 (VoicePacket.Ping 5)]\<rparr>)"
    by (rule run_step [OF demo_start server_step.session [where n = 0 and now = 0
            and ev = "ClientNext (Some (Inr (UDPTunnel (VoicePacket.Ping 5)))) (Inr ())" and rest = "[]"
            and outs = "[ToRouting (Voice 0 (VoicePacket.Ping 5))]"]])
      (simp_all add: demo_started_def server_init_def session_step_def to_routing_def routing_init_def fun_upd_idem)
  then have "demo_run [Connected 0, ClientSent 0 (Version hello), ClientSent 0 (UDPTunnel (VoicePacket.Ping 5)), Internal]
      (demo_started\<lparr>crashed := True\<rparr>)"
    by (rule run_step [OF _ server_step.routing_panic [where m = "Voice 0 (VoicePacket.Ping 5)" and q = "[]"
            and ds = "[]" and e = "''not implemented: audio ping not supported yet''"]])
      (simp_all add: demo_started_def server_init_def routing_step_def)
  then show ?thesis by (intro exI conjI) (assumption, simp_all add: demo_started_def)
qed

section \<open>Properties\<close>

text \<open>
  C12. The tasks agree on who is in which room. In every reachable state of the server, under
  any interleaving, all routing tables are well-formed, the routing task's table is the
  control task's once its queue is empty, and the control task, while it runs, handles its next
  message without a panic.
\<close>

theorem server_tables_agree:
  assumes "server_run cfg iter tm tr s"
  shows "(\<forall>t \<in> tables s. wf_table t) \<and>
    (routing_queue s = [] \<longrightarrow> routing_table (routing s) = rtbl (control s)) \<and>
    (\<forall>m. \<not> control_done s \<longrightarrow>
       (\<exists>c out. control_step (\<not> routing_closed (routing s)) (control s) m = Return (c, out)))"
proof -
  have inv: "table_inv s" using assms by (rule table_inv_run)
  have "\<exists>c out. control_step (\<not> routing_closed (routing s)) (control s) m = Return (c, out)"
    if "\<not> control_done s" for m
    using table_inv_control [OF inv that, of m "[]"] by blast
  moreover have "routing_queue s = [] \<Longrightarrow> routing_table (routing s) = rtbl (control s)"
    using inv by (simp add: table_inv_def)
  ultimately show ?thesis using inv by (simp add: table_inv_def)
qed

theorem server_tables_agree_witness:
  "\<exists>s. demo_run [Connected 0, ClientSent 0 (Version (1, [], []))] s \<and> (\<forall>t \<in> tables s. wf_table t)"
  using demo_start server_tables_agree [OF demo_start] by blast

text \<open>
  C5. Relaying is sound. In every reachable state with at most \<open>2^32\<close> connections so far, each
  packet waiting for a client, or written to its stream other than versions and ping replies, was sent to the server by a client: it is that client's voice packet,
  spoken by another session and unchanged but for the speaker's id, or its text message with the
  actor set to that client's own session; and the receiving client has authenticated.
\<close>

theorem server_relay_sound:
  assumes "server_run cfg iter tm tr s" and "length (session_ids s) \<le> 2 ^ 32"
    and "p \<in> set (inbox s n) \<or> p \<in> set (sent_to s n) \<and> (\<nexists>m. p = Version m) \<and> (\<nexists>m. p = ControlPacket.Ping m)"
  shows "relayed tm tr (length (session_ids s)) n p"
  using relay_inv_run [OF assms(1,2)] assms(3) unfolding relay_inv_def Let_def list_all_iff written_def by blast

theorem server_relay_sound_witness:
  "\<exists>tr s. demo_run tr s \<and> TextMessage (0, [0], []) \<in> set (inbox s 0) \<and>
    relayed triple_msgs tr 1 0 (TextMessage (0, [0], []))"
proof -
  obtain tr s where run: "demo_run tr s" "session_ids s = [0]" "TextMessage (0, [0], []) \<in> set (inbox s 0)"
    using demo_relay by blast
  from server_relay_sound [OF run(1), of "TextMessage (0, [0], [])" 0] run show ?thesis by fastforce
qed



end
