(* ===== verification/Server_Order.thy ===== *)
theory Server_Order
  imports Server "HOL-Library.Sublist"
begin

text \<open>
  The server keeps the order of what each client says. \<open>said k tr\<close> is the audio the client of connection \<open>k\<close> has sent in a trace, as
  others should hear it; \<open>heard q\<close> picks the audio of speaker \<open>q\<close> out of packets for a client. What was written to a client's stream,
  what waits in its channel and what waits for the routing task is always, for each speaker, a part of what this speaker has said,
  in the same order: nothing is heard twice, and nothing overtakes.
\<close>

section \<open>Saying and hearing\<close>

fun voice_of :: "u32 \<Rightarrow> (u32, 'm) ControlPacket \<Rightarrow> u32 VoicePacket list" where
  "voice_of q (UDPTunnel (Audio target s seq_num payload pos)) = (if s = q then [Audio target s seq_num payload pos] else [])"
| "voice_of q _ = []"

fun spoken_as :: "u32 \<Rightarrow> (unit, 'm) ControlPacket \<Rightarrow> u32 VoicePacket list" where
  "spoken_as q (UDPTunnel (Audio target u seq_num payload pos)) = [Audio target q seq_num payload pos]"
| "spoken_as q _ = []"

fun label_said :: "nat \<Rightarrow> 'm label \<Rightarrow> u32 VoicePacket list" where
  "label_said k (ClientSent n p) = (if n = k then spoken_as (of_nat k) p else [])"
| "label_said k _ = []"

fun waiting :: "u32 \<Rightarrow> ('m, 'c) RoutingMessage \<Rightarrow> u32 VoicePacket list" where
  "waiting q (Voice s (Audio target u seq_num payload pos)) = (if s = q then [Audio target q seq_num payload pos] else [])"
| "waiting q _ = []"

definition heard :: "u32 \<Rightarrow> (u32, 'm) ControlPacket list \<Rightarrow> u32 VoicePacket list" where
  "heard q ps = concat (map (voice_of q) ps)"

definition said :: "nat \<Rightarrow> 'm label list \<Rightarrow> u32 VoicePacket list" where
  "said k tr = concat (map (label_said k) tr)"

lemma heard_simps [simp]:
  "heard q [] = []" "heard q (p # ps) = voice_of q p @ heard q ps" "heard q (ps @ ps') = heard q ps @ heard q ps'"
  by (simp_all add: heard_def)

lemma said_simps [simp]: "said k [] = []" "said k (tr @ [l]) = said k tr @ label_said k l"
  by (simp_all add: said_def)

definition order_inv :: "'m label list \<Rightarrow> 'm server \<Rightarrow> bool" where
  "order_inv tr s \<longleftrightarrow> (\<forall>n k. k < 2 ^ 32 \<longrightarrow>
    subseq (heard (of_nat k) (sent_to s n) @ heard (of_nat k) (inbox s n) @ concat (map (waiting (of_nat k)) (routing_queue s)))
      (said k tr))"

lemma order_invD:
  "order_inv tr s \<Longrightarrow> k < 2 ^ 32 \<Longrightarrow>
    subseq (heard (of_nat k) (sent_to s n) @ heard (of_nat k) (inbox s n) @ concat (map (waiting (of_nat k)) (routing_queue s)))
      (said k tr)"
  by (simp add: order_inv_def)

text \<open>Every step: the audio on its way loses some, and gains what the step's label says.\<close>

lemma order_inv_step_if:
  assumes "order_inv tr s"
    and "\<And>n k. k < 2 ^ 32 \<Longrightarrow>
      subseq (heard (of_nat k) (sent_to s' n) @ heard (of_nat k) (inbox s' n) @ concat (map (waiting (of_nat k)) (routing_queue s')))
        ((heard (of_nat k) (sent_to s n) @ heard (of_nat k) (inbox s n) @ concat (map (waiting (of_nat k)) (routing_queue s)))
          @ label_said k l)"
  shows "order_inv (tr @ [l]) s'"
  unfolding order_inv_def
proof (intro allI impI)
  fix n k :: nat assume k: "k < 2 ^ 32"
  have "subseq ((heard (of_nat k) (sent_to s n) @ heard (of_nat k) (inbox s n) @ concat (map (waiting (of_nat k)) (routing_queue s)))
      @ label_said k l) (said k (tr @ [l]))"
    using order_invD [OF assms(1) k] by (simp add: list_emb_append_mono del: append_assoc)
  with assms(2) [OF k] show "subseq (heard (of_nat k) (sent_to s' n) @ heard (of_nat k) (inbox s' n)
      @ concat (map (waiting (of_nat k)) (routing_queue s'))) (said k (tr @ [l]))"
    by (rule subseq_order.trans)
qed

lemma order_inv_frame:
  assumes "order_inv tr s" and "sent_to s' = sent_to s" and "inbox s' = inbox s"
    and "\<And>k. concat (map (waiting (of_nat k)) (routing_queue s')) = concat (map (waiting (of_nat k)) (routing_queue s))"
  shows "order_inv (tr @ [l]) s'"
  using assms(1) by (rule order_inv_step_if) (simp add: assms(2-4) list_emb_prefix del: append_assoc)

section \<open>The steps\<close>

lemma waiting_map_none: "(\<And>m. m \<in> set ms \<Longrightarrow> waiting q m = []) \<Longrightarrow> concat (map (waiting q) ms) = []"
  by (induction ms) auto

lemma heard_none: "(\<And>p. p \<in> set ps \<Longrightarrow> voice_of q p = []) \<Longrightarrow> heard q ps = []"
  by (induction ps) auto

text \<open>A session task: what it writes to its client comes from its channel, in order, and what it sends to the routing task is what its client says.\<close>

lemma session_step_order:
  fixes s :: "'m server"
  assumes "session_step cfg sid self (now, ev) = (outs, st)" and "event_ok s n ev rest"
  shows "subseq (heard q (client_msgs_of outs) @ heard q rest) (heard q (inbox s n))"
    and "sid = of_nat n \<Longrightarrow> k < 2 ^ 32 \<Longrightarrow> n < 2 ^ 32 \<Longrightarrow>
      concat (map (waiting (of_nat k)) (routing_msgs outs)) = label_said k (event_label n ev)"
proof -
  note simps = client_msgs_of_def routing_msgs_def map_filter_simps
  have "subseq (heard q (client_msgs_of outs) @ heard q rest) (heard q (inbox s n)) \<and>
    (sid = of_nat n \<longrightarrow> k < 2 ^ 32 \<longrightarrow> n < 2 ^ 32 \<longrightarrow>
      concat (map (waiting (of_nat k)) (routing_msgs outs)) = label_said k (event_label n ev))"
  proof (cases ev)
    case (ClientNext r sent)
    show ?thesis
    proof (cases "\<exists>p. r = Some (Inr p)")
      case True
      then obtain p where r: "r = Some (Inr p)" by blast
      consider v where "p = UDPTunnel v" | m where "p = TextMessage m" | ts where "p = ControlPacket.Ping ts"
        | "\<nexists>v. p = UDPTunnel v" "\<nexists>m. p = TextMessage m" "\<nexists>ts. p = ControlPacket.Ping ts" by blast
      then show ?thesis
      proof cases
        case 1
        have "of_nat n = (of_nat k :: u32) \<longleftrightarrow> n = k" if "k < 2 ^ 32" "n < 2 ^ 32"
          using that word_of_nat_eqD by blast
        then show ?thesis
          using assms 1 r ClientNext by (cases v) (auto simp: session_step_client simps)
      next
        case 4
        then have "spoken_as x p = []" for x by (cases p) auto
        moreover have "outs = [ToControl (Packet sid p)]"
          using assms(1) 4 r ClientNext by (simp add: session_step_control)
        ultimately show ?thesis using assms(2) r ClientNext by (auto simp: simps)
      qed (use assms r ClientNext in \<open>cases sent; auto simp: session_step_client simps\<close>)+
    next
      case False
      then show ?thesis using assms ClientNext
        by (cases r) (auto simp: session_step_def simps split: sum.splits)
    qed
  next
    case (SessionNext p sent)
    then show ?thesis using assms
      by (cases p; cases sent) (auto simp: session_step_def simps list_emb_append2)
  next
    case KeepaliveTick
    then show ?thesis using assms by (auto simp: session_step_def Let_def simps split: if_splits)
  qed
  then show "subseq (heard q (client_msgs_of outs) @ heard q rest) (heard q (inbox s n))"
    and "sid = of_nat n \<Longrightarrow> k < 2 ^ 32 \<Longrightarrow> n < 2 ^ 32 \<Longrightarrow>
      concat (map (waiting (of_nat k)) (routing_msgs outs)) = label_said k (event_label n ev)"
    by blast+
qed

text \<open>The routing task: a packet goes to each channel at most once.\<close>

lemma inbox_deliver:
  "inbox (deliver ds s) n = inbox s n @ (if live s n = None then [] else map snd (filter (\<lambda>d. fst d = n) ds))"
proof (induction ds arbitrary: s)
  case (Cons d ds)
  then show ?case by (cases d) auto
qed simp

lemma distinct_map_filter:
  assumes "distinct xs" and "\<And>x y z. f x = Some z \<Longrightarrow> f y = Some z \<Longrightarrow> x = y"
  shows "distinct (List.map_filter f xs)"
  using assms(1)
proof (induction xs)
  case (Cons x xs)
  then show ?case using assms(2) by (auto simp: map_filter_simps in_map_filter split: option.split)
qed (simp add: map_filter_simps)

lemma target_senders_distinct:
  assumes "iter_ok iter" and "wf_table t" and "senders_ok tr N t"
    and "target_senders iter t q target = Return (Inr cs)"
  shows "distinct cs"
proof -
  obtain r where r: "placement t q = Some r" and cs: "room_senders iter t r (Some q) = Return cs"
    using assms(4)
    by (auto simp: target_senders_def room_id_def placement_def bind_outcome_eq_Return split: if_splits sum.splits option.splits)
  have "{q. placement t q = Some r} \<subseteq> dom (sessions t)" by (auto simp: placement_def)
  then have fin: "finite {q. placement t q = Some r}" using assms(2) by (auto simp: wf_table_def intro: finite_subset)
  have "cs = List.map_filter (\<lambda>q'. if Some q = Some q' then None else sender t q') (iter {q. placement t q = Some r})"
    using cs wf_tableD [OF assms(2) r] by (simp add: room_senders_def)
  moreover have "x = y" if "sender t x = Some c" and "sender t y = Some c" for x y c
    using that assms(3) unfolding senders_ok_def by metis
  moreover have "distinct (iter {q. placement t q = Some r})" using assms(1) fin by (simp add: iter_ok_def)
  ultimately show ?thesis by (auto intro!: distinct_map_filter split: if_splits)
qed

lemma filter_fst_distinct:
  "distinct cs \<Longrightarrow> map snd (filter (\<lambda>d. fst d = n) (map (\<lambda>c. (c, p)) cs)) = (if n \<in> set cs then [p] else [])"
  by (induction cs) auto

lemma routing_step_order:
  assumes "iter_ok iter" and "wf_table (routing_table r)" and "senders_ok tr N (routing_table r)"
    and "routing_step iter tm r m = (ds, res)"
  shows "subseq (heard q (map snd (filter (\<lambda>d. fst d = n) ds))) (waiting q m)"
proof (cases m)
  case (Voice s v)
  show ?thesis
  proof (cases v)
    case (Audio target u seq_num payload pos)
    then consider "ds = []" | cs where "target_senders iter (routing_table r) s target = Return (Inr cs)"
        "ds = map (\<lambda>c. (c, UDPTunnel (Audio target s seq_num payload pos))) cs"
      using assms(4) Voice by (auto simp: routing_step_def Let_def split: outcome.splits sum.splits)
    then show ?thesis
    proof cases
      case 2
      then show ?thesis
        using target_senders_distinct [OF assms(1-3) 2(1)] Voice Audio by (simp add: filter_fst_distinct)
    qed simp
  qed (use assms(4) Voice in \<open>simp add: routing_step_def\<close>)
next
  case (Text s x)
  then have "heard q (map snd (filter (\<lambda>d. fst d = n) ds)) = []"
    using assms(4) by (intro heard_none) (auto simp: routing_step_def Let_def split: prod.splits)
  then show ?thesis by simp
qed (use assms(4) in \<open>auto simp: routing_step_def\<close>)

lemma order_inv_routing:
  assumes inv: "order_inv tr s" and "iter_ok iter" and "table_inv s" and "relay_inv tm tr s"
    and "routing_queue s = m # q" and "routing_step iter tm (routing s) m = (ds, res)"
    and s': "sent_to s' = sent_to s" "inbox s' = inbox s" "live s' = live s" "routing_queue s' = q"
  shows "order_inv (tr @ [l]) (deliver ds s')"
proof (rule order_inv_step_if [OF inv])
  fix n k :: nat
  have "senders_ok tr (length (session_ids s)) (routing_table (routing s))" and "wf_table (routing_table (routing s))"
    using assms(3,4) by (simp_all add: relay_inv_def Let_def table_inv_def tables_def)
  from routing_step_order [OF assms(2) this(2,1) assms(6), of "of_nat k" n]
  have "subseq (heard (of_nat k) (inbox (deliver ds s') n)) (heard (of_nat k) (inbox s n) @ waiting (of_nat k) m)"
    by (auto simp: inbox_deliver s' list_emb_append_mono list_emb_prefix)
  then have "subseq (heard (of_nat k) (sent_to s n) @ heard (of_nat k) (inbox (deliver ds s') n) @ concat (map (waiting (of_nat k)) q))
      (heard (of_nat k) (sent_to s n) @ (heard (of_nat k) (inbox s n) @ waiting (of_nat k) m) @ concat (map (waiting (of_nat k)) q))"
    by (intro list_emb_append_mono subseq_order.refl)
  moreover have "sent_to (deliver ds s') = sent_to s'" "routing_queue (deliver ds s') = routing_queue s'"
    using deliver_eq [of ds s'] by auto
  ultimately show "subseq (heard (of_nat k) (sent_to (deliver ds s') n) @ heard (of_nat k) (inbox (deliver ds s') n) @
      concat (map (waiting (of_nat k)) (routing_queue (deliver ds s'))))
    ((heard (of_nat k) (sent_to s n) @ heard (of_nat k) (inbox s n) @ concat (map (waiting (of_nat k)) (routing_queue s)))
      @ label_said k l)"
    by (simp add: s' assms(5) list_emb_prefix flip: append_assoc)
qed

lemma order_inv_post:
  assumes inv: "order_inv tr s" and s': "sent_to s' = sent_to s" "routing_queue s' = routing_queue s" "routing s' = routing s"
    and inbox: "inbox s' = (inbox s)(n := rest)"
    and heard: "\<And>q. subseq (heard q (client_msgs_of outs) @ heard q rest) (heard q (inbox s n))"
    and said: "\<And>k. k < 2 ^ 32 \<Longrightarrow> subseq (concat (map (waiting (of_nat k)) (routing_msgs outs))) (label_said k l)"
  shows "order_inv (tr @ [l]) (post n outs s')"
proof (rule order_inv_step_if [OF inv])
  fix n' k :: nat assume k: "k < 2 ^ 32"
  define w where "w = concat (map (waiting (of_nat k)) (routing_queue s))"
  have new: "subseq (concat (map (waiting (of_nat k)) (routing_queue (post n outs s')))) (w @ label_said k l)"
    using said [OF k] by (auto simp: post_eq s' w_def list_emb_append_mono list_emb_prefix)
  have old: "subseq (heard (of_nat k) (sent_to (post n outs s') n') @ heard (of_nat k) (inbox (post n outs s') n'))
      (heard (of_nat k) (sent_to s n') @ heard (of_nat k) (inbox s n'))"
    using heard [of "of_nat k"] by (auto simp: post_eq s' inbox intro: list_emb_append_mono)
  from list_emb_append_mono [OF old new]
  show "subseq (heard (of_nat k) (sent_to (post n outs s') n') @ heard (of_nat k) (inbox (post n outs s') n') @
      concat (map (waiting (of_nat k)) (routing_queue (post n outs s'))))
    ((heard (of_nat k) (sent_to s n') @ heard (of_nat k) (inbox s n') @ concat (map (waiting (of_nat k)) (routing_queue s)))
      @ label_said k l)"
    by (simp add: w_def)
qed

lemma order_inv_step:
  assumes step: "server_step cfg iter tm s l s'" and inv: "order_inv tr s" and "iter_ok iter"
    and tinv: "table_inv s" and rinv: "relay_inv tm tr s" and few: "length (session_ids s) \<le> 2 ^ 32"
  shows "order_inv (tr @ [l]) s'"
  using step
proof (cases rule: server_step.cases)
  case (start n sent received now outs st)
  have "heard q (client_msgs_of outs) = []" for q
    using start(5) by (auto simp: session_start_def Let_def client_msgs_of_def map_filter_simps split: sum.splits if_splits)
  moreover have "routing_msgs outs = []"
    using session_start_outs(2) [OF start(5)] set_routing_msgs [of outs] by auto
  ultimately show ?thesis unfolding start(1,2)
    by (intro order_inv_post [OF inv, where rest = "inbox s n"]) simp_all
next
  case (session n self ev rest now outs st)
  have n: "n < length (session_ids s)" using relay_inv_bounds(2) [OF rinv session(4)] .
  note sid = relay_inv_ids [OF rinv n]
  show ?thesis unfolding session(1,2)
    using session_step_order [OF session(6,5)] sid n few
    by (intro order_inv_post [OF inv]) simp_all
next
  case (routing m q ds r)
  then show ?thesis unfolding routing(2) by (intro order_inv_routing [OF inv assms(3) tinv rinv routing(5,6)]) simp_all
next
  case (routing_panic m q ds e)
  then show ?thesis unfolding routing_panic(2)
    by (intro order_inv_routing [OF inv assms(3) tinv rinv routing_panic(5,6)]) simp_all
next
  case (control m q c out)
  have "waiting x m' = []" if "m' \<in> set out" for x m'
    using control_step_open [of "control s" m] control(4,6) that tinv by (auto simp: table_inv_def tables_def)
  then show ?thesis unfolding control(2) by (intro order_inv_frame [OF inv]) (simp_all add: waiting_map_none)
next
  case (control_stops out)
  then have "out = [Shutdown]" by (auto simp: control_end_def send_expect_def split: if_splits)
  then show ?thesis unfolding control_stops(2) by (intro order_inv_frame [OF inv]) simp_all
qed (auto intro!: order_inv_frame [OF inv] simp: to_control_def)

lemma order_inv_run:
  assumes "server_run cfg iter tm tr s" and "iter_ok iter" and "length (session_ids s) \<le> 2 ^ 32"
  shows "order_inv tr s"
  using assms(1,3)
proof (induction rule: server_run.induct)
  case init
  then show ?case by (simp add: order_inv_def server_init_def)
next
  case (step tr s l s')
  then have "length (session_ids s) \<le> 2 ^ 32" using session_ids_grow by fastforce
  with step assms(2) table_inv_run relay_inv_run show ?case by (blast intro: order_inv_step)
qed

section \<open>Admission and relay\<close>

text \<open>
  A server with nothing left to do: from such a state a client can join, and what a member of a room says comes out at another.
\<close>

definition idle :: "'m server \<Rightarrow> bool" where
  "idle s \<longleftrightarrow> \<not> crashed s \<and> \<not> stopping s \<and> control_queue s = [] \<and> routing_queue s = [] \<and>
    \<not> control_done s \<and> \<not> routing_done s \<and> \<not> control_closed (control s) \<and> \<not> routing_closed (routing s)"

text \<open>The state after a client has joined.\<close>

definition joined :: "'m server_msgs \<Rightarrow> 'm \<Rightarrow> nat \<Rightarrow> 'm server \<Rightarrow> 'm server" where
  "joined tm v now s =
    (let N = length (session_ids s);
         t = enroll_session (rtbl (control s)) (of_nat N) v N
     in s\<lparr>session_ids := session_ids s @ [of_nat N], live := (live s)(N \<mapsto> \<lparr>last_ping = now\<rparr>),
          sent_to := (sent_to s)(N := sent_to s N @ [Version (server_version tm)]),
          control_queue := [], control := (control s)\<lparr>rtbl := t\<rparr>,
          routing_queue := [], routing := (routing s)\<lparr>routing_table := t\<rparr>\<rparr>)"

lemma new_session_unknown:
  assumes "relay_inv tm tr s" and "length (session_ids s) < 2 ^ 32"
  shows "unauth (control s) (of_nat (length (session_ids s))) = None"
    and "placement (rtbl (control s)) (of_nat (length (session_ids s))) = None"
    and "length (session_ids s) \<notin> handshaking s"
proof -
  let ?N = "length (session_ids s)"
  have new: "of_nat ?N \<noteq> (of_nat n :: u32)" if "n < ?N" for n
    using that assms(2) word_of_nat_eqD [of ?N n "Suc ?N"] by auto
  have "unauth_ok ?N (of_nat ?N) u" if "unauth (control s) (of_nat ?N) = Some u" for u
    using assms(1) that unfolding relay_inv_def Let_def by blast
  then show "unauth (control s) (of_nat ?N) = None"
    using new by (cases "unauth (control s) (of_nat ?N)") (auto simp: unauth_ok_def)
  have ok: "senders_ok tr ?N (rtbl (control s))" using assms(1) unfolding relay_inv_def Let_def by blast
  have "sender (rtbl (control s)) (of_nat ?N) = None"
    using new ok [unfolded senders_ok_def] by (cases "sender (rtbl (control s)) (of_nat ?N)") blast+
  then show "placement (rtbl (control s)) (of_nat ?N) = None" by (simp add: sender_def placement_def)
  show "?N \<notin> handshaking s" using relay_inv_bounds(1) [OF assms(1)] by blast
qed

lemma server_admits:
  assumes run: "server_run cfg iter tm tr s" and "idle s" and "length (session_ids s) < 2 ^ 32" and "0 < session_timeout cfg"
  defines "N \<equiv> length (session_ids s)"
  shows "server_run cfg iter tm (tr @ [Connected N, ClientSent N (Version v), ClientSent N (Authenticate a), Internal, Internal, Internal])
    (joined tm v now s)"
proof -
  define q where "q = (of_nat N :: u32)"
  define u where "u = \<lparr>ua_version = v, ua_send = N\<rparr>"
  define t where "t = enroll_session (rtbl (control s)) q v N"
  define s1 where "s1 = s\<lparr>session_ids := session_ids s @ [q], handshaking := insert N (handshaking s)\<rparr>"
  define s2 where "s2 = s\<lparr>session_ids := session_ids s @ [q], live := (live s)(N \<mapsto> \<lparr>last_ping = now\<rparr>),
    sent_to := (sent_to s)(N := sent_to s N @ [Version (server_version tm)]), control_queue := [AddSession q u]\<rparr>"
  note idle = assms(2) [unfolded idle_def]
  have inv: "relay_inv tm tr s" using relay_inv_run [OF run] assms(3) by simp
  note new = new_session_unknown [OF inv assms(3), folded N_def, folded q_def]
  note defs = s1_def s2_def u_def N_def [symmetric] q_def [symmetric] t_def
  have "server_run cfg iter tm (tr @ [Connected N]) s1"
    by (rule run_step [OF run server_step.connect [where ids = "session_ids s @ [q]" and ev = "ListenerNext (Some (Inr ()))"]])
      (use idle in \<open>simp_all add: accept_step_def defs\<close>)
  then have "server_run cfg iter tm (tr @ [Connected N, ClientSent N (Version v)]) s2"
    by (rule run_step [OF _ server_step.start [where n = N and sent = "Inr ()" and now = now and received = "Some (Inr (Version v))"
            and st = "Some \<lparr>last_ping = now\<rparr>" and outs = "[ToClient (Version (server_version tm)), ToControl (AddSession q u)]"]])
      (use idle new assms(4) in \<open>simp_all add: defs session_start_def version_exchange_def nth_append to_control_def\<close>)
  then have "server_run cfg iter tm (tr @ [Connected N, ClientSent N (Version v), ClientSent N (Authenticate a)])
      (s2\<lparr>control_queue := [AddSession q u, Packet q (Authenticate a)]\<rparr>)"
    by (rule run_step [OF _ server_step.session [where n = N and now = now and ev = "ClientNext (Some (Inr (Authenticate a))) (Inr ())"
            and rest = "inbox s2 N" and outs = "[ToControl (Packet q (Authenticate a))]" and st = "Some \<lparr>last_ping = now\<rparr>"]])
      (use idle in \<open>simp_all add: defs session_step_def nth_append to_control_def\<close>)
  then have "server_run cfg iter tm (tr @ [Connected N, ClientSent N (Version v), ClientSent N (Authenticate a), Internal])
      (s2\<lparr>control_queue := [Packet q (Authenticate a)], control := (control s)\<lparr>unauth := (unauth (control s))(q \<mapsto> u)\<rparr>,
        routing_queue := []\<rparr>)"
    by (rule run_step [OF _ server_step.control [where m = "AddSession q u" and q = "[Packet q (Authenticate a)]" and out = "[]"]])
      (use idle in \<open>simp_all add: defs control_step_def\<close>)
  then have "server_run cfg iter tm (tr @ [Connected N, ClientSent N (Version v), ClientSent N (Authenticate a), Internal, Internal])
      (s2\<lparr>control_queue := [], control := (control s)\<lparr>rtbl := t\<rparr>, routing_queue := [Update t]\<rparr>)"
    by (rule run_step [OF _ server_step.control [where m = "Packet q (Authenticate a)" and q = "[]" and out = "[Update t]"]])
      (use idle new in \<open>simp_all add: defs control_step_def handle_packet_def holds_session_iff fun_upd_idem Let_def\<close>)
  then show ?thesis
    by (rule run_step [OF _ server_step.routing [where m = "Update t" and q = "[]" and ds = "[]"]])
      (use idle in \<open>simp_all add: defs joined_def routing_step_def Let_def\<close>)
qed

lemma idle_joined: "idle s \<Longrightarrow> idle (joined tm v now s)"
  by (simp add: idle_def joined_def Let_def)

lemma server_carries_voice:
  fixes s :: "'m server" and seq_num payload pos
  assumes run: "server_run cfg iter tm tr s" and "idle s" and "iter_ok iter" and few: "length (session_ids s) \<le> 2 ^ 32"
    and k: "live s k = Some self" and n: "live s n = Some self'" "inbox s n = []" and "n \<noteq> k"
    and t: "t = rtbl (control s)" "placement t (of_nat k) = Some r" "placement t (of_nat n) = Some r" "sender t (of_nat n) = Some n"
  defines "p \<equiv> (UDPTunnel (Audio 0 (of_nat k) seq_num payload pos) :: (u32, 'm) ControlPacket)"
  shows "\<exists>s'. server_run cfg iter tm (tr @ [ClientSent k (UDPTunnel (Audio 0 () seq_num payload pos)), Internal, Internal]) s' \<and>
    sent_to s' = (sent_to s)(n := sent_to s n @ [p]) \<and> session_ids s' = session_ids s"
proof -
  let ?v = "Audio 0 () seq_num payload pos"
  note idle = assms(2) [unfolded idle_def]
  have inv: "relay_inv tm tr s" and tinv: "table_inv s" using relay_inv_run [OF run few] table_inv_run [OF run] by blast+
  have kn: "k < length (session_ids s)" "n < length (session_ids s)" using relay_inv_bounds(2) [OF inv] k n(1) by blast+
  note sid = relay_inv_ids [OF inv kn(1)] relay_inv_ids [OF inv kn(2)]
  have t': "routing_table (routing s) = t" "wf_table t" using tinv idle t(1) by (auto simp: table_inv_def tables_def)
  obtain cs where cs: "target_senders iter t (of_nat k) 0 = Return (Inr cs)" "n \<in> set cs"
  proof -
    have "hash_iteration iter" using assms(3) by unfold_locales
    from hash_iteration.target_senders_of_room [OF this t'(2) t(2)] obtain cs where
      cs: "target_senders iter t (of_nat k) 0 = Return (Inr cs)"
      "mset cs = {# the (sender t q). q \<in># mset_set {q. placement t q = Some r \<and> q \<noteq> of_nat k} #}" by blast
    have "of_nat n \<noteq> (of_nat k :: u32)" using word_of_nat_eqD kn few assms(8) by metis
    moreover have "finite {q. placement t q = Some r \<and> q \<noteq> of_nat k}"
      using t'(2) by (auto simp: wf_table_def placement_def elim: rev_finite_subset)
    ultimately have "n \<in># mset cs" using cs(2) t(3,4) by (force simp: image_iff)
    with cs(1) that show ?thesis by simp
  qed
  have distinct: "distinct cs"
    using target_senders_distinct [OF assms(3) t'(2) _ cs(1)] inv t(1) unfolding relay_inv_def Let_def by blast
  define s1 where "s1 = s\<lparr>routing_queue := [Voice (of_nat k) ?v]\<rparr>"
  define s2 where "s2 = deliver (map (\<lambda>c. (c, p)) cs) (s\<lparr>routing_queue := []\<rparr>)"
  have same: "s\<lparr>routing_queue := [], routing := routing s\<rparr> = s\<lparr>routing_queue := []\<rparr>" by (cases s) simp
  have "server_run cfg iter tm (tr @ [ClientSent k (UDPTunnel ?v)]) s1"
    by (rule run_step [OF run server_step.session [where n = k and now = 0 and ev = "ClientNext (Some (Inr (UDPTunnel ?v))) (Inr ())"
            and rest = "inbox s k" and outs = "[ToRouting (Voice (of_nat k) ?v)]" and st = "Some self"]])
      (use idle k sid in \<open>(simp add: session_step_client to_routing_def s1_def fun_upd_idem)+\<close>)
  then have run2: "server_run cfg iter tm (tr @ [ClientSent k (UDPTunnel ?v), Internal]) s2"
    by (rule run_step [OF _ server_step.routing [where m = "Voice (of_nat k) ?v" and q = "[]" and ds = "map (\<lambda>c. (c, p)) cs" and r = "routing s"]])
      (use idle cs(1) t' same in \<open>simp_all add: routing_step_def s1_def s2_def p_def\<close>)
  obtain ib where ib: "s2 = s\<lparr>routing_queue := [], inbox := ib\<rparr>" using deliver_eq s2_def by blast
  have "inbox s2 n = [p]"
    using inbox_deliver [of "map (\<lambda>c. (c, p)) cs" "s\<lparr>routing_queue := []\<rparr>" n] n cs(2) by (simp add: s2_def filter_fst_distinct [OF distinct])
  then have "server_run cfg iter tm (tr @ [ClientSent k (UDPTunnel ?v), Internal, Internal])
      (post n [ToClient p] (s2\<lparr>inbox := (inbox s2)(n := []), live := (live s2)(n := Some self')\<rparr>))"
    by (intro run_step [OF run2 server_step.session [where n = n and now = 0 and ev = "SessionNext (Some p) (Inr ())" and rest = "[]"
            and outs = "[ToClient p]" and st = "Some self'"]])
      (use idle n in \<open>simp_all add: session_step_def ib\<close>)
  then show ?thesis by (intro exI conjI) (assumption, simp_all add: ib)
qed

section \<open>Properties\<close>

text \<open>
  C4. The server keeps order. In every run, whatever the interleaving of its tasks, the audio which a client has been sent of a
  speaker is a subsequence of the audio this speaker has sent to the server, unchanged but for the speaker's id: nothing is sent twice,
  nothing overtakes, nothing is made up; and nobody is sent their own voice.
\<close>

theorem server_keeps_order:
  assumes "server_run cfg iter tm tr s" and "iter_ok iter" and "length (session_ids s) \<le> 2 ^ 32" and "k < 2 ^ 32"
  shows "subseq (heard (of_nat k) (sent_to s n)) (said k tr) \<and> heard (of_nat n) (sent_to s n) = []"
proof
  show "subseq (heard (of_nat k) (sent_to s n)) (said k tr)"
    by (rule subseq_order.trans [OF list_emb_prefix [OF subseq_order.refl] order_invD [OF order_inv_run [OF assms(1-3)] assms(4)]])
  have "list_all (written tm tr (length (session_ids s)) n) (sent_to s n)"
    using relay_inv_run [OF assms(1,3)] unfolding relay_inv_def Let_def by blast
  moreover have "voice_of (of_nat n) p = []" if "written tm tr (length (session_ids s)) n p" for p
    using that unfolding written_def relayed_def by (elim disjE conjE exE) simp_all
  ultimately show "heard (of_nat n) (sent_to s n) = []"
    unfolding list_all_iff by (intro heard_none) blast
qed

text \<open>Two clients join, and the first speaks to the second.\<close>

abbreviation talk :: "'m \<Rightarrow> 'm \<Rightarrow> bytes \<Rightarrow> 'm label list" where
  "talk v a out \<equiv>
    [Connected 0, ClientSent 0 (Version v), ClientSent 0 (Authenticate a), Internal, Internal, Internal,
     Connected 1, ClientSent 1 (Version v), ClientSent 1 (Authenticate a), Internal, Internal, Internal,
     ClientSent 0 (UDPTunnel (Audio 0 () 0 (Opus out False) None)), Internal, Internal]"

lemma server_talks:
  fixes tm :: "'m server_msgs"
  assumes "iter_ok iter" and "0 < session_timeout cfg"
  shows "\<exists>s. server_run cfg iter tm (talk v a out) s \<and> session_ids s = [0, 1] \<and>
    sent_to s 0 = [Version (server_version tm)] \<and>
    sent_to s 1 = [Version (server_version tm), UDPTunnel (Audio 0 0 0 (Opus out False) None)]"
proof -
  define s1 where "s1 = joined tm v 0 (server_init :: 'm server)"
  define s2 where "s2 = joined tm v 0 s1"
  note defs = s1_def s2_def joined_def Let_def server_init_def control_init_def routing_init_def
  have "idle (server_init :: 'm server)"
    by (simp add: idle_def server_init_def control_init_def routing_init_def)
  then have idle: "idle s1" "idle s2" by (simp_all add: s1_def s2_def idle_joined)
  have "server_run cfg iter tm (take 6 (talk v a out)) s1"
    using server_admits [OF server_run.init \<open>idle server_init\<close> _ assms(2), of iter tm v a 0]
    by (simp add: s1_def, simp add: server_init_def)
  from server_admits [OF this idle(1) _ assms(2), of v a 0] have run: "server_run cfg iter tm (take 12 (talk v a out)) s2"
    by (simp add: s2_def, simp add: defs)
  have placed: "placement (rtbl (control s2)) = [0 \<mapsto> 0, 1 \<mapsto> 0]" "sender (rtbl (control s2)) 1 = Some 1"
    by (simp_all add: defs placement_enroll sender_enroll)
  have "\<exists>s. server_run cfg iter tm (take 12 (talk v a out) @
      [ClientSent 0 (UDPTunnel (Audio 0 () 0 (Opus out False) None)), Internal, Internal]) s \<and>
    sent_to s = (sent_to s2)(1 := sent_to s2 1 @ [UDPTunnel (Audio 0 (of_nat 0) 0 (Opus out False) None)]) \<and>
    session_ids s = session_ids s2"
    by (rule server_carries_voice [OF run idle(2) assms(1) _ _ _ _ _ refl, where r = 0])
      (simp_all add: placed, simp_all add: defs)
  then show ?thesis by (auto simp: defs)
qed

theorem server_keeps_order_witness:
  "\<exists>s. demo_run (talk hello hello [7]) s \<and> heard 0 (sent_to s 1) = [Audio 0 0 0 (Opus [7] False) None] \<and>
    subseq (heard 0 (sent_to s 1)) (said 0 (talk hello hello [7])) \<and> heard 1 (sent_to s 1) = []"
proof -
  obtain s where run: "demo_run (talk hello hello [7]) s" and ids: "session_ids s = [0, 1]"
    and sent: "sent_to s 1 = [Version (server_version triple_msgs), UDPTunnel (Audio 0 0 0 (Opus [7] False) None)]"
    using server_talks [OF sorted_iter.iter_ok, of demo_cfg triple_msgs hello hello "[7]"] by (auto simp: demo_cfg_def)
  from server_keeps_order [OF run sorted_iter.iter_ok, of 0 1] ids sent run show ?thesis
    by (intro exI [of _ s]) simp
qed

end
