(* ===== verification/Client_Connection.thy ===== *)
theory Client_Connection
  imports Task_Session
begin

text \<open>
  The connection task of the client, \<open>stutter/src/task_connection.rs\<close>: the handshake with the server
  (versions, then authentication) and the loop which carries voice and control packets and pings the
  server.

  As on the server's side, an iteration of the \<open>select!\<close> loop is a step on the event that was ready,
  and the result of sending to the server is part of the event. \<open>client_msgs\<close> adds the
  constructors of messages which the client uses.
\<close>

section \<open>The code\<close>

record 'm client_msgs = "'m server_msgs" +
  Authenticate_new :: 'm
  Ping_new :: 'm
  set_timestamp :: "'m \<Rightarrow> u64 \<Rightarrow> 'm"

record StutterConfig =
  addr :: string
  client_timeout :: nat

datatype 'm ConnectionMessage =
    VoiceMessage "unit VoicePacket"
  | ControlMessage "(unit, 'm) ControlPacket"

text \<open>The samples are of an opaque type, the \<open>f32\<close> of the audio library.\<close>

datatype 'f AudioCodecMessage =
    Inbound "u32 VoicePacket"
  | Outbound "'f list"

datatype 'm handshake_error =
    SendFailed io_error
  | ServerClosed
  | ExpectedServerVersion "(u32, 'm) ControlPacket"
  | ReceiveFailed io_error
  | IncompatibleVersions 'm 'm

definition client_version :: "('m, 'x) server_msgs_scheme \<Rightarrow> 'm" where
  "client_version tm = set_version tm (Version_new tm) (push_bit 16 1 OR push_bit 8 2 OR 4)"

text \<open>
  The packets sent so far and the result; \<open>sent\<close> is the result of sending our version,
  \<open>received\<close> the first item of the server's stream.
\<close>

definition version_handshake ::
    "('m, 'x) server_msgs_scheme \<Rightarrow> io_error + unit \<Rightarrow> (io_error + (u32, 'm) ControlPacket) option \<Rightarrow>
      (unit, 'm) ControlPacket list \<times> ('m handshake_error + unit)" where
  "version_handshake tm sent received =
    (case sent of
       Inl err \<Rightarrow> ([], Inl (SendFailed err))
     | Inr _ \<Rightarrow>
         ([Version (client_version tm)],
          bind_result
            (case received of
               None \<Rightarrow> Inl ServerClosed
             | Some (Inr packet) \<Rightarrow>
                 (case packet of
                    Version version \<Rightarrow> Inr version
                  | packet \<Rightarrow> Inl (ExpectedServerVersion packet))
             | Some (Inl err) \<Rightarrow> Inl (ReceiveFailed err))
            (\<lambda>server_version.
               if server_version \<noteq> client_version tm
               then Inl (IncompatibleVersions server_version (client_version tm))
               else Inr ())))"

definition handshake ::
    "('m, 'x) client_msgs_scheme \<Rightarrow> io_error + unit \<Rightarrow> (io_error + (u32, 'm) ControlPacket) option \<Rightarrow>
      io_error + unit \<Rightarrow> (unit, 'm) ControlPacket list \<times> ('m handshake_error + unit)" where
  "handshake cm sent received auth_sent =
    (case version_handshake cm sent received of
       (out, Inl err) \<Rightarrow> (out, Inl err)
     | (out, Inr _) \<Rightarrow>
         (case auth_sent of
            Inl err \<Rightarrow> (out, Inl (SendFailed err))
          | Inr _ \<Rightarrow> (out @ [Authenticate (Authenticate_new cm)], Inr ())))"

definition ping_interval :: "StutterConfig \<Rightarrow> nat" where
  "ping_interval stutter_cfg = client_timeout stutter_cfg div 2"

text \<open>
  \<open>ping\<close>: the packet for a system time in seconds since the epoch; a clock before the epoch is a
  panic.
\<close>

definition ping :: "('m, 'x) client_msgs_scheme \<Rightarrow> int \<Rightarrow> (unit, 'm) ControlPacket outcome" where
  "ping cm system_time =
    (if system_time < 0 then Panic ''Time went backwards''
     else Return (ControlPacket.Ping (set_timestamp cm (Ping_new cm) (word_of_int system_time))))"

datatype 'm connection_event =
    PingTick int "io_error + unit"
  | TaskNext "'m ConnectionMessage option" "io_error + unit"
  | ServerNext "(io_error + (u32, 'm) ControlPacket) option"

datatype ('m, 'f) connection_out =
    ToServer "(unit, 'm) ControlPacket"
  | ToCodec "'f AudioCodecMessage"

text \<open>How an iteration goes on: with the next one, with the end of the loop, or with an error.\<close>

datatype flow = Continue | Break | Fail io_error

definition send_or :: "io_error + unit \<Rightarrow> (unit, 'm) ControlPacket \<Rightarrow> flow \<Rightarrow> ('m, 'f) connection_out list \<times> flow" where
  "send_or sent packet on_error = (case sent of Inl err \<Rightarrow> ([], on_error) | Inr _ \<Rightarrow> ([ToServer packet], Continue))"

definition send_try :: "io_error + unit \<Rightarrow> (unit, 'm) ControlPacket \<Rightarrow> ('m, 'f) connection_out list \<times> flow" where
  "send_try sent packet = (case sent of Inl err \<Rightarrow> ([], Fail err) | Inr _ \<Rightarrow> ([ToServer packet], Continue))"

definition connection_step ::
    "('m, 'x) client_msgs_scheme \<Rightarrow> 'm connection_event \<Rightarrow> (('m, 'f) connection_out list \<times> flow) outcome" where
  "connection_step cm event =
    (case event of
       PingTick system_time sent \<Rightarrow>
         bind_outcome (ping cm system_time) (\<lambda>packet. Return (send_try sent packet))
     | TaskNext connection_msg sent \<Rightarrow>
         Return (case connection_msg of
             None \<Rightarrow> ([], Break)
           | Some (VoiceMessage voice_packet) \<Rightarrow> send_or sent (UDPTunnel voice_packet) Break
           | Some (ControlMessage packet) \<Rightarrow> send_try sent packet)
     | ServerNext server_msg \<Rightarrow>
         Return (case server_msg of
             None \<Rightarrow> ([], Break)
           | Some (Inl err) \<Rightarrow> ([], Break)
           | Some (Inr packet) \<Rightarrow>
               (case packet of
                  UDPTunnel voice_packet \<Rightarrow> ([ToCodec (Inbound voice_packet)], Continue)
                | ControlPacket.Ping p \<Rightarrow> ([], Continue)
                | _ \<Rightarrow> ([], Continue))))"

fun connection_run ::
    "('m, 'x) client_msgs_scheme \<Rightarrow> 'm connection_event list \<Rightarrow> (('m, 'f) connection_out list \<times> flow) outcome" where
  "connection_run cm [] = Return ([], Continue)"
| "connection_run cm (ev # evs) =
    bind_outcome (connection_step cm ev) (\<lambda>(out, flow).
      case flow of
        Continue \<Rightarrow> bind_outcome (connection_run cm evs) (\<lambda>(out', flow'). Return (out @ out', flow'))
      | _ \<Rightarrow> Return (out, flow))"

section \<open>What passes through\<close>

text \<open>The voice packets of the other tasks and of the server, in a list of events without failures.\<close>

fun voice_out :: "'m connection_event \<Rightarrow> unit VoicePacket list" where
  "voice_out (TaskNext (Some (VoiceMessage v)) (Inr u)) = [v]"
| "voice_out _ = []"

fun voice_in :: "'m connection_event \<Rightarrow> u32 VoicePacket list" where
  "voice_in (ServerNext (Some (Inr (UDPTunnel v)))) = [v]"
| "voice_in _ = []"

fun tunnelled :: "('m, 'f) connection_out \<Rightarrow> unit VoicePacket list" where
  "tunnelled (ToServer (UDPTunnel v)) = [v]"
| "tunnelled _ = []"

fun handed_over :: "('m, 'f) connection_out \<Rightarrow> u32 VoicePacket list" where
  "handed_over (ToCodec (Inbound v)) = [v]"
| "handed_over _ = []"

fun healthy :: "'m connection_event \<Rightarrow> bool" where
  "healthy (PingTick t sent) \<longleftrightarrow> 0 \<le> t \<and> \<not> isl sent"
| "healthy (TaskNext (Some (VoiceMessage v)) sent) \<longleftrightarrow> \<not> isl sent"
| "healthy (TaskNext (Some (ControlMessage p)) sent) \<longleftrightarrow> \<not> isl sent \<and> (\<forall>v. p \<noteq> UDPTunnel v)"
| "healthy (TaskNext None sent) \<longleftrightarrow> False"
| "healthy (ServerNext (Some (Inr p))) \<longleftrightarrow> True"
| "healthy (ServerNext _) \<longleftrightarrow> False"

lemma tunnelled_other: "(\<And>v. p \<noteq> UDPTunnel v) \<Longrightarrow> tunnelled (ToServer p) = []"
  by (cases p) auto

lemma connection_step_healthy:
  assumes "healthy ev"
  shows "\<exists>out. connection_step cm ev = Return (out :: ('m, 'f) connection_out list, Continue) \<and>
    concat (map tunnelled out) = voice_out ev \<and> concat (map handed_over out) = voice_in ev"
proof (cases ev)
  case (PingTick t sent)
  then show ?thesis
    using assms by (auto simp: connection_step_def ping_def send_try_def split: sum.splits)
next
  case (TaskNext msg sent)
  then obtain m u where ev: "ev = TaskNext (Some m) (Inr u)" using assms by (cases msg; cases sent) (auto elim: healthy.elims)
  then show ?thesis
    using assms by (cases m) (auto simp: connection_step_def send_or_def send_try_def tunnelled_other)
next
  case (ServerNext msg)
  then obtain p where ev: "ev = ServerNext (Some (Inr p))" using assms by (auto elim: healthy.elims)
  then show ?thesis by (cases p) (simp_all add: connection_step_def)
qed

lemma connection_run_healthy:
  assumes "list_all healthy evs"
  shows "\<exists>out. connection_run cm evs = Return (out :: ('m, 'f) connection_out list, Continue) \<and>
    concat (map tunnelled out) = concat (map voice_out evs) \<and>
    concat (map handed_over out) = concat (map voice_in evs)"
  using assms
proof (induction evs)
  case (Cons ev evs)
  obtain out1 :: "('m, 'f) connection_out list" where "connection_step cm ev = Return (out1, Continue)"
    "concat (map tunnelled out1) = voice_out ev" "concat (map handed_over out1) = voice_in ev"
    using connection_step_healthy [of ev cm] Cons.prems by auto
  then show ?case using Cons by auto
qed simp

text \<open>The messages as triples, with the constructors of the client.\<close>

definition triple_client :: "(u32 \<times> u32 list \<times> u32 list) client_msgs" where
  "triple_client = server_msgs.extend triple_msgs
     (client_msgs.fields (0, [], []) (0, [], []) (\<lambda>(_, ss, rs) t. (ucast t, ss, rs)))"

lemma keepalive_suffices:
  assumes "session_timeout cfg = client_timeout stutter_cfg" and "0 < ping_interval stutter_cfg"
    and "ping_interval stutter_cfg + d \<le> session_timeout cfg"
    and "c + d \<le> last_ping self + session_timeout cfg"
    and "\<forall>ev \<in> set evs. benign ev \<and> last_ping self \<le> fst ev" and "sorted (map fst evs)"
    and "\<forall>i < length evs. \<forall>k. snd (evs ! i) = KeepaliveTick \<and> c + k * ping_interval stutter_cfg + d \<le> fst (evs ! i) \<longrightarrow>
      (\<exists>j < i. is_ping (evs ! j) \<and> c + k * ping_interval stutter_cfg \<le> fst (evs ! j))"
  shows "\<exists>outs self'. session_run cfg sid self evs = (outs, [], Some self')"
proof (rule session_run_survives [OF assms(5,6)], intro allI impI)
  fix i assume i: "i < length evs" "snd (evs ! i) = KeepaliveTick"
  define t where "t = fst (evs ! i)"
  define I where "I = ping_interval stutter_cfg"
  show "fst (evs ! i) \<le> last_ping self + session_timeout cfg \<or>
    (\<exists>j < i. is_ping (evs ! j) \<and> fst (evs ! i) \<le> fst (evs ! j) + session_timeout cfg)"
  proof (cases "c + d \<le> t")
    case False
    then show ?thesis using assms(4) by (simp add: t_def)
  next
    case True
    define k where "k = (t - (c + d)) div I"
    have "t - (c + d) = k * I + (t - (c + d)) mod I" by (simp add: k_def)
    moreover have "(t - (c + d)) mod I < I" using assms(2) by (simp add: I_def)
    ultimately have k: "c + k * I + d \<le> t" "t < c + k * I + d + I" using True by linarith+
    then obtain j where "j < i" "is_ping (evs ! j)" "c + k * I \<le> fst (evs ! j)"
      using assms(7) i by (auto simp: t_def I_def)
    then show ?thesis using k(2) assms(3) by (auto simp: t_def I_def intro!: exI [of _ j])
  qed
qed

section \<open>Properties\<close>

text \<open>
  C27. A client of this program gets into a server of this program. The client's handshake, answered
  by the server's version, succeeds and sends its version and an \<open>Authenticate\<close> packet; the server's
  session task, given the first, sends the version the client expects and registers; it
  forwards the second; and the control task, having both messages, has the session enrolled.
\<close>

theorem client_gets_enrolled:
  assumes "session_timeout cfg > 0"
  shows "handshake cm (Inr ()) (Some (Inr (Version (server_version cm)))) (Inr ())
      = ([Version (client_version cm), Authenticate (Authenticate_new cm)], Inr ()) \<and>
   session_start cfg cm sid (Inr ()) (Some (Inr (Version (client_version cm)))) c True now
      = ([ToClient (Version (server_version cm)),
          ToControl (AddSession sid \<lparr>ua_version = client_version cm, ua_send = c\<rparr>)], Some \<lparr>last_ping = now\<rparr>) \<and>
   session_step cfg sid \<lparr>last_ping = now\<rparr> (later, ClientNext (Some (Inr (Authenticate (Authenticate_new cm)))) sent)
      = ([ToControl (Packet sid (Authenticate (Authenticate_new cm)))], Some \<lparr>last_ping = now\<rparr>) \<and>
   (\<exists>self out. control_run True control_init
      [AddSession sid \<lparr>ua_version = client_version cm, ua_send = c\<rparr>, Packet sid (Authenticate (Authenticate_new cm))]
      = Return (self, out) \<and> holds_session (rtbl self) sid \<and> sender (rtbl self) sid = Some c)"
  using assms
  by (simp add: handshake_def version_handshake_def client_version_def server_version_def session_start_def
      version_exchange_def session_step_def control_step_def handle_packet_def control_init_def
      holds_session_iff placement_enroll sender_enroll)

theorem client_gets_enrolled_witness:
  "\<exists>self out. control_run True control_init
      [AddSession 3 \<lparr>ua_version = client_version triple_client, ua_send = 40 :: nat\<rparr>,
       Packet 3 (Authenticate (Authenticate_new triple_client))]
      = Return (self, out) \<and> holds_session (rtbl self) 3 \<and> sender (rtbl self) 3 = Some 40"
proof -
  have "0 < session_timeout \<lparr>bind_addr = [], session_timeout = 30\<rparr>" by simp
  from client_gets_enrolled [OF this, of triple_client 3 "40 :: nat" 1 2 "Inr ()"] show ?thesis by (elim conjE)
qed

text \<open>
  The ping interval is short enough. A client that pings every \<open>ping_interval\<close>, half its timeout,
  starting at time \<open>c\<close>, over a connection that delivers within \<open>d\<close>, is not dropped by a
  server with the same timeout, provided \<open>d\<close> and the interval fit in the timeout and no stream
  fails: whatever else happens, all events of the session are processed and it goes on.
\<close>

theorem client_keeps_session_alive:
  assumes "session_timeout cfg = client_timeout stutter_cfg" and "0 < ping_interval stutter_cfg"
    and "ping_interval stutter_cfg + d \<le> session_timeout cfg"
    and "c + d \<le> last_ping self + session_timeout cfg"
    and "\<forall>ev \<in> set evs. benign ev \<and> last_ping self \<le> fst ev" and "sorted (map fst evs)"
    and "\<forall>i < length evs. \<forall>k. snd (evs ! i) = KeepaliveTick \<and> c + k * ping_interval stutter_cfg + d \<le> fst (evs ! i) \<longrightarrow>
      (\<exists>j < i. is_ping (evs ! j) \<and> c + k * ping_interval stutter_cfg \<le> fst (evs ! j))"
  shows "\<exists>outs self'. session_run cfg sid self evs = (outs, [], Some self')"
  using assms by (rule keepalive_suffices)

definition pinging :: "(nat \<times> unit session_event) list" where
  "pinging = [(2, ClientNext (Some (Inr (ControlPacket.Ping ()))) (Inr ())),
     (18, ClientNext (Some (Inr (ControlPacket.Ping ()))) (Inr ())), (30, KeepaliveTick)]"

theorem client_keeps_session_alive_witness:
  "\<exists>outs self'. session_run \<lparr>bind_addr = [], session_timeout = 30\<rparr> 3 \<lparr>last_ping = 0\<rparr> pinging = (outs, [], Some self')"
proof (rule client_keeps_session_alive [where stutter_cfg = "\<lparr>addr = [], client_timeout = 30\<rparr>" and c = 1 and d = 10])
  show "\<forall>i < length pinging. \<forall>k. snd (pinging ! i) = KeepaliveTick \<and>
      1 + k * ping_interval \<lparr>addr = [], client_timeout = 30\<rparr> + 10 \<le> fst (pinging ! i) \<longrightarrow>
      (\<exists>j < i. is_ping (pinging ! j) \<and> 1 + k * ping_interval \<lparr>addr = [], client_timeout = 30\<rparr> \<le> fst (pinging ! j))"
    by (auto simp: pinging_def ping_interval_def is_ping_def less_Suc_eq nth_Cons' numeral_3_eq_3 intro!: exI [of _ 1])
      arith
qed (auto simp: pinging_def ping_interval_def benign_def)

text \<open>
  The connection task loses no voice: over events without failures it never stops, sends the
  server exactly the voice packets of the audio task, in order, and hands the audio task
  exactly those of the server, in order, whatever pings and control packets come between.
\<close>

theorem connection_carries_voice:
  assumes "list_all healthy evs"
  shows "\<exists>out. connection_run cm evs = Return (out, Continue) \<and>
    concat (map tunnelled out) = concat (map voice_out evs) \<and>
    concat (map handed_over out) = concat (map voice_in evs)"
  using assms by (rule connection_run_healthy)

theorem connection_carries_voice_witness:
  "\<exists>out. connection_run triple_client [PingTick 5 (Inr ()), ServerNext (Some (Inr (UDPTunnel (VoicePacket.Ping 1)))),
      TaskNext (Some (VoiceMessage (VoicePacket.Ping 2))) (Inr ())] = Return (out, Continue) \<and>
    concat (map tunnelled out) = [VoicePacket.Ping 2] \<and> concat (map handed_over out) = [VoicePacket.Ping 1]"
  using connection_carries_voice [of "[PingTick 5 (Inr ()), ServerNext (Some (Inr (UDPTunnel (VoicePacket.Ping 1)))),
      TaskNext (Some (VoiceMessage (VoicePacket.Ping 2))) (Inr ())]" triple_client] by simp

end
