(* ===== verification/Client_Audio.thy ===== *)
theory Client_Audio
  imports Client_Connection
begin

text \<open>
  The audio tasks of the client: \<open>stutter/src/task_audio_codec.rs\<close>, which batches the samples of the
  microphone into Opus packets and decodes the packets of the server, and
  \<open>stutter/src/task_audio_io.rs\<close>, which feeds the speakers from a ring buffer.

  The ring buffers (crate \<open>ringbuf\<close>) and the Opus codec (crate \<open>opus\<close>) are parameters: the
  records \<open>ring_ops\<close> and \<open>opus_ops\<close> hold the operations used, \<open>ring_ok\<close> states that a ring is a
  bounded queue, \<open>encoder_ok\<close> that a full frame can be encoded. Samples are of an opaque type with a
  zero. The loop which drains the ring takes fuel; the length of the ring is enough.
\<close>

section \<open>The libraries used\<close>

record ('r, 'f) ring_ops =
  ring_new :: "nat \<Rightarrow> 'r"
  ring_len :: "'r \<Rightarrow> nat"
  push_slice :: "'r \<Rightarrow> 'f list \<Rightarrow> 'r"
  pop_slice :: "'r \<Rightarrow> nat \<Rightarrow> 'f list \<times> 'r"
  ring_pop :: "'r \<Rightarrow> 'f option \<times> 'r"

text \<open>A bounded queue: what does not fit is not pushed, what is not there is not popped.\<close>

definition ring_ok :: "('r, 'f) ring_ops \<Rightarrow> ('r \<Rightarrow> 'f list) \<Rightarrow> ('r \<Rightarrow> nat) \<Rightarrow> bool" where
  "ring_ok rg contents capacity \<longleftrightarrow>
    (\<forall>n. contents (ring_new rg n) = [] \<and> capacity (ring_new rg n) = n) \<and>
    (\<forall>r. ring_len rg r = length (contents r)) \<and>
    (\<forall>r xs. contents (push_slice rg r xs) = contents r @ take (capacity r - length (contents r)) xs \<and>
       capacity (push_slice rg r xs) = capacity r) \<and>
    (\<forall>r n. fst (pop_slice rg r n) = take n (contents r) \<and>
       contents (snd (pop_slice rg r n)) = drop n (contents r) \<and> capacity (snd (pop_slice rg r n)) = capacity r) \<and>
    (\<forall>r. ring_pop rg r = (case contents r of [] \<Rightarrow> (None, snd (ring_pop rg r)) | x # xs \<Rightarrow> (Some x, snd (ring_pop rg r))) \<and>
       contents (snd (ring_pop rg r)) = drop 1 (contents r) \<and> capacity (snd (ring_pop rg r)) = capacity r)"

record ('e, 'd, 'f) opus_ops =
  encode_float :: "'e \<Rightarrow> 'f list \<Rightarrow> nat \<Rightarrow> (string + bytes) \<times> 'e"
  decode_float :: "'d \<Rightarrow> bytes \<Rightarrow> nat \<Rightarrow> bool \<Rightarrow> (string + 'f list) \<times> 'd"

definition encoder_ok :: "('e, 'd, 'f) opus_ops \<Rightarrow> bool" where
  "encoder_ok op \<longleftrightarrow> (\<forall>e b. length b = 960 \<longrightarrow> (\<exists>out. fst (encode_float op e b 1024) = Inr out))"

section \<open>The audio codec task\<close>

datatype 'f AudioIOMessage =
    RecordingPlay
  | RecordingPause
  | PlaybackPlay
  | PlaybackPause
  | PlaybackInbound "'f list"

record ('e, 'd, 'r) codec_task =
  encoder :: 'e
  decoder :: 'd
  recording_ring :: 'r

datatype ('m, 'f) codec_out =
    ToConnection "'m ConnectionMessage"
  | ToAudioIO "'f AudioIOMessage"

definition codec_init :: "('r, 'f) ring_ops \<Rightarrow> 'e \<Rightarrow> 'd \<Rightarrow> ('e, 'd, 'r) codec_task" where
  "codec_init rg e d = \<lparr>encoder = e, decoder = d, recording_ring = ring_new rg (48000 * 2)\<rparr>"

definition voice_message :: "bytes \<Rightarrow> 'm ConnectionMessage" where
  "voice_message output = VoiceMessage (Audio 0 () 0 (Opus output False) None)"

text \<open>
  The inner \<open>while\<close> loop: what it sends, and then the encoder and the ring, or a panic. When the
  connection task does not accept messages, the loop ends, with the frame popped and lost. \<open>None\<close> is
  running out of fuel.
\<close>

fun encode_loop ::
    "nat \<Rightarrow> ('r, 'f) ring_ops \<Rightarrow> ('e, 'd, 'f) opus_ops \<Rightarrow> bool \<Rightarrow> 'e \<Rightarrow> 'r \<Rightarrow>
      ('m ConnectionMessage list \<times> ('e \<times> 'r) outcome) option" where
  "encode_loop fuel rg op connection_open e r =
    (if ring_len rg r < 48000 div 50 then Some ([], Return (e, r))
     else case fuel of
         0 \<Rightarrow> None
       | Suc fuel \<Rightarrow>
           let (b, r) = pop_slice rg r (48000 div 50)
           in if length b \<noteq> 48000 div 50 then Some ([], Panic ''assertion failed'')
              else
                (case encode_float op e b 1024 of
                   (Inl err, e) \<Rightarrow> Some ([], Panic err)
                 | (Inr output, e) \<Rightarrow>
                     if connection_open then
                       map_option (\<lambda>(out, res). (voice_message output # out, res))
                         (encode_loop fuel rg op connection_open e r)
                     else Some ([], Return (e, r))))"

declare encode_loop.simps [simp del]

text \<open>
  One iteration of the outer loop: the messages sent, and the next state with whether to go on, or a
  panic. \<open>zero\<close> is \<open>0f32\<close>; \<open>connection_open\<close> and \<open>io_open\<close> say whether the other tasks accept messages.
\<close>

definition codec_step ::
    "('r, 'f) ring_ops \<Rightarrow> ('e, 'd, 'f) opus_ops \<Rightarrow> 'f \<Rightarrow> bool \<Rightarrow> bool \<Rightarrow> ('e, 'd, 'r) codec_task \<Rightarrow>
      'f AudioCodecMessage \<Rightarrow>
      (('m, 'f) codec_out list \<times> (('e, 'd, 'r) codec_task \<times> bool) outcome) option" where
  "codec_step rg op zero connection_open io_open self msg =
    (case msg of
       Outbound buffer \<Rightarrow>
         let r = push_slice rg (recording_ring self) buffer
         in map_option
              (\<lambda>(out, res). (map ToConnection out,
                 bind_outcome res (\<lambda>(e, r). Return (self\<lparr>encoder := e, recording_ring := r\<rparr>, True))))
              (encode_loop (ring_len rg r) rg op connection_open (encoder self) r)
     | Inbound voice_packet \<Rightarrow>
         Some (case voice_packet of
             Audio _ _ _ payload _ \<Rightarrow>
               (case payload of
                  Opus buffer end_bit \<Rightarrow>
                    (case decode_float op (decoder self) buffer (48000 div 50) end_bit of
                       (Inl err, d) \<Rightarrow> ([], Panic err)
                     | (Inr samples, d) \<Rightarrow>
                         let self = self\<lparr>decoder := d\<rparr>;
                             b = samples @ drop (length samples) (replicate (48000 div 50) zero)
                         in if io_open then ([ToAudioIO (PlaybackInbound b)], Return (self, True))
                            else ([], Return (self, False)))
                | _ \<Rightarrow> ([], Return (self, True)))
           | VoicePacket.Ping _ \<Rightarrow> ([], Panic ''not implemented: audio pings not supported yet'')))"

fun codec_run ::
    "('r, 'f) ring_ops \<Rightarrow> ('e, 'd, 'f) opus_ops \<Rightarrow> 'f \<Rightarrow> bool \<Rightarrow> bool \<Rightarrow> ('e, 'd, 'r) codec_task \<Rightarrow>
      'f AudioCodecMessage list \<Rightarrow>
      (('m, 'f) codec_out list \<times> (('e, 'd, 'r) codec_task \<times> bool) outcome) option" where
  "codec_run rg op zero co io self [] = Some ([], Return (self, True))"
| "codec_run rg op zero co io self (msg # msgs) =
    (case codec_step rg op zero co io self msg of
       Some (out, Return (self, True)) \<Rightarrow>
         map_option (\<lambda>(out', res). (out @ out', res)) (codec_run rg op zero co io self msgs)
     | r \<Rightarrow> r)"

section \<open>The audio io task\<close>

datatype device_call = InputPlay | InputPause | OutputPlay | OutputPause

text \<open>
  One iteration of its loop, on the ring of the speakers: the call to a device, if any, whose result
  is \<open>called\<close>, the ring, and whether to go on.
\<close>

definition audio_io_step ::
    "('r, 'f) ring_ops \<Rightarrow> 'r \<Rightarrow> 'f AudioIOMessage \<Rightarrow> string + unit \<Rightarrow> device_call list \<times> 'r \<times> bool" where
  "audio_io_step rg r msg called =
    (case msg of
       PlaybackInbound buffer \<Rightarrow> ([], push_slice rg r buffer, True)
     | RecordingPlay \<Rightarrow> ([InputPlay], r, \<not> isl called)
     | RecordingPause \<Rightarrow> ([InputPause], r, \<not> isl called)
     | PlaybackPlay \<Rightarrow> ([OutputPlay], r, \<not> isl called)
     | PlaybackPause \<Rightarrow> ([OutputPause], r, \<not> isl called))"

text \<open>The callback of the speakers: it overwrites every sample of the device's buffer.\<close>

fun output_data_fn :: "('r, 'f) ring_ops \<Rightarrow> 'f \<Rightarrow> 'r \<Rightarrow> 'f list \<Rightarrow> 'f list \<times> 'r" where
  "output_data_fn rg zero r [] = ([], r)"
| "output_data_fn rg zero r (dp # data) =
    (let (x, r) = ring_pop rg r;
         (data, r) = output_data_fn rg zero r data
     in ((case x of Some v \<Rightarrow> v | None \<Rightarrow> zero) # data, r))"

text \<open>The callback of the microphone.\<close>

definition input_data_fn :: "'f list \<Rightarrow> 'f AudioCodecMessage" where
  "input_data_fn data = Outbound data"

section \<open>Batching\<close>

text \<open>The specification: a stream of samples is cut into frames of 960, and a rest.\<close>

function chunks :: "'f list \<Rightarrow> 'f list list" where
  "chunks xs = (if length xs < 960 then [] else take 960 xs # chunks (drop 960 xs))"
  by pat_completeness auto
termination by (relation "measure length") auto

function leftover :: "'f list \<Rightarrow> 'f list" where
  "leftover xs = (if length xs < 960 then xs else leftover (drop 960 xs))"
  by pat_completeness auto
termination by (relation "measure length") auto

declare chunks.simps [simp del] leftover.simps [simp del]

lemma length_leftover: "length (leftover xs) < 960"
proof (induction xs rule: leftover.induct)
  case (1 xs)
  then show ?case by (cases "length xs < 960") (simp_all add: leftover.simps [of xs])
qed

lemma chunks_leftover: "concat (chunks xs) @ leftover xs = xs"
proof (induction xs rule: chunks.induct)
  case (1 xs)
  then show ?case by (cases "length xs < 960") (simp_all add: chunks.simps [of xs] leftover.simps [of xs])
qed

lemma chunks_append:
  "chunks (xs @ ys) = chunks xs @ chunks (leftover xs @ ys) \<and> leftover (xs @ ys) = leftover (leftover xs @ ys)"
proof (induction xs rule: chunks.induct)
  case (1 xs)
  show ?case
  proof (cases "length xs < 960")
    case True
    then show ?thesis by (simp add: chunks.simps [of xs] leftover.simps [of xs])
  next
    case False
    then have "chunks (xs @ ys) = take 960 xs # chunks (drop 960 xs @ ys)" "leftover (xs @ ys) = leftover (drop 960 xs @ ys)"
      "chunks xs = take 960 xs # chunks (drop 960 xs)" "leftover xs = leftover (drop 960 xs)"
      by (simp_all add: chunks.simps [of "xs @ ys"] leftover.simps [of "xs @ ys"] chunks.simps [of xs] leftover.simps [of xs])
    then show ?thesis using 1 [OF False] by simp
  qed
qed

fun encode_all :: "('e, 'd, 'f) opus_ops \<Rightarrow> 'e \<Rightarrow> 'f list list \<Rightarrow> bytes list \<times> 'e" where
  "encode_all op e [] = ([], e)"
| "encode_all op e (b # bs) =
    (case encode_float op e b 1024 of
       (Inl err, e) \<Rightarrow> ([], e)
     | (Inr out, e) \<Rightarrow> (let (outs, e) = encode_all op e bs in (out # outs, e)))"

lemma encoder_okD: "encoder_ok op \<Longrightarrow> length b = 960 \<Longrightarrow> \<exists>out e'. encode_float op e b 1024 = (Inr out, e')"
  by (metis encoder_ok_def prod.collapse)

lemma encode_all_append:
  assumes "encoder_ok op" and "list_all (\<lambda>b. length b = 960) xs"
  shows "encode_all op e (xs @ ys) =
    (let (outs, e) = encode_all op e xs; (outs', e) = encode_all op e ys in (outs @ outs', e))"
  using assms(2)
proof (induction xs arbitrary: e)
  case (Cons x xs)
  obtain out e1 where "encode_float op e x 1024 = (Inr out, e1)"
    using encoder_okD [OF assms(1), of x e] Cons.prems by auto
  then show ?case using Cons by (simp add: Let_def split: prod.splits)
qed (simp split: prod.splits)

lemma chunks_lengths: "list_all (\<lambda>b. length b = 960) (chunks xs)"
proof (induction xs rule: chunks.induct)
  case (1 xs)
  then show ?case by (cases "length xs < 960") (simp_all add: chunks.simps [of xs])
qed

lemma length_chunks: "length (chunks xs) = length xs div 960"
proof (induction xs rule: chunks.induct)
  case (1 xs)
  then show ?case
    by (cases "length xs < 960") (simp_all add: chunks.simps [of xs] le_div_geq [of 960 "length xs"])
qed

lemma encode_loop_drains:
  assumes ring: "ring_ok rg contents capacity" and "encoder_ok op"
  shows "length (contents r) \<le> fuel \<Longrightarrow>
    \<exists>r'. encode_loop fuel rg op True e r
        = Some (map (voice_message :: bytes \<Rightarrow> 'm ConnectionMessage) (fst (encode_all op e (chunks (contents r)))),
            Return (snd (encode_all op e (chunks (contents r))), r')) \<and>
      contents r' = leftover (contents r) \<and> capacity r' = capacity r"
proof (induction fuel arbitrary: e r)
  case 0
  then show ?case
    using ring by (simp add: encode_loop.simps ring_ok_def chunks.simps [of "[]"] leftover.simps [of "[]"])
next
  case (Suc fuel)
  have len: "ring_len rg r = length (contents r)" using ring by (simp add: ring_ok_def)
  show ?case
  proof (cases "length (contents r) < 960")
    case True
    then show ?thesis
      by (simp add: encode_loop.simps len chunks.simps [of "contents r"] leftover.simps [of "contents r"])
  next
    case False
    obtain b r1 where pop: "pop_slice rg r 960 = (b, r1)" by fastforce
    then have b: "b = take 960 (contents r)" "contents r1 = drop 960 (contents r)" "capacity r1 = capacity r"
      using ring unfolding ring_ok_def by (metis fst_conv, metis snd_conv, metis snd_conv)
    obtain out e1 where enc: "encode_float op e b 1024 = (Inr out, e1)"
      using encoder_okD [OF assms(2), of b e] b(1) False by auto
    obtain r' where "encode_loop fuel rg op True e1 r1
        = Some (map (voice_message :: bytes \<Rightarrow> 'm ConnectionMessage) (fst (encode_all op e1 (chunks (contents r1)))),
            Return (snd (encode_all op e1 (chunks (contents r1))), r'))"
      "contents r' = leftover (contents r1)" "capacity r' = capacity r1"
      using Suc.IH [of r1 e1] Suc.prems False b(2) by force
    then show ?thesis
      using False b enc pop
      by (simp add: encode_loop.simps [of "Suc fuel"] len chunks.simps [of "contents r"] leftover.simps [of "contents r"]
          split: prod.splits)
  qed
qed

text \<open>A buffer that fits is batched together with what the ring still holds.\<close>

lemma codec_step_outbound:
  fixes self :: "('e, 'd, 'r) codec_task"
  assumes ring: "ring_ok rg contents capacity" and enc: "encoder_ok op"
    and fits: "length (contents (recording_ring self)) + length buf \<le> capacity (recording_ring self)"
  defines "xs \<equiv> contents (recording_ring self) @ buf"
  shows "\<exists>self'. codec_step rg op zero True io self (Outbound buf)
      = Some (map (ToConnection \<circ> (voice_message :: bytes \<Rightarrow> 'm ConnectionMessage))
          (fst (encode_all op (encoder self) (chunks xs))), Return (self', True)) \<and>
    contents (recording_ring self') = leftover xs \<and>
    capacity (recording_ring self') = capacity (recording_ring self) \<and>
    encoder self' = snd (encode_all op (encoder self) (chunks xs))"
proof -
  define r where "r = push_slice rg (recording_ring self) buf"
  have r: "contents r = xs" "capacity r = capacity (recording_ring self)" "ring_len rg r = length xs"
    using ring fits by (auto simp: ring_ok_def r_def xs_def)
  then obtain r1 where "encode_loop (ring_len rg r) rg op True (encoder self) r
      = Some (map (voice_message :: bytes \<Rightarrow> 'm ConnectionMessage) (fst (encode_all op (encoder self) (chunks xs))),
          Return (snd (encode_all op (encoder self) (chunks xs)), r1))"
    "contents r1 = leftover xs" "capacity r1 = capacity r"
    using encode_loop_drains [OF ring enc, of r "ring_len rg r" "encoder self"] by auto
  then show ?thesis by (simp add: codec_step_def r flip: r_def)
qed

lemma codec_run_batches:
  assumes ring: "ring_ok rg contents capacity" and enc: "encoder_ok op"
  shows "length (contents (recording_ring self)) < 960 \<Longrightarrow>
    \<forall>b \<in> set bufs. length b + 959 \<le> capacity (recording_ring self) \<Longrightarrow>
    \<exists>self'. codec_run rg op zero True io self (map Outbound bufs)
      = Some (map (ToConnection \<circ> (voice_message :: bytes \<Rightarrow> 'm ConnectionMessage))
          (fst (encode_all op (encoder self) (chunks (contents (recording_ring self) @ concat bufs)))),
          Return (self', True)) \<and>
    contents (recording_ring self') = leftover (contents (recording_ring self) @ concat bufs) \<and>
    encoder self' = snd (encode_all op (encoder self) (chunks (contents (recording_ring self) @ concat bufs)))"
proof (induction bufs arbitrary: self)
  case Nil
  then show ?case
    by (simp add: chunks.simps [of "contents (recording_ring self)"] leftover.simps [of "contents (recording_ring self)"])
next
  case (Cons buf bufs)
  define xs where "xs = contents (recording_ring self)"
  have "length (contents (recording_ring self)) + length buf \<le> capacity (recording_ring self)"
    using Cons.prems by auto
  from codec_step_outbound [OF ring enc this, of zero io] obtain self1 where
    step: "codec_step rg op zero True io self (Outbound buf)
      = Some (map (ToConnection \<circ> (voice_message :: bytes \<Rightarrow> 'm ConnectionMessage))
          (fst (encode_all op (encoder self) (chunks (xs @ buf)))), Return (self1, True))"
    and self1: "contents (recording_ring self1) = leftover (xs @ buf)"
      "capacity (recording_ring self1) = capacity (recording_ring self)"
      "encoder self1 = snd (encode_all op (encoder self) (chunks (xs @ buf)))"
    by (auto simp: xs_def)
  obtain self2 where "codec_run rg op zero True io self1 (map Outbound bufs)
      = Some (map (ToConnection \<circ> (voice_message :: bytes \<Rightarrow> 'm ConnectionMessage))
          (fst (encode_all op (encoder self1) (chunks (leftover (xs @ buf) @ concat bufs)))), Return (self2, True))"
    "contents (recording_ring self2) = leftover (leftover (xs @ buf) @ concat bufs)"
    "encoder self2 = snd (encode_all op (encoder self1) (chunks (leftover (xs @ buf) @ concat bufs)))"
    using Cons.IH [of self1] Cons.prems self1 length_leftover [of "xs @ buf"] by auto
  moreover have "chunks (xs @ concat (buf # bufs)) = chunks (xs @ buf) @ chunks (leftover (xs @ buf) @ concat bufs)"
    "leftover (xs @ concat (buf # bufs)) = leftover (leftover (xs @ buf) @ concat bufs)"
    using chunks_append [of "xs @ buf" "concat bufs"] by simp_all
  moreover note encode_all_append [OF enc chunks_lengths [of "xs @ buf"], of "encoder self"]
  ultimately show ?case
    using step self1 by (simp flip: xs_def split: prod.splits)
qed

lemma output_data_fn_plays:
  assumes ring: "ring_ok rg contents capacity"
  shows "\<exists>r'. output_data_fn rg zero r data =
      (take (length data) (contents r) @ replicate (length data - length (contents r)) zero, r') \<and>
    contents r' = drop (length data) (contents r) \<and> capacity r' = capacity r"
proof (induction data arbitrary: r)
  case (Cons dp data)
  obtain x r1 where pop: "ring_pop rg r = (x, r1)" by fastforce
  then have r1: "contents r1 = drop 1 (contents r)" "capacity r1 = capacity r"
    and x: "x = (case contents r of [] \<Rightarrow> None | v # vs \<Rightarrow> Some v)"
    using ring unfolding ring_ok_def by (metis snd_conv, metis snd_conv, metis (no_types, lifting) fst_conv list.case_eq_if)
  then show ?case using Cons [of r1] pop by (cases "contents r") auto
qed simp

section \<open>Properties\<close>

text \<open>
  C21. The microphone's stream is sent without loss or reordering. From the start, as long as the
  connection task accepts messages and no buffer of the microphone exceeds 95041 samples, the audio
  codec task never panics nor runs out of fuel; it sends exactly one voice packet per frame of 960
  consecutive samples of the stream, encoded in order by the one encoder, and keeps the rest of the
  stream, less than a frame, for later.
\<close>

theorem audio_batching:
  assumes "ring_ok rg contents capacity" and "encoder_ok op" and "\<forall>b \<in> set bufs. length b \<le> 95041"
  shows "\<exists>self'. codec_run rg op zero True io (codec_init rg e d) (map Outbound bufs)
      = Some (map (ToConnection \<circ> voice_message) (fst (encode_all op e (chunks (concat bufs)))), Return (self', True)) \<and>
    concat (chunks (concat bufs)) @ contents (recording_ring self') = concat bufs \<and>
    length (contents (recording_ring self')) < 960"
proof -
  have "contents (ring_new rg 96000) = []" "capacity (ring_new rg 96000) = 96000"
    using assms(1) by (auto simp: ring_ok_def)
  then show ?thesis
    using codec_run_batches [OF assms(1,2), of "codec_init rg e d" bufs zero io] assms(3)
      chunks_leftover [of "concat bufs"] length_leftover [of "concat bufs"]
    by (fastforce simp: codec_init_def)
qed

text \<open>A ring that is a list with a capacity, and an encoder that numbers its packets, for the witnesses.\<close>

definition list_ring :: "(nat \<times> 'f list, 'f) ring_ops" where
  "list_ring = \<lparr>
     ring_new = (\<lambda>n. (n, [])), ring_len = (\<lambda>(n, xs). length xs),
     push_slice = (\<lambda>(n, xs) ys. (n, xs @ take (n - length xs) ys)),
     pop_slice = (\<lambda>(n, xs) k. (take k xs, (n, drop k xs))),
     ring_pop = (\<lambda>(n, xs). (case xs of [] \<Rightarrow> None | x # _ \<Rightarrow> Some x, (n, drop 1 xs)))\<rparr>"

lemma list_ring_ok: "ring_ok list_ring snd fst"
  by (auto simp: ring_ok_def list_ring_def split: list.splits)

definition counting_opus :: "(u8, unit, nat) opus_ops" where
  "counting_opus = \<lparr>encode_float = (\<lambda>e b n. (Inr [e], e + 1)), decode_float = (\<lambda>d bs n fec. (Inr (map unat bs), d))\<rparr>"

lemma counting_opus_ok: "encoder_ok counting_opus"
  by (simp add: encoder_ok_def counting_opus_def)

definition sample_bufs :: "nat list list" where
  "sample_bufs = [replicate 1000 1, replicate 1000 2]"

theorem audio_batching_witness:
  "\<exists>self'. codec_run list_ring counting_opus 0 True True (codec_init list_ring 7 ()) (map Outbound sample_bufs)
    = Some ([ToConnection (voice_message [7]), ToConnection (voice_message [8])], Return (self', True))"
proof -
  have "length (chunks (concat sample_bufs)) = Suc (Suc 0)" by (simp add: length_chunks sample_bufs_def)
  then obtain b1 b2 where chunks: "chunks (concat sample_bufs) = [b1, b2]" by (auto simp: length_Suc_conv)
  have "\<forall>b \<in> set sample_bufs. length b \<le> 95041" by (simp add: sample_bufs_def)
  from audio_batching [OF list_ring_ok counting_opus_ok this, of 0 True 7 "()"] chunks show ?thesis
    by (auto simp: counting_opus_def)
qed

text \<open>
  The speakers play what was queued, in order, and then silence. After a buffer that fits was
  handed to the audio io task, the callback fills a device buffer of any size with the oldest
  queued samples, the new ones last, pads it with zeros, and leaves the other samples queued.
\<close>

theorem playback_is_fifo:
  assumes "ring_ok rg contents capacity" and "length (contents r) + length buffer \<le> capacity r"
  shows "\<exists>r1 r2. audio_io_step rg r (PlaybackInbound buffer) called = ([], r1, True) \<and>
    output_data_fn rg zero r1 data =
      (take (length data) (contents r @ buffer) @
       replicate (length data - (length (contents r) + length buffer)) zero, r2) \<and>
    contents r2 = drop (length data) (contents r @ buffer)"
proof -
  have "contents (push_slice rg r buffer) = contents r @ buffer"
    using assms by (simp add: ring_ok_def)
  then show ?thesis
    using output_data_fn_plays [OF assms(1), of zero "push_slice rg r buffer" data]
    by (auto simp: audio_io_step_def simp del: take_append drop_append)
qed

theorem playback_is_fifo_witness:
  "\<exists>r1 r2. audio_io_step list_ring (10, [1, 2]) (PlaybackInbound [3 :: nat]) (Inr ()) = ([], r1, True) \<and>
    output_data_fn list_ring 0 r1 [9, 9, 9, 9, 9] = ([1, 2, 3, 0, 0], r2)"
  using playback_is_fifo [OF list_ring_ok, of "(10, [1, 2])" "[3 :: nat]" "Inr ()" 0 "[9, 9, 9, 9, 9]"]
  by (auto simp: numeral_eq_Suc)

text \<open>
  Packets of the server which stop the audio codec task: a voice ping, and a voice packet the
  decoder refuses, which includes one of more than a frame.
\<close>

lemma codec_panics_on_server_input:
  assumes "decode_float op (decoder self) buffer 960 end_bit = (Inl err, d)"
  shows "codec_step rg op zero co io self (Inbound (VoicePacket.Ping t))
      = Some ([], Panic ''not implemented: audio pings not supported yet'') \<and>
    codec_step rg op zero co io self (Inbound (Audio target s seq_num (Opus buffer end_bit) pos)) = Some ([], Panic err)"
  using assms by (simp add: codec_step_def)

text \<open>
  A closed connection ends only the inner loop: the frame is lost, and the task goes on to the next
  message, whatever the ring holds.
\<close>

lemma codec_survives_closed_connection:
  assumes "ring_ok rg contents capacity" and "encoder_ok op"
  shows "\<exists>self'. codec_step rg op zero False io self (Outbound buffer) = Some ([], Return (self', True))"
proof -
  define r where "r = push_slice rg (recording_ring self) buffer"
  have len: "ring_len rg r = length (contents r)" using assms(1) by (simp add: ring_ok_def)
  show ?thesis
  proof (cases "length (contents r) < 960")
    case True
    then show ?thesis by (simp add: codec_step_def encode_loop.simps len flip: r_def)
  next
    case False
    obtain b r1 where pop: "pop_slice rg r 960 = (b, r1)" by fastforce
    then have "b = take 960 (contents r)" using assms(1) unfolding ring_ok_def by (metis fst_conv)
    then have "length b = 960" using False by simp
    moreover from this obtain out e1 where "encode_float op (encoder self) b 1024 = (Inr out, e1)"
      using encoder_okD [OF assms(2)] by blast
    moreover obtain n where "ring_len rg r = Suc n" "960 \<le> ring_len rg r"
      using False by (cases "ring_len rg r") (auto simp: len)
    ultimately show ?thesis
      using pop by (simp add: codec_step_def encode_loop.simps flip: r_def)
  qed
qed

end
