(* ===== verification/Client.thy ===== *)
theory Client
  imports Client_Audio "HOL-Library.Sublist"
begin

text \<open>
  The client as a whole, \<open>run_stutter_task\<close> of \<open>stutter/src/lib.rs\<close>: the connection task, the audio
  codec task and the audio io task, joined in one, with the three channels between them and the
  callbacks of the audio devices. The opening of the devices, \<open>init_input_stream\<close> and
  \<open>init_output_stream\<close> of \<open>stutter/src/task_audio_io.rs\<close>, is here too; what the library \<open>cpal\<close> answers
  is the record \<open>host\<close>.

  A step is one iteration of one task's loop, or one call of a callback; a run is any
  interleaving. Labels are what the server, the microphone and the speakers see. A panic of a task is
  a panic of the client, the flag \<open>client_crashed\<close>.
\<close>

section \<open>Opening the audio devices\<close>

record 'c device =
  device_name :: "string + string"
  default_config :: "string + 'c"
  set_buffer_size :: "'c \<Rightarrow> nat \<Rightarrow> 'c"
  build_stream :: "'c \<Rightarrow> string + unit"

record 'c host =
  default_input_device :: "'c device option"
  default_output_device :: "'c device option"

definition init_input_stream :: "'c host \<Rightarrow> string + unit" where
  "init_input_stream host =
    (case default_input_device host of
       None \<Rightarrow> Inl ''no input device found''
     | Some device \<Rightarrow>
         bind_result (device_name device) (\<lambda>_.
         bind_result (default_config device) (\<lambda>config.
         build_stream device (set_buffer_size device config (48000 div 50)))))"

definition init_output_stream :: "'c host \<Rightarrow> string + unit" where
  "init_output_stream host =
    (case default_output_device host of
       None \<Rightarrow> Inl ''no output device found''
     | Some device \<Rightarrow>
         bind_result (device_name device) (\<lambda>_.
         bind_result (default_config device) (\<lambda>config.
         build_stream device (set_buffer_size device config (48000 div 50)))))"

text \<open>
  The error callbacks the devices are opened with: that of the microphone warns, that of the speakers panics.
\<close>

definition input_err_fn :: "string \<Rightarrow> unit outcome" where
  "input_err_fn err = Return ()"

definition output_err_fn :: "string \<Rightarrow> unit outcome" where
  "output_err_fn err = Panic (''an error occured while writing samples to output (speakers): '' @ err)"

text \<open>The audio io task before its loop: the ring of the speakers, unless a device fails to open.\<close>

definition audio_io_start :: "'c host \<Rightarrow> ('r, 'f) ring_ops \<Rightarrow> 'r option" where
  "audio_io_start host rg =
    (case init_input_stream host of
       Inl err \<Rightarrow> None
     | Inr input_stream \<Rightarrow>
         let ring = ring_new rg (48000 * 2)
         in case init_output_stream host of Inl err \<Rightarrow> None | Inr output_stream \<Rightarrow> Some ring)"

section \<open>State\<close>

datatype phase = Handshaking | Running | Stopped

datatype 'r io_phase = IoStarting | IoRunning 'r | IoStopped

record ('m, 'f, 'e, 'd, 'r) client =
  connection :: phase
  connection_queue :: "'m ConnectionMessage list"
  codec :: "('e, 'd, 'r) codec_task option"
  codec_queue :: "'f AudioCodecMessage list"
  audio_io :: "'r io_phase"
  audio_io_queue :: "'f AudioIOMessage list"
  speakers_dead :: bool
  client_crashed :: bool

definition client_init :: "('r, 'f) ring_ops \<Rightarrow> 'e \<Rightarrow> 'd \<Rightarrow> ('m, 'f, 'e, 'd, 'r) client" where
  "client_init rg e d = \<lparr>connection = Handshaking, connection_queue = [], codec = Some (codec_init rg e d),
     codec_queue = [], audio_io = IoStarting, audio_io_queue = [RecordingPlay, PlaybackPlay],
     speakers_dead = False, client_crashed = False\<rparr>"

text \<open>The tasks have all ended, and \<open>run_stutter_task\<close> returns.\<close>

definition client_stopped :: "('m, 'f, 'e, 'd, 'r) client \<Rightarrow> bool" where
  "client_stopped s \<longleftrightarrow> connection s = Stopped \<and> codec s = None \<and> audio_io s = IoStopped"

text \<open>Sending: a task that has ended has dropped its receiver, and what is sent to it is lost.\<close>

definition to_codec :: "'f AudioCodecMessage list \<Rightarrow> ('m, 'f, 'e, 'd, 'r) client \<Rightarrow> ('m, 'f, 'e, 'd, 'r) client" where
  "to_codec msgs s = (if codec s = None then s else s\<lparr>codec_queue := codec_queue s @ msgs\<rparr>)"

fun codec_post :: "('m, 'f) codec_out list \<Rightarrow> ('m, 'f, 'e, 'd, 'r) client \<Rightarrow> ('m, 'f, 'e, 'd, 'r) client" where
  "codec_post [] s = s"
| "codec_post (ToConnection m # outs) s = codec_post outs (s\<lparr>connection_queue := connection_queue s @ [m]\<rparr>)"
| "codec_post (ToAudioIO m # outs) s = codec_post outs (s\<lparr>audio_io_queue := audio_io_queue s @ [m]\<rparr>)"

fun server_packets :: "('m, 'f) connection_out list \<Rightarrow> (unit, 'm) ControlPacket list" where
  "server_packets [] = []"
| "server_packets (ToServer p # outs) = p # server_packets outs"
| "server_packets (ToCodec m # outs) = server_packets outs"

fun codec_messages :: "('m, 'f) connection_out list \<Rightarrow> 'f AudioCodecMessage list" where
  "codec_messages [] = []"
| "codec_messages (ToServer p # outs) = codec_messages outs"
| "codec_messages (ToCodec m # outs) = m # codec_messages outs"

section \<open>Steps\<close>

datatype ('m, 'f) client_label =
    SentToServer "(unit, 'm) ControlPacket list"
  | FromServer "(u32, 'm) ControlPacket"
  | Recorded "'f list"
  | Played "'f list"
  | ServerOverflow bytes nat
  | OutputError string
  | DeviceFailure
  | ClockFailure
  | Silent

text \<open>The event the connection task handles, with the rest of its queue, and what the outside sees.\<close>

fun connection_event_ok ::
    "('m, 'f, 'e, 'd, 'r) client \<Rightarrow> 'm connection_event \<Rightarrow> 'm ConnectionMessage list \<Rightarrow> bool" where
  "connection_event_ok s (TaskNext (Some m) sent) rest \<longleftrightarrow> connection_queue s = m # rest"
| "connection_event_ok s (TaskNext None sent) rest \<longleftrightarrow> connection_queue s = [] \<and> rest = [] \<and> codec s = None"
| "connection_event_ok s ev rest \<longleftrightarrow> rest = connection_queue s"

fun connection_label :: "'m connection_event \<Rightarrow> ('m, 'f) connection_out list \<Rightarrow> ('m, 'f) client_label" where
  "connection_label (ServerNext (Some (Inr p))) outs = FromServer p"
| "connection_label ev outs = SentToServer (server_packets outs)"

text \<open>
  The callbacks run on threads of \<open>cpal\<close>. The panic of \<open>output_err_fn\<close> aborts the process where the profiles of
  \<open>stutter/Cargo.toml\<close> are in force (\<open>panic = "abort"\<close>), and ends the thread of the speakers alone in a build of the workspace,
  for which the profiles of a member do not count: both are steps. \<open>overflow\<close> is the way in which decoding brings the client down, as
  it does the server: a voice packet of bytes \<open>bs\<close> whose varints nest more calls than the \<open>frames\<close> the stack of the thread has room for.
\<close>

inductive client_step ::
    "StutterConfig \<Rightarrow> 'c host \<Rightarrow> 'm client_msgs \<Rightarrow> ('r, 'f) ring_ops \<Rightarrow> ('e, 'd, 'f) opus_ops \<Rightarrow> 'f \<Rightarrow>
      ('m, 'f, 'e, 'd, 'r) client \<Rightarrow> ('m, 'f) client_label \<Rightarrow> ('m, 'f, 'e, 'd, 'r) client \<Rightarrow> bool"
  for cfg host cm rg op zero where
  handshake_fails:
    "\<not> client_crashed s \<Longrightarrow> connection s = Handshaking \<Longrightarrow>
     handshake cm sent received auth_sent = (out, Inl err) \<Longrightarrow>
     client_step cfg host cm rg op zero s (SentToServer out) (s\<lparr>connection := Stopped\<rparr>)"
| handshake_succeeds:
    "\<not> client_crashed s \<Longrightarrow> connection s = Handshaking \<Longrightarrow>
     handshake cm sent received auth_sent = (out, Inr u) \<Longrightarrow> ping_interval cfg > 0 \<Longrightarrow>
     client_step cfg host cm rg op zero s (SentToServer out) (s\<lparr>connection := Running\<rparr>)"
| interval_panic:
    "\<not> client_crashed s \<Longrightarrow> connection s = Handshaking \<Longrightarrow>
     handshake cm sent received auth_sent = (out, Inr u) \<Longrightarrow> ping_interval cfg = 0 \<Longrightarrow>
     client_step cfg host cm rg op zero s (SentToServer out) (s\<lparr>client_crashed := True\<rparr>)"
| connection:
    "\<not> client_crashed s \<Longrightarrow> connection s = Running \<Longrightarrow> connection_event_ok s ev rest \<Longrightarrow>
     connection_step cm ev = Return (outs, flow) \<Longrightarrow>
     client_step cfg host cm rg op zero s (connection_label ev outs)
       (to_codec (codec_messages outs)
         (s\<lparr>connection := (if flow = Continue then Running else Stopped), connection_queue := rest\<rparr>))"
| connection_panic:
    "\<not> client_crashed s \<Longrightarrow> connection s = Running \<Longrightarrow>
     (connection_step cm ev :: (('m, 'f) connection_out list \<times> flow) outcome) = Panic e \<Longrightarrow>
     client_step cfg host cm rg op zero s ClockFailure (s\<lparr>client_crashed := True\<rparr>)"
| codec:
    "\<not> client_crashed s \<Longrightarrow> codec s = Some self \<Longrightarrow> codec_queue s = m # q \<Longrightarrow>
     codec_step rg op zero (connection s \<noteq> Stopped) (audio_io s \<noteq> IoStopped) self m
       = Some (outs, Return (self', go_on)) \<Longrightarrow>
     client_step cfg host cm rg op zero s Silent
       (codec_post outs (s\<lparr>codec_queue := q, codec := (if go_on then Some self' else None)\<rparr>))"
| codec_panic:
    "\<not> client_crashed s \<Longrightarrow> codec s = Some self \<Longrightarrow> codec_queue s = m # q \<Longrightarrow>
     codec_step rg op zero (connection s \<noteq> Stopped) (audio_io s \<noteq> IoStopped) self m = Some (outs, Panic e) \<Longrightarrow>
     client_step cfg host cm rg op zero s Silent (codec_post outs (s\<lparr>codec_queue := q, client_crashed := True\<rparr>))"
| codec_stops:
    "\<not> client_crashed s \<Longrightarrow> codec s = Some self \<Longrightarrow> codec_queue s = [] \<Longrightarrow>
     connection s = Stopped \<Longrightarrow> audio_io s = IoStopped \<Longrightarrow>
     client_step cfg host cm rg op zero s Silent (s\<lparr>codec := None\<rparr>)"
| io_starts:
    "\<not> client_crashed s \<Longrightarrow> audio_io s = IoStarting \<Longrightarrow> audio_io_start host rg = Some r \<Longrightarrow>
     client_step cfg host cm rg op zero s Silent (s\<lparr>audio_io := IoRunning r\<rparr>)"
| io_fails:
    "\<not> client_crashed s \<Longrightarrow> audio_io s = IoStarting \<Longrightarrow> audio_io_start host rg = None \<Longrightarrow>
     client_step cfg host cm rg op zero s DeviceFailure (s\<lparr>audio_io := IoStopped\<rparr>)"
| io:
    "\<not> client_crashed s \<Longrightarrow> audio_io s = IoRunning r \<Longrightarrow> audio_io_queue s = m # q \<Longrightarrow>
     audio_io_step rg r m called = (calls, r', go_on) \<Longrightarrow>
     client_step cfg host cm rg op zero s (if go_on then Silent else DeviceFailure)
       (s\<lparr>audio_io_queue := q, audio_io := (if go_on then IoRunning r' else IoStopped)\<rparr>)"
| io_stops:
    "\<not> client_crashed s \<Longrightarrow> audio_io s = IoRunning r \<Longrightarrow> audio_io_queue s = [] \<Longrightarrow> codec s = None \<Longrightarrow>
     client_step cfg host cm rg op zero s Silent (s\<lparr>audio_io := IoStopped\<rparr>)"
| records:
    "\<not> client_crashed s \<Longrightarrow> audio_io s = IoRunning r \<Longrightarrow>
     client_step cfg host cm rg op zero s (Recorded data) (to_codec [input_data_fn data] s)"
| overflow:
    "\<not> client_crashed s \<Longrightarrow> connection s \<noteq> Stopped \<Longrightarrow> 0 < frames \<Longrightarrow> frames < clientbound_nesting bs \<Longrightarrow>
     client_step cfg host cm rg op zero s (ServerOverflow bs frames) (s\<lparr>client_crashed := True\<rparr>)"
| input_error:
    "\<not> client_crashed s \<Longrightarrow> audio_io s = IoRunning r \<Longrightarrow> input_err_fn err = Return u \<Longrightarrow>
     client_step cfg host cm rg op zero s Silent s"
| output_error_aborts:
    "\<not> client_crashed s \<Longrightarrow> audio_io s = IoRunning r \<Longrightarrow> \<not> speakers_dead s \<Longrightarrow> output_err_fn err = Panic msg \<Longrightarrow>
     client_step cfg host cm rg op zero s (OutputError err) (s\<lparr>client_crashed := True\<rparr>)"
| output_error_unwinds:
    "\<not> client_crashed s \<Longrightarrow> audio_io s = IoRunning r \<Longrightarrow> \<not> speakers_dead s \<Longrightarrow> output_err_fn err = Panic msg \<Longrightarrow>
     client_step cfg host cm rg op zero s (OutputError err) (s\<lparr>speakers_dead := True\<rparr>)"
| plays:
    "\<not> client_crashed s \<Longrightarrow> audio_io s = IoRunning r \<Longrightarrow> \<not> speakers_dead s \<Longrightarrow> output_data_fn rg zero r buf = (data, r') \<Longrightarrow>
     client_step cfg host cm rg op zero s (Played data) (s\<lparr>audio_io := IoRunning r'\<rparr>)"

inductive client_run ::
    "StutterConfig \<Rightarrow> 'c host \<Rightarrow> 'm client_msgs \<Rightarrow> ('r, 'f) ring_ops \<Rightarrow> ('e, 'd, 'f) opus_ops \<Rightarrow> 'f \<Rightarrow> 'e \<Rightarrow> 'd \<Rightarrow>
      ('m, 'f) client_label list \<Rightarrow> ('m, 'f, 'e, 'd, 'r) client \<Rightarrow> bool"
  for cfg host cm rg op zero e d where
  init: "client_run cfg host cm rg op zero e d [] (client_init rg e d)"
| step: "client_run cfg host cm rg op zero e d tr s \<Longrightarrow> client_step cfg host cm rg op zero s l s' \<Longrightarrow>
    client_run cfg host cm rg op zero e d (tr @ [l]) s'"

section \<open>Effects of the helpers\<close>

lemma to_codec_simps [simp]:
  "connection (to_codec ms s) = connection s" "connection_queue (to_codec ms s) = connection_queue s"
  "codec (to_codec ms s) = codec s" "audio_io (to_codec ms s) = audio_io s"
  "audio_io_queue (to_codec ms s) = audio_io_queue s" "speakers_dead (to_codec ms s) = speakers_dead s"
  "client_crashed (to_codec ms s) = client_crashed s"
  "codec_queue (to_codec ms s) = (if codec s = None then codec_queue s else codec_queue s @ ms)"
  by (simp_all add: to_codec_def)

fun for_connection :: "('m, 'f) codec_out list \<Rightarrow> 'm ConnectionMessage list" where
  "for_connection [] = []"
| "for_connection (ToConnection m # outs) = m # for_connection outs"
| "for_connection (ToAudioIO m # outs) = for_connection outs"

lemma codec_post_simps [simp]:
  "connection (codec_post outs s) = connection s" "codec (codec_post outs s) = codec s"
  "codec_queue (codec_post outs s) = codec_queue s" "audio_io (codec_post outs s) = audio_io s"
  "speakers_dead (codec_post outs s) = speakers_dead s" "client_crashed (codec_post outs s) = client_crashed s"
  "connection_queue (codec_post outs s) = connection_queue s @ for_connection outs"
  by (induction outs s rule: codec_post.induct) simp_all

lemma for_connection_voice [simp]:
  "for_connection (map (ToConnection \<circ> f) xs) = map f xs"
  by (induction xs) simp_all

section \<open>Who ends when\<close>

lemma codec_step_inbound:
  assumes "codec_step rg op zero co io self (Inbound v) = Some (outs, Return (self', go_on))"
  shows "for_connection outs = [] \<and> encoder self' = encoder self \<and> recording_ring self' = recording_ring self \<and>
    (io \<longrightarrow> go_on)"
  using assms
  by (auto simp: codec_step_def Let_def split: VoicePacket.splits VoicePacketPayload.splits prod.splits
      sum.splits if_splits)

lemma codec_step_ends:
  assumes "codec_step rg op zero co io self m = Some (outs, Return (self', False))"
  shows "\<not> io"
proof (cases m)
  case (Outbound b)
  with assms show ?thesis by (auto simp: codec_step_def Let_def bind_outcome_eq_Return)
qed (use assms codec_step_inbound [of rg op zero co io self _ outs self' False] in auto)

text \<open>Samples never make the codec task panic; packets of the server may.\<close>

lemma codec_outbound_returns:
  fixes self :: "('e, 'd, 'r) codec_task"
  assumes "ring_ok rg contents capacity" and "encoder_ok op"
  shows "\<exists>outs :: ('m, 'f) codec_out list. \<exists>self'. codec_step rg op zero co io self (Outbound b) = Some (outs, Return (self', True))"
proof (cases co)
  case True
  define r where "r = push_slice rg (recording_ring self) b"
  have "length (contents r) \<le> ring_len rg r" using assms(1) by (simp add: ring_ok_def)
  from encode_loop_drains [OF assms this, of "encoder self", where 'm = 'm] show ?thesis
    using True by (auto simp: codec_step_def simp flip: r_def)
next
  case False
  then show ?thesis by (intro exI [of _ "[]"]) (simp add: codec_survives_closed_connection [OF assms])
qed

fun undecodable :: "('e, 'd, 'f) opus_ops \<Rightarrow> u32 VoicePacket \<Rightarrow> bool" where
  "undecodable op (VoicePacket.Ping t) \<longleftrightarrow> True"
| "undecodable op (Audio target s seq_num (Opus buffer end_bit) pos) \<longleftrightarrow>
    (\<exists>d. isl (fst (decode_float op d buffer 960 end_bit)))"
| "undecodable op _ \<longleftrightarrow> False"

lemma codec_panic_cause:
  fixes self :: "('e, 'd, 'r) codec_task" and outs :: "('m, 'f) codec_out list"
  assumes "ring_ok rg contents capacity" and "encoder_ok op"
    and "codec_step rg op zero co io self m = Some (outs, Panic err)"
  shows "\<exists>v. m = Inbound v \<and> outs = [] \<and> undecodable op v"
proof (cases m)
  case (Outbound b)
  then show ?thesis using assms(3) codec_outbound_returns [OF assms(1,2), of zero co io self b, where 'm = 'm] by auto
next
  case (Inbound v)
  then show ?thesis using assms(3)
    by (cases "(op, v)" rule: undecodable.cases)
      (auto simp: codec_step_def Let_def split: prod.splits sum.splits if_splits intro: exI [of _ "decoder self"])
qed

text \<open>The codec task and the audio io task each wait for the other to end first.\<close>

lemma audio_goes_on:
  assumes "client_run cfg host cm rg op zero e d tr s"
  shows "(codec s = None \<longrightarrow> audio_io s = IoStopped) \<and> (audio_io s = IoStopped \<longrightarrow> DeviceFailure \<in> set tr)"
  using assms
proof (induction rule: client_run.induct)
  case (step tr s l s')
  from step.hyps(2) step.IH show ?case
    by (cases rule: client_step.cases) (auto dest: codec_step_ends split: if_splits)
qed (simp add: client_init_def)

section \<open>The voice path\<close>

fun packet_voice :: "(unit, 'm) ControlPacket \<Rightarrow> unit VoicePacket list" where
  "packet_voice (UDPTunnel v) = [v]"
| "packet_voice _ = []"

fun label_voice :: "('m, 'f) client_label \<Rightarrow> unit VoicePacket list" where
  "label_voice (SentToServer ps) = concat (map packet_voice ps)"
| "label_voice _ = []"

fun label_samples :: "('m, 'f) client_label \<Rightarrow> 'f list" where
  "label_samples (Recorded data) = data"
| "label_samples _ = []"

text \<open>The voice packets the server gets, and the samples the microphone gives, in a run.\<close>

definition sent_voice :: "('m, 'f) client_label list \<Rightarrow> unit VoicePacket list" where
  "sent_voice tr = concat (map label_voice tr)"

definition recorded :: "('m, 'f) client_label list \<Rightarrow> 'f list" where
  "recorded tr = concat (map label_samples tr)"

text \<open>The packets of a stream of samples.\<close>

definition voices :: "('e, 'd, 'f) opus_ops \<Rightarrow> 'e \<Rightarrow> 'f list \<Rightarrow> unit VoicePacket list" where
  "voices op e xs = map (\<lambda>out. Audio 0 () 0 (Opus out False) None) (fst (encode_all op e (chunks xs)))"

lemma trace_simps [simp]:
  "sent_voice [] = []" "sent_voice (tr @ [l]) = sent_voice tr @ label_voice l"
  "recorded [] = []" "recorded (tr @ [l]) = recorded tr @ label_samples l"
  by (simp_all add: sent_voice_def recorded_def)

lemma voices_append:
  assumes "encoder_ok op"
  shows "voices op e (xs @ ys) =
    voices op e xs @ voices op (snd (encode_all op e (chunks xs))) (leftover xs @ ys)"
  using chunks_append [of xs ys] encode_all_append [OF assms chunks_lengths [of xs], of e]
  by (simp add: voices_def split: prod.splits)

lemma encoder_append:
  assumes "encoder_ok op"
  shows "snd (encode_all op e (chunks (xs @ ys))) =
    snd (encode_all op (snd (encode_all op e (chunks xs))) (chunks (leftover xs @ ys)))"
  using chunks_append [of xs ys] encode_all_append [OF assms chunks_lengths [of xs], of e]
  by (simp split: prod.splits)

fun outbound :: "'f AudioCodecMessage \<Rightarrow> 'f list" where
  "outbound (Outbound b) = b"
| "outbound (Inbound v) = []"

text \<open>
  As long as the connection task lives: what was recorded is what the codec task has taken, \<open>xs\<close>, and
  what waits in its queue; the packets of \<open>xs\<close> are those sent and those that wait for the
  connection task.
\<close>

definition path_inv ::
    "('e, 'd, 'f) opus_ops \<Rightarrow> 'e \<Rightarrow> ('r \<Rightarrow> 'f list) \<Rightarrow> ('r \<Rightarrow> nat) \<Rightarrow>
      ('m, 'f) client_label list \<Rightarrow> ('m, 'f, 'e, 'd, 'r) client \<Rightarrow> bool" where
  "path_inv op e contents capacity tr s \<longleftrightarrow>
    (\<exists>xs ys vs. recorded tr = xs @ ys \<and> connection_queue s = map VoiceMessage vs \<and>
       sent_voice tr @ vs = voices op e xs \<and>
       (\<forall>c. codec s = Some c \<longrightarrow>
         ys = concat (map outbound (codec_queue s)) \<and> contents (recording_ring c) = leftover xs \<and>
         capacity (recording_ring c) = 96000 \<and> encoder c = snd (encode_all op e (chunks xs))))"

lemma path_inv_prefix:
  assumes "encoder_ok op" and "path_inv op e contents capacity tr s"
  shows "prefix (sent_voice tr) (voices op e (recorded tr))"
proof -
  obtain xs ys vs where "recorded tr = xs @ ys" "sent_voice tr @ vs = voices op e xs"
    using assms(2) unfolding path_inv_def by blast
  then have "voices op e (recorded tr) =
      sent_voice tr @ vs @ voices op (snd (encode_all op e (chunks xs))) (leftover xs @ ys)"
    using voices_append [OF assms(1), of e xs ys] by simp
  then show ?thesis by (simp add: prefix_def)
qed

text \<open>A step that leaves the queues and the codec task as they are, and is silent, keeps the invariant.\<close>

lemma path_inv_frame:
  assumes "path_inv op e contents capacity tr s" and "label_voice l = []" and "label_samples l = []"
    and "connection_queue s' = connection_queue s" and "codec s' = codec s"
    and "concat (map outbound (codec_queue s')) = concat (map outbound (codec_queue s))"
  shows "path_inv op e contents capacity (tr @ [l]) s'"
  using assms by (simp add: path_inv_def)

lemma path_inv_records:
  assumes "path_inv op e contents capacity tr s" and "codec s \<noteq> None"
  shows "path_inv op e contents capacity (tr @ [Recorded data]) (to_codec [input_data_fn data] s)"
proof -
  obtain xs vs c where "codec s = Some c" "recorded tr = xs @ concat (map outbound (codec_queue s))"
    "connection_queue s = map VoiceMessage vs" "sent_voice tr @ vs = voices op e xs"
    "contents (recording_ring c) = leftover xs" "capacity (recording_ring c) = 96000"
    "encoder c = snd (encode_all op e (chunks xs))"
    using assms unfolding path_inv_def by blast
  then show ?thesis by (fastforce simp: path_inv_def input_data_fn_def)
qed

text \<open>The connection task, on each of its events.\<close>

lemma connection_step_out:
  assumes "connection_step cm ev = Return (outs, flow)"
  shows "concat (map outbound (codec_messages outs)) = [] \<and>
    ((\<nexists>m sent. ev = TaskNext (Some m) sent) \<longrightarrow> label_voice (connection_label ev outs) = [])"
proof (cases ev)
  case (PingTick t sent)
  then show ?thesis using assms
    by (cases sent) (auto simp: connection_step_def send_try_def ping_def split: if_splits)
next
  case (TaskNext m sent)
  then show ?thesis using assms
    by (cases sent) (auto simp: connection_step_def send_try_def send_or_def
        split: option.splits ConnectionMessage.splits)
next
  case (ServerNext r)
  then show ?thesis using assms
    by (auto simp: connection_step_def split: option.splits sum.splits ControlPacket.splits)
qed

lemma label_samples_connection [simp]: "label_samples (connection_label ev outs) = []"
  by (cases "(ev, outs)" rule: connection_label.cases) simp_all

lemma connection_step_voice:
  assumes "connection_step cm (TaskNext (Some (VoiceMessage v)) sent) = Return (outs, flow)"
  shows "codec_messages outs = [] \<and>
    (flow = Continue \<longrightarrow> label_voice (connection_label (TaskNext (Some (VoiceMessage v)) sent) outs) = [v]) \<and>
    (flow \<noteq> Continue \<longrightarrow> label_voice (connection_label (TaskNext (Some (VoiceMessage v)) sent) outs) = [])"
  using assms by (auto simp: connection_step_def send_or_def split: sum.splits)

lemma path_inv_connection:
  assumes "path_inv op e contents capacity tr s" and "connection_event_ok s ev rest"
    and "connection_step cm ev = Return (outs, flow)"
  defines "s' \<equiv> to_codec (codec_messages outs)
    (s\<lparr>connection := (if flow = Continue then Running else Stopped), connection_queue := rest\<rparr>)"
  shows "if flow = Continue then path_inv op e contents capacity (tr @ [connection_label ev outs]) s'
    else label_voice (connection_label ev outs) = []"
proof (cases "\<exists>m sent. ev = TaskNext (Some m) sent")
  case True
  then obtain m sent where ev: "ev = TaskNext (Some m) sent" by blast
  obtain xs ys vs where inv: "recorded tr = xs @ ys" "connection_queue s = map VoiceMessage vs"
    "sent_voice tr @ vs = voices op e xs"
    "\<forall>c. codec s = Some c \<longrightarrow> ys = concat (map outbound (codec_queue s)) \<and> contents (recording_ring c) = leftover xs \<and>
         capacity (recording_ring c) = 96000 \<and> encoder c = snd (encode_all op e (chunks xs))"
    using assms(1) unfolding path_inv_def by blast
  then obtain v vs' where m: "m = VoiceMessage v" "vs = v # vs'" "rest = map VoiceMessage vs'"
    using assms(2) ev by auto
  note voice = connection_step_voice [OF assms(3) [unfolded ev m(1)]]
  show ?thesis
  proof (cases "flow = Continue")
    case True
    then have "sent_voice (tr @ [connection_label ev outs]) @ vs' = voices op e xs"
      using voice inv(3) m ev by simp
    then show ?thesis using True inv m voice unfolding path_inv_def s'_def
      by (intro if_P [THEN iffD2] exI [of _ xs] exI [of _ ys] exI [of _ vs']) (auto simp: to_codec_def)
  qed (use voice ev m in simp)
next
  case False
  note out = connection_step_out [OF assms(3)]
  have quiet: "label_voice (connection_label ev outs) = []" using out False by blast
  moreover have "path_inv op e contents capacity (tr @ [connection_label ev outs]) s'" if "flow = Continue"
  proof (rule path_inv_frame [OF assms(1) quiet])
    have "ev \<noteq> TaskNext None sent" for sent
      using that assms(3) by (auto simp: connection_step_def)
    then show "connection_queue s' = connection_queue s"
      using False assms(2) by (cases "(s, ev, rest)" rule: connection_event_ok.cases) (auto simp: s'_def)
    show "concat (map outbound (codec_queue s')) = concat (map outbound (codec_queue s))"
      using out by (simp add: s'_def)
  qed (simp_all add: s'_def)
  ultimately show ?thesis by simp
qed

text \<open>The codec task.\<close>

lemma path_inv_codec:
  fixes s :: "('m, 'f, 'e, 'd, 'r) client" and outs :: "('m, 'f) codec_out list"
  assumes ring: "ring_ok rg contents capacity" and enc: "encoder_ok op"
    and inv: "path_inv op e contents capacity tr s" and c: "codec s = Some self" "codec_queue s = m # q"
    and step: "codec_step rg op zero True io self m = Some (outs, Return (self', go_on))"
    and short: "\<And>b. m = Outbound b \<Longrightarrow> length b \<le> 95041"
  shows "path_inv op e contents capacity (tr @ [Silent])
    (codec_post outs (s\<lparr>codec_queue := q, codec := (if go_on then Some self' else None)\<rparr>))"
proof -
  obtain xs vs where 1: "recorded tr = xs @ outbound m @ concat (map outbound q)" "connection_queue s = map VoiceMessage vs"
    "sent_voice tr @ vs = voices op e xs" "contents (recording_ring self) = leftover xs"
    "capacity (recording_ring self) = 96000" "encoder self = snd (encode_all op e (chunks xs))"
    using inv c unfolding path_inv_def by auto
  show ?thesis
  proof (cases m)
    case (Inbound v)
    then show ?thesis using 1 codec_step_inbound [OF step [unfolded Inbound]] unfolding path_inv_def
      by (intro exI [of _ xs] exI [of _ "concat (map outbound q)"] exI [of _ vs]) (auto split: if_splits)
  next
    case (Outbound b)
    have "length (contents (recording_ring self)) + length b \<le> capacity (recording_ring self)"
      using short [OF Outbound] 1(4,5) length_leftover [of xs] by simp
    from codec_step_outbound [OF ring enc this, of zero io, where 'm = 'm] have 2: "go_on"
      "outs = map (ToConnection \<circ> voice_message) (fst (encode_all op (encoder self) (chunks (leftover xs @ b))))"
      "contents (recording_ring self') = leftover (leftover xs @ b)" "capacity (recording_ring self') = 96000"
      "encoder self' = snd (encode_all op (encoder self) (chunks (leftover xs @ b)))"
      using step Outbound 1(4,5) by auto
    have "map voice_message (fst (encode_all op (encoder self) (chunks (leftover xs @ b))))
        = map VoiceMessage (voices op (encoder self) (leftover xs @ b))"
      by (simp add: voices_def voice_message_def)
    then show ?thesis
      using 1 2 Outbound voices_append [OF enc, of e xs b] encoder_append [OF enc, of e xs b] chunks_append [of xs b]
      unfolding path_inv_def
      by (intro exI [of _ "xs @ b"] exI [of _ "concat (map outbound q)"]
          exI [of _ "vs @ voices op (encoder self) (leftover xs @ b)"]) auto
  qed
qed

text \<open>Where the messages in the codec task's queue come from.\<close>

fun from_outside :: "('m, 'f) client_label list \<Rightarrow> 'f AudioCodecMessage \<Rightarrow> bool" where
  "from_outside tr (Outbound b) \<longleftrightarrow> Recorded b \<in> set tr"
| "from_outside tr (Inbound v) \<longleftrightarrow> FromServer (UDPTunnel v) \<in> set tr"

lemma from_outside_mono: "from_outside tr m \<Longrightarrow> from_outside (tr @ [l]) m"
  by (cases m) auto

lemma connection_step_inbound:
  assumes "connection_step cm ev = Return (outs, flow)" and "m \<in> set (codec_messages outs)"
  shows "from_outside (tr @ [connection_label ev outs]) m"
proof (cases ev)
  case (PingTick t sent)
  then show ?thesis using assms
    by (cases sent) (auto simp: connection_step_def send_try_def ping_def split: if_splits)
next
  case (TaskNext msg sent)
  then show ?thesis using assms
    by (cases sent) (auto simp: connection_step_def send_try_def send_or_def
        split: option.splits ConnectionMessage.splits)
next
  case (ServerNext r)
  then show ?thesis using assms
    by (auto simp: connection_step_def split: option.splits sum.splits ControlPacket.splits)
qed

lemma queued_from_outside:
  assumes "client_run cfg host cm rg op zero e d tr s"
  shows "\<forall>m \<in> set (codec_queue s). from_outside tr m"
  using assms
proof (induction rule: client_run.induct)
  case (step tr s l s')
  from step.hyps(2) show ?case
  proof (cases rule: client_step.cases)
    case connection
    then show ?thesis
      using step.IH connection_step_inbound [OF connection(6)] by (auto intro: from_outside_mono split: if_splits)
  qed (use step.IH in \<open>auto intro: from_outside_mono simp: input_data_fn_def split: if_splits\<close>)
qed (simp add: client_init_def)

text \<open>The invariant of the path, whether the connection task lives or has ended.\<close>

definition path_ok ::
    "('e, 'd, 'f) opus_ops \<Rightarrow> 'e \<Rightarrow> ('r \<Rightarrow> 'f list) \<Rightarrow> ('r \<Rightarrow> nat) \<Rightarrow>
      ('m, 'f) client_label list \<Rightarrow> ('m, 'f, 'e, 'd, 'r) client \<Rightarrow> bool" where
  "path_ok op e contents capacity tr s \<longleftrightarrow>
    (if connection s = Stopped then prefix (sent_voice tr) (voices op e (recorded tr))
     else path_inv op e contents capacity tr s)"

lemma handshake_quiet:
  "handshake cm sent received auth_sent = (out, res) \<Longrightarrow> concat (map packet_voice out) = []"
  by (auto simp: handshake_def version_handshake_def split: prod.splits sum.splits)

lemma path_ok_quiet:
  assumes "encoder_ok op" and "path_ok op e contents capacity tr s" and "label_voice l = []" and "connection s' = Stopped"
  shows "path_ok op e contents capacity (tr @ [l]) s'"
  using assms path_inv_prefix [OF assms(1), of e contents capacity tr s]
    voices_append [OF assms(1), of e "recorded tr" "label_samples l"]
  by (auto simp: path_ok_def split: if_splits)

lemma path_ok_frame:
  assumes "encoder_ok op" and "path_ok op e contents capacity tr s" and "label_voice l = []" and "label_samples l = []"
    and "connection_queue s' = connection_queue s" and "codec s' = codec s" and "codec_queue s' = codec_queue s"
    and "connection s' = Stopped \<or> connection s \<noteq> Stopped"
  shows "path_ok op e contents capacity (tr @ [l]) s'"
proof (cases "connection s' = Stopped")
  case False
  then show ?thesis using assms path_inv_frame [of op e contents capacity tr s l s'] by (simp add: path_ok_def)
qed (use assms(3) path_ok_quiet [OF assms(1,2)] in simp)

lemma path_ok_step:
  assumes ring: "ring_ok rg contents capacity" and enc: "encoder_ok op"
    and step: "client_step cfg host cm rg op zero s l s'" and inv: "path_ok op e contents capacity tr s"
    and short: "\<And>b. Outbound b \<in> set (codec_queue s) \<Longrightarrow> length b \<le> 95041"
    and alive: "codec s = None \<longrightarrow> audio_io s = IoStopped"
  shows "path_ok op e contents capacity (tr @ [l]) s'"
  using step
proof (cases rule: client_step.cases)
  case (connection ev rest outs flow)
  have "path_inv op e contents capacity tr s" using inv connection by (simp add: path_ok_def)
  note p = path_inv_connection [OF this connection(5,6)]
  show ?thesis
  proof (cases "flow = Continue")
    case True
    then show ?thesis using p connection by (simp add: path_ok_def)
  next
    case False
    then show ?thesis using p connection by (intro path_ok_quiet [OF enc inv]) simp_all
  qed
next
  case (codec self m q outs self' go_on)
  show ?thesis
  proof (cases "connection s = Stopped")
    case True
    then show ?thesis using codec by (intro path_ok_quiet [OF enc inv]) simp_all
  next
    case False
    then have "path_inv op e contents capacity tr s" using inv by (simp add: path_ok_def)
    then have "path_inv op e contents capacity (tr @ [l]) s'"
      unfolding codec(1,2) using codec False short by (intro path_inv_codec [OF ring enc]) auto
    then show ?thesis using False codec(2) by (simp add: path_ok_def)
  qed
next
  case (codec_panic self m q outs err)
  then obtain v where v: "m = Inbound v" "outs = []" using codec_panic_cause [OF ring enc codec_panic(6)] by blast
  show ?thesis
  proof (cases "connection s = Stopped")
    case False
    then have "path_inv op e contents capacity tr s" using inv by (simp add: path_ok_def)
    then have "path_inv op e contents capacity (tr @ [l]) s'"
      by (rule path_inv_frame) (use codec_panic v in simp_all)
    then show ?thesis using False codec_panic(2) by (simp add: path_ok_def)
  qed (use codec_panic path_ok_quiet [OF enc inv] in simp)
next
  case (records r data)
  show ?thesis
  proof (cases "connection s = Stopped")
    case True
    then show ?thesis using records by (intro path_ok_quiet [OF enc inv]) simp_all
  next
    case False
    then show ?thesis using records inv alive path_inv_records [of op e contents capacity tr s data]
      by (auto simp: path_ok_def)
  qed
next
  case (codec_stops self)
  then show ?thesis by (intro path_ok_quiet [OF enc inv]) simp_all
next
  case (handshake_fails sent received auth_sent out err)
  then show ?thesis by (intro path_ok_frame [OF enc inv]) (simp_all add: handshake_quiet)
next
  case (handshake_succeeds sent received auth_sent out u)
  then show ?thesis by (intro path_ok_frame [OF enc inv]) (simp_all add: handshake_quiet)
next
  case (interval_panic sent received auth_sent out u)
  then show ?thesis by (intro path_ok_frame [OF enc inv]) (simp_all add: handshake_quiet)
qed (auto intro!: path_ok_frame [OF enc inv])

lemma path_ok_init:
  assumes "ring_ok rg contents capacity"
  shows "path_ok op e contents capacity [] (client_init rg e d)"
  using assms
  by (auto simp: path_ok_def path_inv_def client_init_def codec_init_def voices_def chunks.simps [of "[]"]
      leftover.simps [of "[]"] ring_ok_def intro: exI [of _ "[]"])

lemma path_ok_run:
  assumes "ring_ok rg contents capacity" and "encoder_ok op"
    and "client_run cfg host cm rg op zero e d tr s" and "\<forall>b. Recorded b \<in> set tr \<longrightarrow> length b \<le> 95041"
  shows "path_ok op e contents capacity tr s"
  using assms(3,4)
proof (induction rule: client_run.induct)
  case init
  show ?case by (rule path_ok_init [OF assms(1)])
next
  case (step tr s l s')
  show ?case
  proof (rule path_ok_step [OF assms(1,2) step.hyps(2)])
    show "path_ok op e contents capacity tr s" using step.IH step.prems by simp
    show "length b \<le> 95041" if "Outbound b \<in> set (codec_queue s)" for b
      using queued_from_outside [OF step.hyps(1)] that step.prems by auto
    show "codec s = None \<longrightarrow> audio_io s = IoStopped" using audio_goes_on [OF step.hyps(1)] by blast
  qed
qed

lemma client_run_step:
  "client_run cfg host cm rg op zero e d tr s \<Longrightarrow> client_step cfg host cm rg op zero s l s' \<Longrightarrow> tr' = tr @ [l] \<Longrightarrow>
   s'' = s' \<Longrightarrow> client_run cfg host cm rg op zero e d tr' s''"
  by (simp add: client_run.step)

section \<open>An instance\<close>

text \<open>
  A client with the triples as messages, lists as ring buffers and the counting encoder. Its host
  has both devices, or none.
\<close>

definition demo_device :: "nat device" where
  "demo_device = \<lparr>device_name = Inr ''null'', default_config = Inr 0, set_buffer_size = (\<lambda>_ n. n),
     build_stream = (\<lambda>n. if n = 960 then Inr () else Inl ''unsupported'')\<rparr>"

definition demo_host :: "nat host" where
  "demo_host = \<lparr>default_input_device = Some demo_device, default_output_device = Some demo_device\<rparr>"

definition silent_host :: "nat host" where
  "silent_host = \<lparr>default_input_device = None, default_output_device = None\<rparr>"

abbreviation demo_client_run ::
    "'c host \<Rightarrow> 'm client_msgs \<Rightarrow> ('m, nat) client_label list \<Rightarrow> ('m, nat, u8, unit, nat \<times> nat list) client \<Rightarrow> bool" where
  "demo_client_run host cm \<equiv> client_run \<lparr>addr = [], client_timeout = 30\<rparr> host cm list_ring counting_opus 0 7 ()"

abbreviation demo_client :: "('m, nat, u8, unit, nat \<times> nat list) client" where
  "demo_client \<equiv> client_init list_ring 7 ()"

lemma demo_io_start:
  "audio_io_start demo_host (list_ring :: (_, nat) ring_ops) = Some (96000, [])" "audio_io_start silent_host rg = None"
  by (simp_all add: audio_io_start_def init_input_stream_def init_output_stream_def demo_host_def silent_host_def
      demo_device_def list_ring_def)

abbreviation demo_hello :: "'m client_msgs \<Rightarrow> (unit, 'm) ControlPacket list" where
  "demo_hello cm \<equiv> [Version (client_version cm), Authenticate (Authenticate_new cm)]"

lemma demo_connected:
  "demo_client_run host cm [SentToServer (demo_hello cm)] (demo_client\<lparr>connection := Running\<rparr>)"
  by (rule client_run_step [OF client_run.init client_step.handshake_succeeds [where sent = "Inr ()" and auth_sent = "Inr ()"
          and received = "Some (Inr (Version (client_version cm)))"]])
    (simp_all add: handshake_def version_handshake_def ping_interval_def client_init_def)

text \<open>A frame of samples, and the run in which it is recorded, encoded and sent.\<close>

definition demo_data :: "nat list" where
  "demo_data = replicate 960 1"

lemma demo_data_simps: "length demo_data = 960" "chunks demo_data = [demo_data]"
proof -
  show len: "length demo_data = 960" by (simp add: demo_data_def)
  show "chunks demo_data = [demo_data]" by (simp add: chunks.simps [of demo_data] chunks.simps [of "[]"] len)
qed

abbreviation demo_voice :: "unit VoicePacket" where
  "demo_voice \<equiv> Audio 0 () 0 (Opus [7] False) None"

abbreviation demo_trace :: "'m client_msgs \<Rightarrow> ('m, nat) client_label list" where
  "demo_trace cm \<equiv> [SentToServer (demo_hello cm), Silent, Recorded demo_data, Silent, SentToServer [UDPTunnel demo_voice]]"

lemma demo_speaks:
  fixes cm :: "'m client_msgs"
  shows "\<exists>s. demo_client_run demo_host cm (demo_trace cm) s \<and> connection s = Running \<and> codec s \<noteq> None \<and>
    codec_queue s = [] \<and> connection_queue s = []"
proof -
  obtain c where c: "codec_step list_ring counting_opus 0 True True (codec_init list_ring 7 ()) (Outbound demo_data)
      = Some ([ToConnection (voice_message [7] :: 'm ConnectionMessage)], Return (c, True))"
    using codec_step_outbound [OF list_ring_ok counting_opus_ok, of "codec_init list_ring 7 ()" demo_data 0 True]
      demo_data_simps
    by (auto simp: codec_init_def list_ring_def counting_opus_def)
  let ?s2 = "demo_client\<lparr>connection := Running, audio_io := IoRunning (96000, [])\<rparr>"
  have "demo_client_run demo_host cm [SentToServer (demo_hello cm), Silent] ?s2"
    by (rule client_run_step [OF demo_connected client_step.io_starts [OF _ _ demo_io_start(1)]])
      (simp_all add: client_init_def)
  then have "demo_client_run demo_host cm [SentToServer (demo_hello cm), Silent, Recorded demo_data]
      (?s2\<lparr>codec_queue := [Outbound demo_data]\<rparr>)"
    by (rule client_run_step [OF _ client_step.records [where data = demo_data]])
      (simp_all add: client_init_def to_codec_def input_data_fn_def)
  then have "demo_client_run demo_host cm [SentToServer (demo_hello cm), Silent, Recorded demo_data, Silent]
      (?s2\<lparr>codec := Some c, connection_queue := [voice_message [7]]\<rparr>)"
    by (rule client_run_step [OF _ client_step.codec [where self = "codec_init list_ring 7 ()" and q = "[]"
            and m = "Outbound demo_data" and self' = c and go_on = True and outs = "[ToConnection (voice_message [7])]"]])
      (simp_all add: client_init_def c)
  then have "demo_client_run demo_host cm (demo_trace cm) (?s2\<lparr>codec := Some c\<rparr>)"
    by (rule client_run_step [OF _ client_step.connection [where ev = "TaskNext (Some (voice_message [7])) (Inr ())"
            and flow = Continue and rest = "[]" and outs = "[ToServer (UDPTunnel demo_voice)]"]])
      (simp_all add: client_init_def connection_step_def send_or_def voice_message_def to_codec_def)
  then show ?thesis by (intro exI [of _ "?s2\<lparr>codec := Some c\<rparr>"] conjI) (simp_all add: client_init_def)
qed

section \<open>Properties\<close>

text \<open>
  C11. What the client says is what its microphone heard. In every run of the client, whatever the
  interleaving of its tasks and callbacks, with buffers of at most 95041 samples, the voice packets
  sent to the server are, in order and without gap, the first packets of the recorded stream cut into
  frames of 960 samples and encoded by the one encoder; and they are all of them, whenever the
  connection and codec tasks are alive and have nothing left in their queues.
\<close>

theorem client_sends_recording:
  assumes "ring_ok rg contents capacity" and "encoder_ok op"
    and "client_run cfg host cm rg op zero e d tr s" and "\<forall>b. Recorded b \<in> set tr \<longrightarrow> length b \<le> 95041"
  defines "packets \<equiv> map (\<lambda>out. Audio 0 () 0 (Opus out False) None) (fst (encode_all op e (chunks (recorded tr))))"
  shows "prefix (sent_voice tr) packets \<and>
    (connection s \<noteq> Stopped \<and> codec s \<noteq> None \<and> codec_queue s = [] \<and> connection_queue s = [] \<longrightarrow>
      sent_voice tr = packets)"
proof -
  have ok: "path_ok op e contents capacity tr s" by (rule path_ok_run [OF assms(1-4)])
  have "prefix (sent_voice tr) packets"
    using ok path_inv_prefix [OF assms(2), of e contents capacity tr s]
    by (auto simp: path_ok_def packets_def simp flip: voices_def split: if_splits)
  moreover have "sent_voice tr = packets"
    if "connection s \<noteq> Stopped" "codec s \<noteq> None" "codec_queue s = []" "connection_queue s = []"
    using ok that by (auto simp: path_ok_def path_inv_def packets_def simp flip: voices_def)
  ultimately show ?thesis by blast
qed

theorem client_sends_recording_witness:
  "\<exists>s. demo_client_run demo_host triple_client (demo_trace triple_client) s \<and>
    sent_voice (demo_trace triple_client) = [demo_voice] \<and>
    sent_voice (demo_trace triple_client) = map (\<lambda>out. Audio 0 () 0 (Opus out False) None)
      (fst (encode_all counting_opus 7 (chunks (recorded (demo_trace triple_client)))))"
proof -
  obtain s where run: "demo_client_run demo_host triple_client (demo_trace triple_client) s"
    and s: "connection s = Running" "codec s \<noteq> None" "codec_queue s = []" "connection_queue s = []"
    using demo_speaks by blast
  have "\<forall>b. Recorded b \<in> set (demo_trace triple_client) \<longrightarrow> length b \<le> 95041" by (auto simp: demo_data_simps)
  from client_sends_recording [OF list_ring_ok counting_opus_ok run this] run s show ?thesis
    by (auto simp: sent_voice_def)
qed



text \<open>The connection task panics on one event only.\<close>

lemma connection_step_panic:
  assumes "connection_step cm ev = Panic err"
  shows "\<exists>t sent. ev = PingTick t sent \<and> t < 0"
  using assms
  by (cases ev) (auto simp: connection_step_def ping_def bind_outcome_def split: if_splits outcome.splits)



end
