(* ===== verification/Client_Playback.thy ===== *)
theory Client_Playback
  imports Client
begin

text \<open>
  The other direction of the client: what its speakers play is what it was sent. The voice packets received go through the codec
  task, which decodes them in order with one decoder, into frames of 960 samples, and these through the audio io task into the ring of
  the speakers, from which the callback takes them, and zeros when there are none.
\<close>

section \<open>Received and played\<close>

fun label_received :: "('m, 'f) client_label \<Rightarrow> u32 VoicePacket list" where
  "label_received (FromServer (UDPTunnel v)) = [v]"
| "label_received _ = []"

fun label_played :: "('m, 'f) client_label \<Rightarrow> 'f list list" where
  "label_played (Played data) = [data]"
| "label_played _ = []"

definition received_voice :: "('m, 'f) client_label list \<Rightarrow> u32 VoicePacket list" where
  "received_voice tr = concat (map label_received tr)"

definition played :: "('m, 'f) client_label list \<Rightarrow> 'f list list" where
  "played tr = concat (map label_played tr)"

lemma play_trace_simps [simp]:
  "received_voice [] = []" "received_voice (tr @ [l]) = received_voice tr @ label_received l"
  "played [] = []" "played (tr @ [l]) = played tr @ label_played l"
  by (simp_all add: received_voice_def played_def)

text \<open>The frames of a sequence of packets; a packet without Opus audio, or one the decoder refuses, gives none.\<close>

fun decode_voices :: "('e, 'd, 'f) opus_ops \<Rightarrow> 'f \<Rightarrow> 'd \<Rightarrow> u32 VoicePacket list \<Rightarrow> 'f list list \<times> 'd" where
  "decode_voices op zero d [] = ([], d)"
| "decode_voices op zero d (Audio target s seq_num (Opus buffer end_bit) pos # vs) =
    (case decode_float op d buffer (48000 div 50) end_bit of
       (Inl err, d) \<Rightarrow> decode_voices op zero d vs
     | (Inr samples, d) \<Rightarrow>
         let (fs, d) = decode_voices op zero d vs
         in ((samples @ drop (length samples) (replicate (48000 div 50) zero)) # fs, d))"
| "decode_voices op zero d (_ # vs) = decode_voices op zero d vs"

lemma decode_voices_append:
  "decode_voices op zero d (xs @ ys) =
    (let (fs, d) = decode_voices op zero d xs; (fs', d) = decode_voices op zero d ys in (fs @ fs', d))"
  by (induction op zero d xs rule: decode_voices.induct) (auto split: prod.splits sum.splits)

abbreviation frames_of :: "('e, 'd, 'f) opus_ops \<Rightarrow> 'f \<Rightarrow> 'd \<Rightarrow> u32 VoicePacket list \<Rightarrow> 'f list" where
  "frames_of op zero d vs \<equiv> concat (fst (decode_voices op zero d vs))"

lemma frames_of_append:
  "frames_of op zero d (xs @ ys) = frames_of op zero d xs @ frames_of op zero (snd (decode_voices op zero d xs)) ys"
  by (simp add: decode_voices_append Let_def case_prod_beta)

section \<open>The way in\<close>

fun inbound :: "'f AudioCodecMessage \<Rightarrow> u32 VoicePacket list" where
  "inbound (Inbound v) = [v]"
| "inbound (Outbound b) = []"

fun frame_of :: "'f AudioIOMessage \<Rightarrow> 'f list" where
  "frame_of (PlaybackInbound b) = b"
| "frame_of _ = []"

fun for_audio :: "('m, 'f) codec_out list \<Rightarrow> 'f AudioIOMessage list" where
  "for_audio [] = []"
| "for_audio (ToConnection m # outs) = for_audio outs"
| "for_audio (ToAudioIO m # outs) = m # for_audio outs"

lemma audio_io_queue_codec_post [simp]: "audio_io_queue (codec_post outs s) = audio_io_queue s @ for_audio outs"
  by (induction outs s rule: codec_post.induct) simp_all

lemma for_audio_connection [simp]: "for_audio (map ToConnection ms) = []"
  by (induction ms) simp_all

lemma codec_step_frames:
  assumes "codec_step rg op zero co io self m = Some (outs, Return (self', go_on))"
  shows "decoder self' = snd (decode_voices op zero (decoder self) (inbound m))"
    and "concat (map frame_of (for_audio outs)) = (if go_on then frames_of op zero (decoder self) (inbound m) else [])"
proof -
  have "decoder self' = snd (decode_voices op zero (decoder self) (inbound m)) \<and>
    concat (map frame_of (for_audio outs)) = (if go_on then frames_of op zero (decoder self) (inbound m) else [])"
  proof (cases m)
    case (Outbound b)
    then show ?thesis using assms by (auto simp: codec_step_def Let_def bind_outcome_eq_Return)
  next
    case (Inbound v)
    then show ?thesis using assms
      by (auto simp: codec_step_def Let_def split: VoicePacket.splits VoicePacketPayload.splits prod.splits
          sum.splits if_splits)
  qed
  then show "decoder self' = snd (decode_voices op zero (decoder self) (inbound m))"
    and "concat (map frame_of (for_audio outs)) = (if go_on then frames_of op zero (decoder self) (inbound m) else [])"
    by blast+
qed

definition silence_after :: "'f \<Rightarrow> 'f list \<Rightarrow> 'f list \<Rightarrow> bool" where
  "silence_after zero data t \<longleftrightarrow> (\<exists>z. data = t @ replicate z zero)"

fun ring_contents :: "('r \<Rightarrow> 'f list) \<Rightarrow> 'r io_phase \<Rightarrow> 'f list" where
  "ring_contents contents (IoRunning r) = contents r"
| "ring_contents contents _ = []"

text \<open>
  What was played, \<open>ts\<close>, then what is in the ring, and what waits for the audio io task, comes out of the packets \<open>xs\<close> the codec
  task has taken; all of it, as long as that is no more than the ring can hold.
\<close>

definition play_inv ::
    "('e, 'd, 'f) opus_ops \<Rightarrow> 'f \<Rightarrow> 'd \<Rightarrow> ('r \<Rightarrow> 'f list) \<Rightarrow> ('r \<Rightarrow> nat) \<Rightarrow>
      ('m, 'f) client_label list \<Rightarrow> ('m, 'f, 'e, 'd, 'r) client \<Rightarrow> u32 VoicePacket list \<Rightarrow> 'f list list \<Rightarrow> bool" where
  "play_inv op zero d contents capacity tr s xs ts \<longleftrightarrow>
    prefix xs (received_voice tr) \<and>
    (\<not> client_crashed s \<longrightarrow> (\<forall>c. codec s = Some c \<longrightarrow>
      received_voice tr = xs @ concat (map inbound (codec_queue s)) \<and> decoder c = snd (decode_voices op zero d xs))) \<and>
    list_all2 (silence_after zero) (played tr) ts \<and>
    (let way = concat ts @ ring_contents contents (audio_io s) @ concat (map frame_of (audio_io_queue s))
     in subseq way (frames_of op zero d xs) \<and>
        (audio_io s \<noteq> IoStopped \<and> length (frames_of op zero d xs) \<le> 96000 \<longrightarrow> way = frames_of op zero d xs)) \<and>
    (\<forall>r. audio_io s = IoRunning r \<longrightarrow> capacity r = 96000)"


section \<open>The steps\<close>

lemma subseq_appendD: "subseq (xs @ ys) zs \<Longrightarrow> subseq xs zs"
  by (rule subseq_order.trans [of _ "xs @ ys"]) (simp_all add: prefix_imp_subseq)

lemma play_inv_frame:
  assumes "play_inv op zero d contents capacity tr s xs ts"
    and "label_received l = []" and "label_played l = []" and "codec s' = codec s \<or> codec s' = None"
    and "concat (map inbound (codec_queue s')) = concat (map inbound (codec_queue s))"
    and "audio_io s' = audio_io s" and "audio_io_queue s' = audio_io_queue s" and "client_crashed s \<longrightarrow> client_crashed s'"
  shows "play_inv op zero d contents capacity (tr @ [l]) s' xs ts"
  using assms by (auto simp: play_inv_def)

lemma play_inv_received:
  assumes "play_inv op zero d contents capacity tr s xs ts" and "label_played l = []"
    and "codec s' = codec s" and "codec s \<noteq> None \<Longrightarrow> concat (map inbound (codec_queue s')) = concat (map inbound (codec_queue s)) @ label_received l"
    and "audio_io s' = audio_io s" and "audio_io_queue s' = audio_io_queue s" and "client_crashed s' = client_crashed s"
  shows "play_inv op zero d contents capacity (tr @ [l]) s' xs ts"
  using assms by (auto simp: play_inv_def)

lemma connection_step_received:
  fixes outs :: "('m, 'f) connection_out list"
  assumes "connection_step cm ev = Return (outs, flow)"
  shows "concat (map inbound (codec_messages outs)) = label_received (connection_label ev outs)"
    and "label_played (connection_label ev outs) = []"
proof -
  have "concat (map inbound (codec_messages outs)) = label_received (connection_label ev outs) \<and>
    label_played (connection_label ev outs) = []"
  proof (cases ev)
    case (PingTick t sent)
    then show ?thesis using assms
      by (cases sent) (auto simp: connection_step_def send_try_def ping_def split: if_splits)
  next
    case (TaskNext m sent)
    then show ?thesis using assms
      by (cases sent) (auto simp: connection_step_def send_try_def send_or_def
          split: option.splits ConnectionMessage.splits)
  next
    case (ServerNext r)
    then show ?thesis using assms
      by (auto simp: connection_step_def split: option.splits sum.splits ControlPacket.splits)
  qed
  then show "concat (map inbound (codec_messages outs)) = label_received (connection_label ev outs)"
    and "label_played (connection_label ev outs) = []" by blast+
qed

lemma play_inv_codec:
  assumes inv: "play_inv op zero d contents capacity tr s xs ts" and "\<not> client_crashed s"
    and c: "codec s = Some self" "codec_queue s = m # q"
    and step: "codec_step rg op zero co (audio_io s \<noteq> IoStopped) self m = Some (outs, Return (self', go_on))"
  shows "play_inv op zero d contents capacity (tr @ [Silent])
    (codec_post outs (s\<lparr>codec_queue := q, codec := (if go_on then Some self' else None)\<rparr>)) (xs @ inbound m) ts"
proof -
  have rec: "received_voice tr = xs @ inbound m @ concat (map inbound q)" and dec: "decoder self = snd (decode_voices op zero d xs)"
    using inv c assms(2) by (auto simp: play_inv_def)
  note out = codec_step_frames [OF step]
  have go: "go_on" if "audio_io s \<noteq> IoStopped" using codec_step_ends [of rg op zero co "audio_io s \<noteq> IoStopped" self m outs self'] step that
    by (cases go_on) auto
  define way where "way = concat ts @ ring_contents contents (audio_io s) @ concat (map frame_of (audio_io_queue s))"
  define new where "new = frames_of op zero (decoder self) (inbound m)"
  have frames: "frames_of op zero d (xs @ inbound m) = frames_of op zero d xs @ new"
    by (simp add: frames_of_append new_def dec)
  have way: "subseq way (frames_of op zero d xs)"
    "audio_io s \<noteq> IoStopped \<Longrightarrow> length (frames_of op zero d xs) \<le> 96000 \<Longrightarrow> way = frames_of op zero d xs"
    using inv by (auto simp: play_inv_def Let_def way_def)
  have "subseq (way @ concat (map frame_of (for_audio outs))) (frames_of op zero d (xs @ inbound m))"
    unfolding frames out(2) new_def [symmetric] using way(1) by (auto intro: list_emb_append_mono list_emb_prefix)
  moreover have "way @ concat (map frame_of (for_audio outs)) = frames_of op zero d (xs @ inbound m)"
    if "audio_io s \<noteq> IoStopped" "length (frames_of op zero d (xs @ inbound m)) \<le> 96000"
    using that way(2) go unfolding frames out(2) new_def [symmetric] by simp
  moreover have "prefix (xs @ inbound m) (received_voice tr)" by (simp add: rec)
  moreover have "decoder self' = snd (decode_voices op zero d (xs @ inbound m))"
    using out(1) dec by (simp add: decode_voices_append Let_def case_prod_beta)
  ultimately show ?thesis
    using inv rec by (auto simp: play_inv_def Let_def way_def)
qed

lemma codec_panic_frames:
  assumes "codec_step rg op zero co io self m = Some (outs, Panic e)"
  shows "for_audio outs = []"
proof (cases m)
  case (Outbound b)
  then show ?thesis using assms by (auto simp: codec_step_def Let_def)
next
  case (Inbound v)
  then show ?thesis using assms
    by (auto simp: codec_step_def Let_def split: VoicePacket.splits VoicePacketPayload.splits prod.splits sum.splits if_splits)
qed

lemma play_inv_push:
  assumes ring: "ring_ok rg contents capacity" and inv: "play_inv op zero d contents capacity tr s xs ts"
    and io: "audio_io s = IoRunning r" "audio_io_queue s = m # q" and step: "audio_io_step rg r m called = (calls, r', go_on)"
    and l: "label_received l = []" "label_played l = []"
  shows "play_inv op zero d contents capacity (tr @ [l])
    (s\<lparr>audio_io_queue := q, audio_io := (if go_on then IoRunning r' else IoStopped)\<rparr>) xs ts"
proof -
  define w where "w = concat ts @ contents r @ frame_of m @ concat (map frame_of q)"
  have cap: "capacity r = 96000" and w: "subseq w (frames_of op zero d xs)"
    "length (frames_of op zero d xs) \<le> 96000 \<Longrightarrow> w = frames_of op zero d xs"
    using inv io by (auto simp: play_inv_def Let_def w_def)
  have r': "contents r' = contents r @ take (96000 - length (contents r)) (frame_of m)" "capacity r' = 96000"
    using step ring cap by (auto simp: audio_io_step_def ring_ok_def split: AudioIOMessage.splits)
  have part: "subseq (concat ts @ contents r' @ concat (map frame_of q)) w"
    unfolding w_def r' append_assoc
    by (intro list_emb_append_mono subseq_order.refl prefix_imp_subseq take_is_prefix)
  then have "subseq (concat ts @ contents r' @ concat (map frame_of q)) (frames_of op zero d xs)"
    using w(1) subseq_order.trans by blast
  moreover have "subseq (concat ts @ concat (map frame_of q)) w" unfolding w_def
    by (intro list_emb_append_mono subseq_order.refl list_emb_append2)
  then have "subseq (concat ts @ concat (map frame_of q)) (frames_of op zero d xs)" using w(1) subseq_order.trans by blast
  moreover have "concat ts @ contents r' @ concat (map frame_of q) = frames_of op zero d xs"
    if "length (frames_of op zero d xs) \<le> 96000"
  proof -
    have "length w \<le> 96000" using w(2) that by simp
    then show ?thesis using w(2) [OF that] by (simp add: w_def r')
  qed
  ultimately show ?thesis using inv l r'(2) by (auto simp: play_inv_def Let_def)
qed

lemma take_drop_append: "take n xs @ drop n xs @ ys = xs @ ys"
  by (metis append_assoc append_take_drop_id)

lemma play_inv_plays:
  assumes ring: "ring_ok rg contents capacity" and inv: "play_inv op zero d contents capacity tr s xs ts"
    and io: "audio_io s = IoRunning r" and out: "output_data_fn rg zero r buf = (data, r')"
  shows "\<exists>t. play_inv op zero d contents capacity (tr @ [Played data]) (s\<lparr>audio_io := IoRunning r'\<rparr>) xs (ts @ [t])"
proof -
  have data: "data = take (length buf) (contents r) @ replicate (length buf - length (contents r)) zero"
    and r': "contents r' = drop (length buf) (contents r)" "capacity r' = capacity r"
    using output_data_fn_plays [OF ring, of zero r buf] out by auto
  then have "silence_after zero data (take (length buf) (contents r))" by (auto simp: silence_after_def)
  then show ?thesis using inv io r'
    by (intro exI [of _ "take (length buf) (contents r)"]) (auto simp: play_inv_def Let_def list_all2_appendI take_drop_append)
qed

lemma play_inv_step:
  assumes ring: "ring_ok rg contents capacity" and step: "client_step cfg host cm rg op zero s l s'"
    and inv: "play_inv op zero d contents capacity tr s xs ts"
  shows "\<exists>xs ts. play_inv op zero d contents capacity (tr @ [l]) s' xs ts"
  using step
proof (cases rule: client_step.cases)
  case (connection ev rest outs flow)
  then show ?thesis using connection_step_received [OF connection(6)]
    by (intro exI [of _ xs] exI [of _ ts] play_inv_received [OF inv]) auto
next
  case (codec self m q outs self' go_on)
  then show ?thesis using play_inv_codec [OF inv codec(3-6)] by blast
next
  case (codec_panic self m q outs err)
  then have "for_audio outs = []" by (intro codec_panic_frames)
  with codec_panic show ?thesis using inv by (intro exI [of _ xs] exI [of _ ts]) (auto simp: play_inv_def)
next
  case (io r m q called calls r' go_on)
  then show ?thesis using play_inv_push [OF ring inv io(4-6), of l] by (intro exI [of _ xs] exI [of _ ts]) auto
next
  case (io_starts r)
  moreover have "contents r = []" "capacity r = 96000"
    using ring io_starts(5) by (auto simp: audio_io_start_def ring_ok_def Let_def split: sum.splits)
  ultimately show ?thesis using inv by (intro exI [of _ xs] exI [of _ ts]) (auto simp: play_inv_def Let_def)
next
  case (io_stops r)
  then show ?thesis using inv by (intro exI [of _ xs] exI [of _ ts]) (auto simp: play_inv_def Let_def dest: subseq_appendD)
next
  case (io_fails)
  then show ?thesis using inv by (intro exI [of _ xs] exI [of _ ts]) (auto simp: play_inv_def Let_def)
next
  case (plays r buf data r')
  then show ?thesis using play_inv_plays [OF ring inv plays(4,6)] by blast
qed (auto intro!: exI [of _ xs] exI [of _ ts] play_inv_frame [OF inv] simp: input_data_fn_def)

lemma play_inv_run:
  assumes "ring_ok rg contents capacity" and "client_run cfg host cm rg op zero e d tr s"
  shows "\<exists>xs ts. play_inv op zero d contents capacity tr s xs ts"
  using assms(2)
proof (induction rule: client_run.induct)
  case init
  have "play_inv op zero d contents capacity [] (client_init rg e d) [] []"
    by (simp add: play_inv_def client_init_def codec_init_def)
  then show ?case by blast
next
  case (step tr s l s')
  then show ?case using play_inv_step [OF assms(1) step.hyps(2)] by blast
qed

lemma frames_of_prefix: "prefix xs ys \<Longrightarrow> prefix (frames_of op zero d xs) (frames_of op zero d ys)"
  by (auto simp: prefix_def frames_of_append)

lemma play_inv_plays_frames:
  assumes "play_inv op zero d contents capacity tr s xs ts"
  shows "list_all2 (silence_after zero) (played tr) ts"
    and "subseq (concat ts) (frames_of op zero d (received_voice tr))"
    and "audio_io s \<noteq> IoStopped \<Longrightarrow> length (frames_of op zero d (received_voice tr)) \<le> 96000 \<Longrightarrow>
      prefix (concat ts) (frames_of op zero d (received_voice tr))"
proof -
  let ?way = "concat ts @ ring_contents contents (audio_io s) @ concat (map frame_of (audio_io_queue s))"
  have pre: "prefix (frames_of op zero d xs) (frames_of op zero d (received_voice tr))"
    using assms by (intro frames_of_prefix) (simp add: play_inv_def)
  show "list_all2 (silence_after zero) (played tr) ts" using assms by (simp add: play_inv_def)
  have "subseq ?way (frames_of op zero d xs)" using assms by (simp add: play_inv_def Let_def)
  then have "subseq (concat ts) (frames_of op zero d xs)" by (rule subseq_appendD)
  then show "subseq (concat ts) (frames_of op zero d (received_voice tr))"
    using prefix_imp_subseq [OF pre] subseq_order.trans by blast
  assume io: "audio_io s \<noteq> IoStopped" and len: "length (frames_of op zero d (received_voice tr)) \<le> 96000"
  then have "?way = frames_of op zero d xs"
    using assms prefix_length_le [OF pre] by (simp add: play_inv_def Let_def)
  then have "prefix (concat ts) (frames_of op zero d xs)" by (metis prefixI)
  then show "prefix (concat ts) (frames_of op zero d (received_voice tr))" using pre by (rule prefix_order.trans)
qed

section \<open>The speakers\<close>

text \<open>
  C6. The speakers play what the server sent. Whatever the interleaving of the tasks and of the callbacks of the sound card, each
  buffer that was played is samples followed by silence, and the samples of all of them together come, in order, out of the decoded
  voice packets: nothing is made up, played twice or out of order. Until the audio io task ends, and as long as no
  more than two seconds of sound were received, which is what the ring holds, nothing is left out either: the samples are all
  those of the packets from the first one on, and once the queues and the ring are empty, every sample of every packet was played.
\<close>

theorem client_plays_received:
  assumes "ring_ok rg contents capacity" and "client_run cfg host cm rg op zero e d tr s"
  defines "frames \<equiv> concat (fst (decode_voices op zero d (received_voice tr)))"
  shows "\<exists>ts. list_all2 (silence_after zero) (played tr) ts \<and> subseq (concat ts) frames \<and>
    (audio_io s \<noteq> IoStopped \<and> length frames \<le> 96000 \<longrightarrow> prefix (concat ts) frames \<and>
      (\<not> client_crashed s \<and> codec_queue s = [] \<and> audio_io_queue s = [] \<and> ring_contents contents (audio_io s) = [] \<longrightarrow>
        concat ts = frames))"
proof -
  obtain xs ts where inv: "play_inv op zero d contents capacity tr s xs ts" using play_inv_run [OF assms(1,2)] by blast
  have "concat ts = frames" if "audio_io s \<noteq> IoStopped" "length frames \<le> 96000" "\<not> client_crashed s"
    "codec_queue s = []" "audio_io_queue s = []" "ring_contents contents (audio_io s) = []"
  proof -
    have "codec s \<noteq> None" using audio_goes_on [OF assms(2)] that(1) by blast
    then have "received_voice tr = xs" using inv that(3,4) by (auto simp: play_inv_def)
    then show ?thesis using inv that by (simp add: play_inv_def frames_def Let_def)
  qed
  then show ?thesis using play_inv_plays_frames [OF inv] unfolding frames_def [symmetric] by blast
qed

text \<open>A packet arrives while the client runs, and its first samples are played.\<close>

abbreviation demo_heard :: "u32 VoicePacket" where
  "demo_heard \<equiv> Audio 0 0 0 (Opus [7] False) None"

abbreviation demo_hears :: "'m client_msgs \<Rightarrow> ('m, nat) client_label list" where
  "demo_hears cm \<equiv> [SentToServer (demo_hello cm), Silent, FromServer (UDPTunnel demo_heard), Silent, Silent, Silent, Silent, Played [7, 0]]"

lemma demo_plays:
  fixes cm :: "'m client_msgs"
  shows "\<exists>s. demo_client_run demo_host cm (demo_hears cm) s \<and> audio_io s = IoRunning (96000, replicate 958 0)"
proof -
  let ?frame = "7 # replicate 959 (0 :: nat)"
  have more: "replicate 959 (0 :: nat) = 0 # replicate 958 0" by (simp flip: replicate_Suc)
  let ?s0 = "demo_client\<lparr>connection := Running\<rparr>"
  let ?s1 = "?s0\<lparr>audio_io := IoRunning (96000, [])\<rparr>"
  have "demo_client_run demo_host cm [SentToServer (demo_hello cm), Silent] ?s1"
    by (rule client_run_step [OF demo_connected client_step.io_starts [OF _ _ demo_io_start(1)]])
      (simp_all add: client_init_def)
  then have "demo_client_run demo_host cm [SentToServer (demo_hello cm), Silent, FromServer (UDPTunnel demo_heard)]
      (?s1\<lparr>codec_queue := [Inbound demo_heard]\<rparr>)"
    by (rule client_run_step [OF _ client_step.connection [where ev = "ServerNext (Some (Inr (UDPTunnel demo_heard)))"
            and flow = Continue and rest = "[]" and outs = "[ToCodec (Inbound demo_heard)]"]])
      (simp_all add: client_init_def connection_step_def to_codec_def)
  then have "demo_client_run demo_host cm [SentToServer (demo_hello cm), Silent, FromServer (UDPTunnel demo_heard), Silent]
      (?s1\<lparr>audio_io_queue := [RecordingPlay, PlaybackPlay, PlaybackInbound ?frame]\<rparr>)"
    by (rule client_run_step [OF _ client_step.codec [where self = "codec_init list_ring 7 ()" and q = "[]"
            and m = "Inbound demo_heard" and self' = "codec_init list_ring 7 ()" and go_on = True
            and outs = "[ToAudioIO (PlaybackInbound ?frame)]"]])
      (simp_all add: client_init_def codec_step_def counting_opus_def codec_init_def)
  then have "demo_client_run demo_host cm [SentToServer (demo_hello cm), Silent, FromServer (UDPTunnel demo_heard), Silent, Silent]
      (?s1\<lparr>audio_io_queue := [PlaybackPlay, PlaybackInbound ?frame]\<rparr>)"
    by (rule client_run_step [OF _ client_step.io [where m = RecordingPlay and called = "Inr ()" and go_on = True]])
      (auto simp: client_init_def audio_io_step_def)
  then have "demo_client_run demo_host cm [SentToServer (demo_hello cm), Silent, FromServer (UDPTunnel demo_heard), Silent, Silent, Silent]
      (?s1\<lparr>audio_io_queue := [PlaybackInbound ?frame]\<rparr>)"
    by (rule client_run_step [OF _ client_step.io [where m = PlaybackPlay and called = "Inr ()" and go_on = True]])
      (auto simp: client_init_def audio_io_step_def)
  then have "demo_client_run demo_host cm [SentToServer (demo_hello cm), Silent, FromServer (UDPTunnel demo_heard), Silent, Silent, Silent, Silent]
      (?s1\<lparr>audio_io_queue := [], audio_io := IoRunning (96000, ?frame)\<rparr>)"
    by (rule client_run_step [OF _ client_step.io [where m = "PlaybackInbound ?frame" and go_on = True]])
      (auto simp: client_init_def audio_io_step_def list_ring_def)
  then have "demo_client_run demo_host cm (demo_hears cm) (?s1\<lparr>audio_io_queue := [], audio_io := IoRunning (96000, replicate 958 0)\<rparr>)"
    by (rule client_run_step [OF _ client_step.plays [where buf = "[9, 9]" and data = "[7, 0]"]])
      (auto simp: client_init_def list_ring_def more)
  then show ?thesis by (intro exI conjI) (assumption, simp add: client_init_def)
qed

theorem client_plays_received_witness:
  "\<exists>s ts. demo_client_run demo_host triple_client (demo_hears triple_client) s \<and>
    list_all2 (silence_after 0) (played (demo_hears triple_client)) ts \<and>
    prefix (concat ts) (concat (fst (decode_voices counting_opus 0 () (received_voice (demo_hears triple_client)))))"
proof -
  obtain s where run: "demo_client_run demo_host triple_client (demo_hears triple_client) s" "audio_io s = IoRunning (96000, replicate 958 0)"
    using demo_plays by blast
  have "length (concat (fst (decode_voices counting_opus 0 () (received_voice (demo_hears triple_client))))) \<le> 96000"
    by (simp add: received_voice_def counting_opus_def)
  with client_plays_received [OF list_ring_ok run(1)] run show ?thesis by auto
qed

end
