(* ===== verification/Server_Shutdown.thy ===== *)
theory Server_Shutdown
  imports Server
begin

text \<open>
  Graceful shutdown of the server. \<open>run_stammer_task\<close> returns when the accept task, which waits for all
  session tasks at its end (\<open>stammer/src/task_accept.rs\<close>), the control task and the routing task
  have ended: \<open>server_stopped\<close>. The shutdown goes from task to task: the accept task tells the control task, which
  reads what is left in its queue and tells the routing task, which does the same; with both gone,
  nobody holds the channels of the sessions any more, and the session tasks end.
\<close>

section \<open>The end of all tasks\<close>

definition server_stopped :: "'m server \<Rightarrow> bool" where
  "server_stopped s \<longleftrightarrow> stopping s \<and> control_done s \<and> routing_done s \<and> handshaking s = {} \<and> live s = Map.empty"

section \<open>Shutting down\<close>

text \<open>
  \<open>settles\<close>: the steps the server takes of itself, without a client. \<open>goes_on\<close>: a state that a run led to, and a
  later one to which it has settled.
\<close>

abbreviation settles ::
    "StammerConfig \<Rightarrow> (SessionID set \<Rightarrow> SessionID list) \<Rightarrow> 'm server_msgs \<Rightarrow> 'm server \<Rightarrow> 'm server \<Rightarrow> bool" where
  "settles cfg iter tm \<equiv> (\<lambda>s s'. server_step cfg iter tm s Internal s')\<^sup>*\<^sup>*"

definition goes_on ::
    "StammerConfig \<Rightarrow> (SessionID set \<Rightarrow> SessionID list) \<Rightarrow> 'm server_msgs \<Rightarrow> 'm label list \<Rightarrow>
      'm server \<Rightarrow> 'm server \<Rightarrow> bool" where
  "goes_on cfg iter tm tr s0 s \<longleftrightarrow>
    server_run cfg iter tm tr s0 \<and> settles cfg iter tm s0 s \<and>
    handshaking s = {} \<and> session_ids s = session_ids s0 \<and> \<not> crashed s"

lemma settles_run:
  assumes "server_run cfg iter tm tr s0" and "settles cfg iter tm s0 s"
  shows "\<exists>k. server_run cfg iter tm (tr @ replicate k Internal) s"
  using assms(2)
proof (induction rule: rtranclp_induct)
  case base
  show ?case using assms(1) by (auto intro: exI [of _ 0])
next
  case (step s s')
  then obtain k where "server_run cfg iter tm (tr @ replicate k Internal) s" by blast
  from server_run.step [OF this step.hyps(2)] have "server_run cfg iter tm (tr @ replicate (Suc k) Internal) s'"
    by (simp add: replicate_append_same)
  then show ?case ..
qed

lemma goes_on_run:
  assumes "goes_on cfg iter tm tr s0 s"
  shows "phase_inv s" "table_inv s" "handshaking s = {}" "\<not> crashed s"
proof -
  obtain k where "server_run cfg iter tm (tr @ replicate k Internal) s"
    using assms settles_run [of cfg iter tm tr s0 s] by (auto simp: goes_on_def)
  with phase_inv_run table_inv_run assms show "phase_inv s" "table_inv s" "handshaking s = {}" "\<not> crashed s"
    by (auto simp: goes_on_def)
qed

lemma goes_on_step:
  assumes "goes_on cfg iter tm tr s0 s" and "server_step cfg iter tm s Internal s'"
    and "handshaking s' = {}" and "session_ids s' = session_ids s" and "\<not> crashed s'"
  shows "goes_on cfg iter tm tr s0 s'"
  using assms by (auto simp: goes_on_def intro: rtranclp.rtrancl_into_rtrancl)

text \<open>The accept task stops.\<close>

lemma stop_accept:
  assumes "goes_on cfg iter tm tr s0 s"
  shows "\<exists>s'. goes_on cfg iter tm tr s0 s' \<and> stopping s'"
proof (cases "stopping s")
  case False
  note inv = goes_on_run [OF assms]
  have nc: "\<not> control_closed (control s)" using inv(1) False by (auto simp: phase_inv_def)
  then have "server_step cfg iter tm s Internal (to_control ControlShutdown (s\<lparr>stopping := True\<rparr>))"
    using inv False server_step.stop [of s StopNotified "session_ids s" ControlShutdown cfg iter tm]
    by (simp add: accept_step_def accept_end_def send_expect_def)
  from goes_on_step [OF assms this] inv show ?thesis by (fastforce simp: to_control_def nc)
qed (use assms in blast)

text \<open>The control task reads the rest of its queue and stops.\<close>

lemma drain_control:
  assumes "goes_on cfg iter tm tr s0 s" and "stopping s"
  shows "\<exists>s'. goes_on cfg iter tm tr s0 s' \<and> stopping s' \<and> control_done s'"
  using assms
proof (induction "length (control_queue s)" arbitrary: s rule: less_induct)
  case less
  note inv = goes_on_run [OF less.prems(1)]
  show ?case
  proof (cases "control_done s")
    case False
    show ?thesis
    proof (cases "control_queue s")
      case Nil
      have "control_closed (control s)" "\<not> routing_closed (routing s)"
        using inv(1,2) less.prems(2) Nil False by (auto simp: phase_inv_def table_inv_def)
      then have "server_step cfg iter tm s Internal (s\<lparr>control_done := True, routing_queue := routing_queue s @ [Shutdown]\<rparr>)"
        using inv False Nil by (intro server_step.control_stops) (simp_all add: control_end_def send_expect_def)
      from goes_on_step [OF less.prems(1) this] inv less.prems(2) show ?thesis by fastforce
    next
      case (Cons m q)
      obtain c out where "control_step (\<not> routing_closed (routing s)) (control s) m = Return (c, out)"
        using table_inv_control [OF inv(2) False] by blast
      then have "server_step cfg iter tm s Internal
          (s\<lparr>control_queue := q, control := c, routing_queue := routing_queue s @ out\<rparr>)"
        using inv False Cons by (intro server_step.control) simp_all
      from less.hyps [OF _ goes_on_step [OF less.prems(1) this]] inv less.prems(2) Cons show ?thesis by simp
    qed
  qed (use less.prems in blast)
qed

text \<open>So does the routing task, unless a message crashes it.\<close>

lemma drain_routing:
  assumes "goes_on cfg iter tm tr s0 s" and "stopping s" and "control_done s"
    and safe: "length (session_ids s0) \<le> 2 ^ 32" "text_ok tm" "\<forall>k p. ClientSent k p \<in> set tr \<longrightarrow> \<not> fatal tm p"
  shows "\<exists>s'. goes_on cfg iter tm tr s0 s' \<and> stopping s' \<and> control_done s' \<and> routing_done s'"
  using assms(1-3)
proof (induction "length (routing_queue s)" arbitrary: s rule: less_induct)
  case less
  note inv = goes_on_run [OF less.prems(1)]
  show ?case
  proof (cases "routing_done s")
    case False
    show ?thesis
    proof (cases "routing_queue s")
      case Nil
      have "server_step cfg iter tm s Internal (s\<lparr>routing_done := True\<rparr>)"
        using inv False Nil less.prems(3) by (intro server_step.routing_stops) (auto simp: phase_inv_def)
      from goes_on_step [OF less.prems(1) this] inv less.prems show ?thesis by fastforce
    next
      case (Cons m q)
      show ?thesis
      proof (cases "routing_step iter tm (routing s) m")
        case (Pair ds res)
        show ?thesis
        proof (cases res)
          case (Return r)
          then have "server_step cfg iter tm s Internal (deliver ds (s\<lparr>routing_queue := q, routing := r\<rparr>))"
            using inv False Cons Pair by (intro server_step.routing) simp_all
          from less.hyps [OF _ goes_on_step [OF less.prems(1) this]] inv less.prems Cons show ?thesis by simp
        next
          case (Panic e)
          obtain k where run: "server_run cfg iter tm (tr @ replicate k Internal) s"
            and ids: "session_ids s = session_ids s0"
            using less.prems(1) settles_run [of cfg iter tm tr s0 s] by (auto simp: goes_on_def)
          have "server_step cfg iter tm s Internal (deliver ds (s\<lparr>routing_queue := q, crashed := True\<rparr>))"
            using inv False Cons Pair Panic by (intro server_step.routing_panic) simp_all
          from crash_step [OF this _ inv(2,1) relay_inv_run [OF run] safe(2)] safe(1,3) ids show ?thesis by auto
        qed
      qed
    qed
  qed (use less.prems in blast)
qed

text \<open>With both gone, nobody holds the channel of a session: it delivers what is left and stops.\<close>

lemma channel_released: "control_done s \<Longrightarrow> routing_done s \<Longrightarrow> phase_inv s \<Longrightarrow> \<not> channel_held s n"
  by (simp add: channel_held_def phase_inv_def)

lemma end_session:
  assumes "goes_on cfg iter tm tr s0 s" and "stopping s \<and> control_done s \<and> routing_done s"
    and "live s n = Some self"
  shows "\<exists>s'. goes_on cfg iter tm tr s0 s' \<and> (stopping s' \<and> control_done s' \<and> routing_done s') \<and> live s' = (live s)(n := None)"
  using assms
proof (induction "length (inbox s n)" arbitrary: s self rule: less_induct)
  case less
  note inv = goes_on_run [OF less.prems(1)]
  show ?case
  proof (cases "inbox s n")
    case Nil
    have "server_step cfg iter tm s (event_label n (SessionNext None (Inr ())))
        (post n [] (s\<lparr>inbox := (inbox s)(n := []), live := (live s)(n := None)\<rparr>))"
      using inv less.prems Nil channel_released [OF _ _ inv(1)]
      by (intro server_step.session) (simp_all add: session_step_def)
    then have "server_step cfg iter tm s Internal (s\<lparr>inbox := (inbox s)(n := []), live := (live s)(n := None)\<rparr>)"
      by simp
    from goes_on_step [OF less.prems(1) this] inv less.prems(2) show ?thesis by fastforce
  next
    case (Cons p rest)
    have "server_step cfg iter tm s (event_label n (SessionNext (Some p) (Inr ())))
        (post n [ToClient p] (s\<lparr>inbox := (inbox s)(n := rest), live := (live s)(n := Some self)\<rparr>))"
      using inv less.prems Cons by (intro server_step.session) (simp_all add: session_step_def)
    then have "server_step cfg iter tm s Internal (s\<lparr>inbox := (inbox s)(n := rest), live := (live s)(n := Some self),
        sent_to := (sent_to s)(n := sent_to s n @ [p])\<rparr>)"
      by simp
    from less.hyps [OF _ goes_on_step [OF less.prems(1) this], of self] inv less.prems Cons show ?thesis by simp
  qed
qed

lemma end_sessions:
  assumes "goes_on cfg iter tm tr s0 s" and "stopping s \<and> control_done s \<and> routing_done s"
  shows "\<exists>s'. goes_on cfg iter tm tr s0 s' \<and> server_stopped s'"
  using assms
proof (induction "card (dom (live s))" arbitrary: s rule: less_induct)
  case less
  note inv = goes_on_run [OF less.prems(1)]
  have fin: "finite (dom (live s))" using inv(1) by (auto simp: phase_inv_def intro: finite_subset)
  show ?case
  proof (cases "live s = Map.empty")
    case True
    then show ?thesis using less.prems inv by (auto simp: server_stopped_def)
  next
    case False
    then obtain n self where n: "live s n = Some self" by fastforce
    obtain s' where s': "goes_on cfg iter tm tr s0 s'" "stopping s' \<and> control_done s' \<and> routing_done s'"
      "live s' = (live s)(n := None)"
      using end_session [OF less.prems n] by blast
    have "card (dom (live s')) < card (dom (live s))"
      using fin n s'(3) by (auto intro!: psubset_card_mono)
    from less.hyps [OF this s'(1,2)] show ?thesis .
  qed
qed

lemma server_settles:
  assumes "server_run cfg iter tm tr s" and "\<not> crashed s" and "handshaking s = {}"
    and "length (session_ids s) \<le> 2 ^ 32" and "text_ok tm" and "\<forall>k p. ClientSent k p \<in> set tr \<longrightarrow> \<not> fatal tm p"
  shows "\<exists>s'. settles cfg iter tm s s' \<and> server_stopped s' \<and> \<not> crashed s'"
proof -
  have "goes_on cfg iter tm tr s s"
    using assms(1-3) by (simp add: goes_on_def)
  from stop_accept [OF this] obtain s1 where 1: "goes_on cfg iter tm tr s s1" "stopping s1" by blast
  from drain_control [OF this] obtain s2 where
    2: "goes_on cfg iter tm tr s s2" "stopping s2" "control_done s2" by blast
  from drain_routing [OF this assms(4-6)] obtain s3 where
    3: "goes_on cfg iter tm tr s s3" "stopping s3 \<and> control_done s3 \<and> routing_done s3" by blast
  from end_sessions [OF this] show ?thesis by (auto simp: goes_on_def)
qed

section \<open>Properties\<close>

text \<open>
  The server can be stopped gracefully. From every state it reaches in which no version exchange is under
  way, after clients have sent nothing fatal, it gets, by steps of its own tasks only, to the end of
  all of them, without a crash: the accept task, the control task, the routing task and every session.
\<close>

theorem server_shuts_down:
  assumes "server_run cfg iter tm tr s" and "\<not> crashed s" and "handshaking s = {}"
    and "length (session_ids s) \<le> 2 ^ 32" and "text_ok tm" and "\<forall>k p. ClientSent k p \<in> set tr \<longrightarrow> \<not> fatal tm p"
  shows "\<exists>s'. (\<lambda>s s'. server_step cfg iter tm s Internal s')\<^sup>*\<^sup>* s s' \<and> server_stopped s' \<and> \<not> crashed s'"
  using assms by (rule server_settles)

theorem server_shuts_down_witness:
  "\<exists>s'. settles demo_cfg sorted_list_of_set triple_msgs demo_started s' \<and> server_stopped s' \<and> \<not> crashed s'"
  by (rule server_shuts_down [OF demo_start]) (auto simp: demo_started_def server_init_def triple_msgs_ok)

end
