(* ===== verification/Config.thy ===== *)
theory Config
  imports Client_Connection
begin

text \<open>
  The configuration of both programs from the environment: \<open>StammerConfig::from_env\<close> of
  \<open>stammer/src/lib.rs\<close> and \<open>StutterConfig::from_env\<close> of \<open>stutter/src/lib.rs\<close>, with \<open>str::parse::<u64>\<close> of the
  standard library. An environment maps names to values; \<open>None\<close> is a variable that is not set, or
  not Unicode. Durations are in nanoseconds, as in \<open>std::time::Duration\<close>.
\<close>

section \<open>The code\<close>

datatype IntErrorKind = Empty | InvalidDigit | PosOverflow

definition to_digit :: "char \<Rightarrow> nat option" where
  "to_digit c = (let n = of_char c in if 48 \<le> n \<and> n \<le> 57 then Some (n - 48) else None)"

definition checked_mul :: "u64 \<Rightarrow> u64 \<Rightarrow> u64 option" where
  "checked_mul a b = (if unat a * unat b < 2 ^ 64 then Some (a * b) else None)"

definition checked_add :: "u64 \<Rightarrow> u64 \<Rightarrow> u64 option" where
  "checked_add a b = (if unat a + unat b < 2 ^ 64 then Some (a + b) else None)"

fun parse_digits :: "u64 \<Rightarrow> string \<Rightarrow> IntErrorKind + u64" where
  "parse_digits result [] = Inr result"
| "parse_digits result (c # cs) =
    (case to_digit c of
       None \<Rightarrow> Inl InvalidDigit
     | Some x \<Rightarrow>
         (case checked_mul result 10 of
            None \<Rightarrow> Inl PosOverflow
          | Some r \<Rightarrow>
              (case checked_add r (of_nat x) of
                 None \<Rightarrow> Inl PosOverflow
               | Some r \<Rightarrow> parse_digits r cs)))"

text \<open>\<open>u64::from_str\<close>: a sign alone is no number, a leading plus is dropped.\<close>

definition parse_u64 :: "string \<Rightarrow> IntErrorKind + u64" where
  "parse_u64 src =
    (case src of
       [] \<Rightarrow> Inl Empty
     | c # cs \<Rightarrow>
         if (c = CHR ''+'' \<or> c = CHR ''-'') \<and> cs = [] then Inl InvalidDigit
         else if c = CHR ''+'' then parse_digits 0 cs
         else parse_digits 0 (c # cs))"

definition unwrap_or :: "'a option \<Rightarrow> 'a \<Rightarrow> 'a" where
  "unwrap_or x d = (case x of None \<Rightarrow> d | Some v \<Rightarrow> v)"

definition from_secs :: "u64 \<Rightarrow> nat" where
  "from_secs secs = unat secs * 10 ^ 9"

type_synonym environment = "string \<rightharpoonup> string"

definition stammer_from_env :: "environment \<Rightarrow> IntErrorKind + StammerConfig" where
  "stammer_from_env var =
    (let session_timeout = unwrap_or (var ''STAMMER_SESSION_TIMEOUT_SECS'') ''30''
     in bind_result (parse_u64 session_timeout) (\<lambda>secs.
          Inr \<lparr>bind_addr = unwrap_or (var ''STAMMER_BIND_ADDR'') ''localhost:8792'', session_timeout = from_secs secs\<rparr>))"

definition stutter_from_env :: "environment \<Rightarrow> IntErrorKind + StutterConfig" where
  "stutter_from_env var =
    (let session_timeout = unwrap_or (var ''STUTTER_SESSION_TIMEOUT_SECS'') ''30''
     in bind_result (parse_u64 session_timeout) (\<lambda>secs.
          Inr \<lparr>addr = unwrap_or (var ''STUTTER_ADDR'') ''localhost:8792'', client_timeout = from_secs secs\<rparr>))"

section \<open>Decimal numbers\<close>

definition is_digit :: "char \<Rightarrow> bool" where
  "is_digit c \<longleftrightarrow> to_digit c \<noteq> None"

definition decimal_value :: "nat \<Rightarrow> string \<Rightarrow> nat" where
  "decimal_value n cs = foldl (\<lambda>n c. 10 * n + the (to_digit c)) n cs"

function decimal :: "nat \<Rightarrow> string" where
  "decimal n = (if n < 10 then [char_of (48 + n)] else decimal (n div 10) @ [char_of (48 + n mod 10)])"
  by pat_completeness auto
termination by (relation "measure id") auto

declare decimal.simps [simp del]

lemma to_digit_bound: "to_digit c = Some x \<Longrightarrow> x < 10"
  by (auto simp: to_digit_def Let_def split: if_splits)

lemma to_digit_char: "n < 10 \<Longrightarrow> to_digit (char_of (48 + n)) = Some n"
  by (simp add: to_digit_def)

lemma decimal_value_mono: "n \<le> decimal_value n cs"
proof (induction cs arbitrary: n)
  case (Cons c cs)
  have "n \<le> 10 * n + the (to_digit c)" by simp
  also have "\<dots> \<le> decimal_value n (c # cs)" using Cons by (simp add: decimal_value_def)
  finally show ?case .
qed (simp add: decimal_value_def)

lemma unat_bound: "unat (r :: u64) < 2 ^ 64"
  using unsigned_less [of r] by simp

lemma parse_digits_eq:
  assumes "list_all is_digit cs"
  shows "parse_digits r cs =
    (if decimal_value (unat r) cs < 2 ^ 64 then Inr (of_nat (decimal_value (unat r) cs)) else Inl PosOverflow)"
  using assms
proof (induction cs arbitrary: r)
  case Nil
  show ?case using unat_bound [of r] by (simp add: decimal_value_def)
next
  case (Cons c cs)
  then obtain x where x: "to_digit c = Some x" "x < 10"
    using to_digit_bound by (auto simp: is_digit_def)
  define v where "v = 10 * unat r + x"
  have val: "decimal_value (unat r) (c # cs) = decimal_value v cs" "v \<le> decimal_value v cs"
    using x(1) decimal_value_mono by (simp_all add: decimal_value_def v_def)
  show ?case
  proof (cases "v < 2 ^ 64")
    case True
    have "unat (r * 10) = unat r * 10" using True unsigned_less [of r] by (simp add: v_def unat_word_ariths)
    moreover have "unat (of_nat x :: u64) = x" using x(2) by (simp add: unat_of_nat)
    ultimately have "checked_mul r 10 = Some (r * 10)" "checked_add (r * 10) (of_nat x) = Some (r * 10 + of_nat x)"
      "unat (r * 10 + of_nat x) = v"
      using True by (simp_all add: checked_mul_def checked_add_def v_def unat_word_ariths)
    then show ?thesis using Cons.IH [of "r * 10 + of_nat x"] Cons.prems x val by simp
  next
    case False
    then have "checked_mul r 10 = None \<or> checked_mul r 10 = Some (r * 10) \<and> checked_add (r * 10) (of_nat x) = None"
      using x(2) by (auto simp: checked_mul_def checked_add_def v_def unat_word_ariths unat_of_nat)
    then show ?thesis using x val False by auto
  qed
qed

lemma parse_digits_digits: "parse_digits r cs = Inr n \<Longrightarrow> list_all is_digit cs"
  by (induction cs arbitrary: r) (auto simp: is_digit_def split: option.splits)

lemma sign_no_digit: "\<not> is_digit (CHR ''+'')" "\<not> is_digit (CHR ''-'')"
  by (simp_all add: is_digit_def to_digit_def)

lemma parse_u64_digits:
  assumes "list_all is_digit cs" and "cs \<noteq> []"
  shows "parse_u64 cs = (if decimal_value 0 cs < 2 ^ 64 then Inr (of_nat (decimal_value 0 cs)) else Inl PosOverflow)"
    and "parse_u64 (CHR ''+'' # cs) = parse_u64 cs"
proof -
  obtain c cs' where cs: "cs = c # cs'" using assms(2) by (cases cs) auto
  then have c: "c \<noteq> CHR ''+''" "c \<noteq> CHR ''-''" using assms(1) sign_no_digit by auto
  then have "parse_u64 cs = parse_digits 0 cs" "parse_u64 (CHR ''+'' # cs) = parse_digits 0 cs"
    by (simp_all add: parse_u64_def cs)
  then show "parse_u64 cs = (if decimal_value 0 cs < 2 ^ 64 then Inr (of_nat (decimal_value 0 cs)) else Inl PosOverflow)"
    "parse_u64 (CHR ''+'' # cs) = parse_u64 cs"
    using parse_digits_eq [OF assms(1), of 0] by simp_all
qed

lemma parse_u64_accepts:
  assumes "parse_u64 src = Inr n"
  shows "\<exists>cs. (src = cs \<or> src = CHR ''+'' # cs) \<and> cs \<noteq> [] \<and> list_all is_digit cs"
proof (cases src)
  case (Cons c cs)
  show ?thesis
  proof (cases "c = CHR ''+''")
    case True
    then have "parse_digits 0 cs = Inr n" "cs \<noteq> []" using assms Cons by (auto simp: parse_u64_def split: if_splits)
    then show ?thesis using Cons True parse_digits_digits by blast
  next
    case False
    then have "parse_digits 0 src = Inr n"
      using assms Cons by (auto simp: parse_u64_def simp del: parse_digits.simps split: if_splits)
    then show ?thesis using Cons parse_digits_digits by blast
  qed
qed (use assms in \<open>simp add: parse_u64_def\<close>)

lemma decimal_digits: "list_all is_digit (decimal n) \<and> decimal n \<noteq> [] \<and> decimal_value 0 (decimal n) = n"
proof (induction n rule: decimal.induct)
  case (1 n)
  have "to_digit (char_of (48 + n mod 10)) = Some (n mod 10)" by (rule to_digit_char) simp
  with 1 show ?case
    by (cases "n < 10") (auto simp: decimal.simps [of n] is_digit_def decimal_value_def)
qed

lemma from_env_simps:
  "stammer_from_env var = Inr cfg \<longleftrightarrow>
    (\<exists>secs. parse_u64 (unwrap_or (var ''STAMMER_SESSION_TIMEOUT_SECS'') ''30'') = Inr secs \<and>
      cfg = \<lparr>bind_addr = unwrap_or (var ''STAMMER_BIND_ADDR'') ''localhost:8792'', session_timeout = from_secs secs\<rparr>)"
  "stutter_from_env var = Inr cfg' \<longleftrightarrow>
    (\<exists>secs. parse_u64 (unwrap_or (var ''STUTTER_SESSION_TIMEOUT_SECS'') ''30'') = Inr secs \<and>
      cfg' = \<lparr>addr = unwrap_or (var ''STUTTER_ADDR'') ''localhost:8792'', client_timeout = from_secs secs\<rparr>)"
  by (auto simp: stammer_from_env_def stutter_from_env_def bind_result_def Let_def split: sum.splits)

section \<open>Properties\<close>

text \<open>
  Timeouts are read exactly: a text is accepted if and only if it is a nonempty sequence of decimal digits, after at most one plus
  sign, whose value fits 64 bits, and then this is the result; so every value that can be represented is read back
  from its decimal form, and a larger one is an overflow, never a wrapped value.
\<close>

theorem parse_u64_exact:
  "(parse_u64 src = Inr n \<longleftrightarrow>
     (\<exists>cs. (src = cs \<or> src = CHR ''+'' # cs) \<and> cs \<noteq> [] \<and> list_all is_digit cs \<and> decimal_value 0 cs = unat n)) \<and>
   parse_u64 (decimal k) = (if k < 2 ^ 64 then Inr (of_nat k) else Inl PosOverflow)"
proof -
  have val: "parse_u64 cs = Inr n \<longleftrightarrow> decimal_value 0 cs = unat n" if "list_all is_digit cs" "cs \<noteq> []" for cs
    using parse_u64_digits(1) [OF that] unat_bound [of n] by (auto simp: unat_of_nat)
  show ?thesis (is "(?l \<longleftrightarrow> ?r) \<and> _")
  proof
    have "?r" if "?l"
    proof -
      from parse_u64_accepts [OF that] obtain cs where "src = cs \<or> src = CHR ''+'' # cs" "cs \<noteq> []" "list_all is_digit cs"
        by blast
      moreover have "parse_u64 cs = Inr n" using calculation that parse_u64_digits(2) by metis
      ultimately show ?thesis using val by blast
    qed
    moreover have "?l" if "?r" using that val parse_u64_digits(2) by metis
    ultimately show "?l \<longleftrightarrow> ?r" by blast
    show "parse_u64 (decimal k) = (if k < 2 ^ 64 then Inr (of_nat k) else Inl PosOverflow)"
      using parse_u64_digits(1) [of "decimal k"] decimal_digits [of k] by simp
  qed
qed

text \<open>
  The two programs agree on the timeout when it is set to the same value for both, or for neither: the server waits as long as the client expects,
  and unless that is zero, the client pings at a positive interval, at most half of it, which leaves the other half for
  delays on the way.
\<close>

lemma timeouts_agree:
  assumes "stammer_from_env var = Inr cfg" and "stutter_from_env var = Inr stutter_cfg"
    and "var ''STAMMER_SESSION_TIMEOUT_SECS'' = var ''STUTTER_SESSION_TIMEOUT_SECS''"
  shows "session_timeout cfg = client_timeout stutter_cfg \<and>
    (session_timeout cfg > 0 \<longrightarrow>
      0 < ping_interval stutter_cfg \<and> 2 * ping_interval stutter_cfg \<le> session_timeout cfg)"
  using assms by (auto simp: from_env_simps ping_interval_def from_secs_def)

lemma default_configs:
  "stammer_from_env Map.empty = Inr \<lparr>bind_addr = ''localhost:8792'', session_timeout = 30 * 10 ^ 9\<rparr>"
  "stutter_from_env Map.empty = Inr \<lparr>addr = ''localhost:8792'', client_timeout = 30 * 10 ^ 9\<rparr>"
proof -
  have "parse_u64 ''30'' = Inr 30" by (simp add: parse_u64_def to_digit_def checked_mul_def checked_add_def)
  then show "stammer_from_env Map.empty = Inr \<lparr>bind_addr = ''localhost:8792'', session_timeout = 30 * 10 ^ 9\<rparr>"
    "stutter_from_env Map.empty = Inr \<lparr>addr = ''localhost:8792'', client_timeout = 30 * 10 ^ 9\<rparr>"
    by (simp_all add: from_env_simps unwrap_or_def from_secs_def)
qed

end
