(* ===== verification/Programs.thy ===== *)
theory Programs
  imports Server_Shutdown Config
begin

text \<open>
  The two programs: \<open>stammer/src/main.rs\<close> and \<open>stutter/src/main.rs\<close>. Each sets up logging, reads its configuration, opens
  its socket and runs its task; an error on the way is logged, and nothing further is run. The server also
  runs \<open>handle_ctrl_c\<close>, joined with \<open>run_stammer_task\<close>: it waits for the signal once and passes it on through
  \<open>stop\<close>, a \<open>tokio::sync::Notify\<close>, which keeps one notification until the accept task takes it. What the logger (\<open>applied\<close>),
  the sockets and the operating system answer are arguments.
\<close>

section \<open>The code\<close>

datatype main_error = LoggingFailed string | BadConfig IntErrorKind | Io io_error

definition run_stammer :: "environment \<Rightarrow> (string \<Rightarrow> io_error + 'listener) \<Rightarrow> main_error + StammerConfig \<times> 'listener" where
  "run_stammer env bind =
    bind_result (map_sum BadConfig id (stammer_from_env env)) (\<lambda>stammer_cfg.
    bind_result (map_sum Io id (bind (bind_addr stammer_cfg))) (\<lambda>listener.
    Inr (stammer_cfg, listener)))"

definition stammer_setup_logging :: "string + unit \<Rightarrow> main_error + unit" where
  "stammer_setup_logging applied = bind_result (map_sum LoggingFailed id applied) (\<lambda>_. Inr ())"

definition stammer_main :: "string + unit \<Rightarrow> environment \<Rightarrow> (string \<Rightarrow> io_error + 'listener) \<Rightarrow> main_error + StammerConfig \<times> 'listener" where
  "stammer_main applied env bind =
    (case stammer_setup_logging applied of Inl err \<Rightarrow> Inl err | Inr _ \<Rightarrow> run_stammer env bind)"

definition run_stutter :: "environment \<Rightarrow> (string \<Rightarrow> io_error + 'stream) \<Rightarrow> main_error + StutterConfig \<times> 'stream" where
  "run_stutter env connect =
    bind_result (map_sum BadConfig id (stutter_from_env env)) (\<lambda>stutter_cfg.
    bind_result (map_sum Io id (connect (addr stutter_cfg))) (\<lambda>server_stream.
    Inr (stutter_cfg, server_stream)))"

definition stutter_setup_logging :: "string + unit \<Rightarrow> main_error + unit" where
  "stutter_setup_logging applied = bind_result (map_sum LoggingFailed id applied) (\<lambda>_. Inr ())"

definition stutter_main :: "string + unit \<Rightarrow> environment \<Rightarrow> (string \<Rightarrow> io_error + 'stream) \<Rightarrow> main_error + StutterConfig \<times> 'stream" where
  "stutter_main applied env connect =
    (case stutter_setup_logging applied of Inl err \<Rightarrow> Inl err | Inr _ \<Rightarrow> run_stutter env connect)"

text \<open>Whether \<open>handle_ctrl_c\<close> notifies \<open>stop\<close>, given what waiting for the signal returned.\<close>

definition handle_ctrl_c :: "io_error + unit \<Rightarrow> bool" where
  "handle_ctrl_c r = (case r of Inl err \<Rightarrow> False | Inr _ \<Rightarrow> True)"

text \<open>The server process: its tasks, whether \<open>handle_ctrl_c\<close> has returned, and whether \<open>stop\<close> holds a notification.\<close>

record 'm stammer =
  tasks :: "'m server"
  ctrl_c_done :: bool
  notified :: bool

definition stammer_init :: "'m stammer" where
  "stammer_init = \<lparr>tasks = server_init, ctrl_c_done = False, notified = False\<rparr>"

text \<open>The \<open>join!\<close> of \<open>run_stammer\<close> returns when both of its futures have.\<close>

definition stammer_returned :: "'m stammer \<Rightarrow> bool" where
  "stammer_returned p \<longleftrightarrow> ctrl_c_done p \<and> server_stopped (tasks p)"

datatype 'm stammer_label =
    Tasks "'m label"
  | CtrlC "io_error + unit"

text \<open>
  The accept task is stopped from within by the notification of \<open>stop\<close> only, which it then takes; all other steps are those of the server, an
  error of its listener among them.
\<close>

inductive stammer_step ::
    "StammerConfig \<Rightarrow> (SessionID set \<Rightarrow> SessionID list) \<Rightarrow> 'm server_msgs \<Rightarrow>
      'm stammer \<Rightarrow> 'm stammer_label \<Rightarrow> 'm stammer \<Rightarrow> bool"
  for cfg iter tm where
  ctrl_c:
    "\<not> crashed (tasks p) \<Longrightarrow> \<not> ctrl_c_done p \<Longrightarrow>
     stammer_step cfg iter tm p (CtrlC r) (p\<lparr>ctrl_c_done := True, notified := notified p \<or> handle_ctrl_c r\<rparr>)"
| take_stop:
    "server_step cfg iter tm (tasks p) Internal s \<Longrightarrow> \<not> stopping (tasks p) \<Longrightarrow> stopping s \<Longrightarrow> notified p \<Longrightarrow>
     stammer_step cfg iter tm p (Tasks Internal) (p\<lparr>tasks := s, notified := False\<rparr>)"
| serve:
    "server_step cfg iter tm (tasks p) l s \<Longrightarrow> (l = Internal \<longrightarrow> stopping s = stopping (tasks p)) \<Longrightarrow>
     stammer_step cfg iter tm p (Tasks l) (p\<lparr>tasks := s\<rparr>)"

inductive_cases stammer_step_CtrlC: "stammer_step cfg iter tm p (CtrlC r) p'"

inductive_cases stammer_step_Tasks: "stammer_step cfg iter tm p (Tasks l) p'"

inductive stammer_run ::
    "StammerConfig \<Rightarrow> (SessionID set \<Rightarrow> SessionID list) \<Rightarrow> 'm server_msgs \<Rightarrow>
      'm stammer_label list \<Rightarrow> 'm stammer \<Rightarrow> bool"
  for cfg iter tm where
  init: "stammer_run cfg iter tm [] stammer_init"
| step: "stammer_run cfg iter tm tr p \<Longrightarrow> stammer_step cfg iter tm p l p' \<Longrightarrow> stammer_run cfg iter tm (tr @ [l]) p'"

section \<open>The tasks within the program\<close>

fun server_label :: "'m stammer_label \<Rightarrow> 'm label list" where
  "server_label (Tasks l) = [l]"
| "server_label (CtrlC r) = []"

lemma stammer_run_server:
  "stammer_run cfg iter tm tr p \<Longrightarrow> server_run cfg iter tm (concat (map server_label tr)) (tasks p)"
proof (induction rule: stammer_run.induct)
  case (step tr p l p')
  then show ?case
    by (cases l) (auto intro: server_run.step elim!: stammer_step_CtrlC stammer_step_Tasks)
qed (simp add: stammer_init_def server_run.init)

lemma ClientSent_server_label:
  "ClientSent k q \<in> set (concat (map server_label tr)) \<longleftrightarrow> Tasks (ClientSent k q) \<in> set tr"
proof -
  have "ClientSent k q \<in> set (server_label l) \<longleftrightarrow> l = Tasks (ClientSent k q)" for l
    by (cases l) auto
  then show ?thesis by auto
qed

lemma server_step_stopping: "server_step cfg iter tm s l s' \<Longrightarrow> stopping s \<Longrightarrow> stopping s'"
  by (cases rule: server_step.cases) (auto simp: post_eq to_control_def)

text \<open>The accept task ends its loop on two events only.\<close>

lemma server_step_stops:
  assumes "server_step cfg iter tm s l s'" and "\<not> stopping s" and "stopping s'"
  shows "l = Internal \<or> (\<exists>err. l = ListenerFailed err)"
  using assms
proof (cases rule: server_step.cases)
  case (stop ev ids m)
  then show ?thesis using accept_stops [OF stop(5)] by auto
qed (use assms(2,3) in \<open>auto simp: post_eq\<close>)

text \<open>Where the notification is.\<close>

lemma stammer_signal:
  assumes "stammer_run cfg iter tm tr p"
  shows "(ctrl_c_done p \<longleftrightarrow> (\<exists>r. CtrlC r \<in> set tr)) \<and>
    (CtrlC (Inr ()) \<in> set tr \<longleftrightarrow> notified p \<or> stopping (tasks p) \<and> CtrlC (Inr ()) \<in> set tr) \<and>
    (stopping (tasks p) \<longrightarrow> CtrlC (Inr ()) \<in> set tr \<or> (\<exists>err. Tasks (ListenerFailed err) \<in> set tr))"
  using assms
proof (induction rule: stammer_run.induct)
  case (step tr p l p')
  show ?case
  proof (cases l)
    case (CtrlC r)
    then have "p' = p\<lparr>ctrl_c_done := True, notified := notified p \<or> handle_ctrl_c r\<rparr>"
      using step.hyps(2) by (auto elim: stammer_step_CtrlC)
    with step.IH CtrlC show ?thesis by (cases r) (auto simp: handle_ctrl_c_def)
  next
    case (Tasks l')
    from step.hyps(2) [unfolded Tasks] show ?thesis
    proof (rule stammer_step_Tasks)
      fix s assume s: "p' = p\<lparr>tasks := s\<rparr>" "server_step cfg iter tm (tasks p) l' s"
        "l' = Internal \<longrightarrow> stopping s = stopping (tasks p)"
      have "stopping s \<longrightarrow> stopping (tasks p) \<or> (\<exists>err. l' = ListenerFailed err)" using server_step_stops [OF s(2)] s(3) by blast
      moreover have "stopping (tasks p) \<longrightarrow> stopping s" using server_step_stopping [OF s(2)] by blast
      ultimately show ?thesis using step.IH Tasks s(1) by auto
    qed (use step.IH Tasks in auto)
  qed
qed (simp add: stammer_init_def server_init_def)

text \<open>With a notification at hand, or taken, what the tasks can do of themselves the program can do.\<close>

lemma settles_stammer:
  assumes "settles cfg iter tm (tasks p) s" and "notified p \<or> stopping (tasks p)"
  shows "\<exists>p'. (\<lambda>p p'. stammer_step cfg iter tm p (Tasks Internal) p')\<^sup>*\<^sup>* p p' \<and>
    tasks p' = s \<and> ctrl_c_done p' = ctrl_c_done p \<and> (notified p' \<or> stopping s)"
  using assms(1)
proof (induction rule: rtranclp_induct)
  case (step s s')
  then obtain q where q: "(\<lambda>p p'. stammer_step cfg iter tm p (Tasks Internal) p')\<^sup>*\<^sup>* p q"
    "tasks q = s" "ctrl_c_done q = ctrl_c_done p" "notified q \<or> stopping s" by blast
  have "\<exists>q'. stammer_step cfg iter tm q (Tasks Internal) q' \<and>
    tasks q' = s' \<and> ctrl_c_done q' = ctrl_c_done q \<and> (notified q' \<or> stopping s')"
  proof (cases "stopping s' = stopping s")
    case True
    with step.hyps(2) q show ?thesis
      by (intro exI [of _ "q\<lparr>tasks := s'\<rparr>"]) (auto intro: stammer_step.serve)
  next
    case False
    with step.hyps(2) q server_step_stopping [OF step.hyps(2)] show ?thesis
      by (intro exI [of _ "q\<lparr>tasks := s', notified := False\<rparr>"]) (auto intro: stammer_step.take_stop)
  qed
  with q show ?case by (metis (no_types, lifting) rtranclp.rtrancl_into_rtrancl)
qed (use assms(2) in blast)

section \<open>Properties\<close>

text \<open>
  C14. What stops the server program: the accept task ends only after a signal was received or on an error of the listener. Without either,
  and without a crash, it is always ready for the next client, also when waiting for the signal has failed; and the program returns only after
  \<open>handle_ctrl_c\<close> has, so after an error of the listener it still waits for a signal.
\<close>

theorem stammer_stops_on_signal:
  assumes "stammer_run cfg iter tm tr p"
  shows "(stopping (tasks p) \<longrightarrow> CtrlC (Inr ()) \<in> set tr \<or> (\<exists>err. Tasks (ListenerFailed err) \<in> set tr)) \<and>
    (\<not> stopping (tasks p) \<and> \<not> crashed (tasks p) \<longrightarrow>
      (\<exists>p'. stammer_step cfg iter tm p (Tasks (Connected (length (session_ids (tasks p))))) p' \<and>
        session_ids (tasks p') = session_ids (tasks p) @ [of_nat (length (session_ids (tasks p)))] \<and> \<not> stopping (tasks p'))) \<and>
    (stammer_returned p \<longrightarrow> (\<exists>r. CtrlC r \<in> set tr) \<and>
      (CtrlC (Inr ()) \<in> set tr \<or> (\<exists>err. Tasks (ListenerFailed err) \<in> set tr)))"
proof -
  define N where "N = length (session_ids (tasks p))"
  have "stammer_step cfg iter tm p (Tasks (Connected N)) (p\<lparr>tasks := (tasks p)\<lparr>session_ids := session_ids (tasks p) @ [of_nat N],
      handshaking := insert N (handshaking (tasks p))\<rparr>\<rparr>)" if "\<not> stopping (tasks p)" "\<not> crashed (tasks p)"
    using that server_step.connect [of "tasks p" "ListenerNext (Some (Inr ()))" "session_ids (tasks p) @ [of_nat N]" cfg iter tm]
    by (intro stammer_step.serve) (simp_all add: accept_step_def N_def)
  then show ?thesis
    using stammer_signal [OF assms] unfolding N_def stammer_returned_def server_stopped_def by fastforce
qed

text \<open>
  C13. Ctrl-c shuts the program down: once the signal was received, from every state of the program in which no version exchange is
  under way and clients have sent nothing fatal, steps of its own tasks, the first of which may be that of the accept task
  taking the notification, lead to its return, without a crash.
\<close>

theorem stammer_shuts_down:
  assumes "stammer_run cfg iter tm tr p" and "CtrlC (Inr ()) \<in> set tr"
    and "\<not> crashed (tasks p)" and "handshaking (tasks p) = {}" and "length (session_ids (tasks p)) \<le> 2 ^ 32"
    and "text_ok tm" and "\<forall>k q. Tasks (ClientSent k q) \<in> set tr \<longrightarrow> \<not> fatal tm q"
  shows "\<exists>p'. (\<lambda>p p'. stammer_step cfg iter tm p (Tasks Internal) p')\<^sup>*\<^sup>* p p' \<and>
    stammer_returned p' \<and> \<not> crashed (tasks p')"
proof -
  obtain s where s: "settles cfg iter tm (tasks p) s" "server_stopped s" "\<not> crashed s"
    using server_settles [OF stammer_run_server [OF assms(1)] assms(3-6)] assms(7)
    by (auto simp only: ClientSent_server_label)
  have "ctrl_c_done p" "notified p \<or> stopping (tasks p)"
    using stammer_signal [OF assms(1)] assms(2) by blast+
  from settles_stammer [OF s(1) this(2)] this(1) s(2,3) show ?thesis
    by (auto simp: stammer_returned_def)
qed

text \<open>A signal before any client, and the stop of the accept task.\<close>

lemma demo_signal: "stammer_run demo_cfg iter tm [CtrlC (Inr ())] (stammer_init\<lparr>ctrl_c_done := True, notified := True\<rparr>)"
  using stammer_run.step [OF stammer_run.init stammer_step.ctrl_c [where p = stammer_init and r = "Inr ()"]]
  by (simp add: stammer_init_def server_init_def handle_ctrl_c_def)

lemma demo_stops:
  "\<exists>p. stammer_run demo_cfg iter tm [CtrlC (Inr ()), Tasks Internal] p \<and> stopping (tasks p)"
proof -
  have "server_step demo_cfg iter tm server_init Internal (to_control ControlShutdown (server_init\<lparr>stopping := True\<rparr>))"
    using server_step.stop [of server_init StopNotified "[]" ControlShutdown demo_cfg iter tm]
    by (simp add: server_init_def accept_step_def accept_end_def send_expect_def control_init_def)
  then have "stammer_step demo_cfg iter tm (stammer_init\<lparr>ctrl_c_done := True, notified := True\<rparr>) (Tasks Internal)
      (stammer_init\<lparr>ctrl_c_done := True, notified := False, tasks := to_control ControlShutdown (server_init\<lparr>stopping := True\<rparr>)\<rparr>)"
    using stammer_step.take_stop [of demo_cfg iter tm "stammer_init\<lparr>ctrl_c_done := True, notified := True\<rparr>"]
    by (simp add: stammer_init_def server_init_def to_control_def control_init_def)
  from stammer_run.step [OF demo_signal this] show ?thesis
    by (force simp: to_control_def)
qed

theorem stammer_stops_on_signal_witness:
  "\<exists>tr p. stammer_run demo_cfg sorted_list_of_set triple_msgs tr p \<and> stopping (tasks p) \<and>
    (CtrlC (Inr ()) \<in> set tr \<or> (\<exists>err. Tasks (ListenerFailed err) \<in> set tr))"
proof -
  obtain p where p: "stammer_run demo_cfg sorted_list_of_set triple_msgs [CtrlC (Inr ()), Tasks Internal] p" "stopping (tasks p)"
    using demo_stops by blast
  with stammer_stops_on_signal [OF p(1)] show ?thesis by blast
qed

theorem stammer_shuts_down_witness:
  "\<exists>p'. (\<lambda>p p'. stammer_step demo_cfg sorted_list_of_set triple_msgs p (Tasks Internal) p')\<^sup>*\<^sup>*
      (stammer_init\<lparr>ctrl_c_done := True, notified := True\<rparr>) p' \<and> stammer_returned p' \<and> \<not> crashed (tasks p')"
  by (rule stammer_shuts_down [OF demo_signal]) (simp_all add: stammer_init_def server_init_def triple_msgs_ok)

text \<open>
  C28. The two programs, started in one environment that sets the same timeout for both, or none, keep their
  session alive: the client pings at its interval, half of the timeout, starting at \<open>c\<close>; if the connection delivers
  within \<open>d\<close>, at most half of the timeout, and no stream fails, the server's session goes on through any events.
\<close>

theorem programs_keep_session_alive:
  assumes "stammer_main (Inr ()) env bind = Inr (cfg, listener)" and "stutter_main (Inr ()) env connect = Inr (stutter_cfg, stream)"
    and "env ''STAMMER_SESSION_TIMEOUT_SECS'' = env ''STUTTER_SESSION_TIMEOUT_SECS''" and "0 < session_timeout cfg"
    and "2 * d \<le> session_timeout cfg" and "c + d \<le> last_ping self + session_timeout cfg"
    and "\<forall>ev \<in> set evs. benign ev \<and> last_ping self \<le> fst ev" and "sorted (map fst evs)"
    and "\<forall>i < length evs. \<forall>k. snd (evs ! i) = KeepaliveTick \<and> c + k * ping_interval stutter_cfg + d \<le> fst (evs ! i) \<longrightarrow>
      (\<exists>j < i. is_ping (evs ! j) \<and> c + k * ping_interval stutter_cfg \<le> fst (evs ! j))"
  shows "\<exists>outs self'. session_run cfg sid self evs = (outs, [], Some self')"
proof -
  have cfgs: "stammer_from_env env = Inr cfg" "stutter_from_env env = Inr stutter_cfg"
    using assms(1,2)
    by (auto simp: stammer_main_def stutter_main_def stammer_setup_logging_def stutter_setup_logging_def run_stammer_def run_stutter_def bind_result_eq_Inr
        map_sum_def split: sum.splits)
  note agree = timeouts_agree [OF this assms(3)]
  show ?thesis
    by (rule keepalive_suffices [OF _ _ _ assms(6-9)]) (use agree assms(4,5) in simp_all)
qed

lemma default_programs:
  "stammer_main (Inr ()) Map.empty (\<lambda>a. Inr a)
     = Inr (\<lparr>bind_addr = ''localhost:8792'', session_timeout = 30 * 10 ^ 9\<rparr>, ''localhost:8792'')"
  "stutter_main (Inr ()) Map.empty (\<lambda>a. Inr a)
     = Inr (\<lparr>addr = ''localhost:8792'', client_timeout = 30 * 10 ^ 9\<rparr>, ''localhost:8792'')"
  using default_configs
  by (simp_all add: stammer_main_def stutter_main_def stammer_setup_logging_def stutter_setup_logging_def run_stammer_def run_stutter_def)

definition seconds_pinging :: "(nat \<times> unit session_event) list" where
  "seconds_pinging = map (\<lambda>(t, ev). (t * 10 ^ 9, ev)) pinging"

theorem programs_keep_session_alive_witness:
  "\<exists>cfg. stammer_main (Inr ()) Map.empty (\<lambda>a. Inr a) = Inr (cfg, ''localhost:8792'') \<and>
    (\<exists>outs self'. session_run cfg 3 \<lparr>last_ping = 0\<rparr> seconds_pinging = (outs, [], Some self'))"
proof (rule exI, rule conjI [OF default_programs(1)])
  let ?I = "ping_interval \<lparr>addr = ''localhost:8792'', client_timeout = 30 * 10 ^ 9\<rparr>"
  have "\<forall>i < length seconds_pinging. \<forall>k. snd (seconds_pinging ! i) = KeepaliveTick \<and>
      10 ^ 9 + k * ?I + 10 ^ 10 \<le> fst (seconds_pinging ! i) \<longrightarrow>
      (\<exists>j < i. is_ping (seconds_pinging ! j) \<and> 10 ^ 9 + k * ?I \<le> fst (seconds_pinging ! j))"
    by (auto simp: seconds_pinging_def pinging_def ping_interval_def is_ping_def less_Suc_eq nth_Cons' numeral_3_eq_3
        intro!: exI [of _ 1]) arith
  then show "\<exists>outs self'. session_run \<lparr>bind_addr = ''localhost:8792'', session_timeout = 30 * 10 ^ 9\<rparr> 3 \<lparr>last_ping = 0\<rparr>
      seconds_pinging = (outs, [], Some self')"
    by (intro programs_keep_session_alive [OF default_programs, where c = "10 ^ 9" and d = "10 ^ 10"])
      (auto simp: seconds_pinging_def pinging_def benign_def)
qed

end
