(* ===== verification/Echo_Client.thy ===== *)
theory Echo_Client
  imports Crypt Client_Connection
begin

text \<open>
  The example program of the protocol crate, \<open>mumble-protocol/examples/echo_client.rs\<close>: it logs in, answers
  text messages, takes the keys of the voice channel from the server's \<open>CryptSetup\<close>, hands
  them to its UDP part when the server says it is synchronised, and from then on returns every voice packet.

  \<open>connect_step\<close> is an iteration of the loop of \<open>connect\<close>: the packets sent, the states handed over
  to \<open>handle_udp\<close> through the oneshot channel, and the next state, or a panic. \<open>udp_step\<close> is an iteration of the loop of
  \<open>handle_udp\<close>, on one datagram, decoded and encoded by the \<open>CryptState\<close>. The accessors of the
  generated messages are the record \<open>echo_msgs\<close>. The program around the two loops is in \<open>Echo_Program\<close>.
\<close>

section \<open>The code\<close>

record 'm echo_msgs = "'m client_msgs" +
  set_username :: "'m \<Rightarrow> string \<Rightarrow> 'm"
  set_opus :: "'m \<Rightarrow> bool \<Rightarrow> 'm"
  TextMessage_new :: 'm
  push_session :: "'m \<Rightarrow> u32 \<Rightarrow> 'm"
  take_message :: "'m \<Rightarrow> string"
  set_message :: "'m \<Rightarrow> string \<Rightarrow> 'm"
  get_key :: "'m \<Rightarrow> bytes"
  get_client_nonce :: "'m \<Rightarrow> bytes"
  get_server_nonce :: "'m \<Rightarrow> bytes"

definition login :: "('m, 'x) echo_msgs_scheme \<Rightarrow> string \<Rightarrow> (unit, 'm) ControlPacket" where
  "login em user_name = Authenticate (set_opus em (set_username em (Authenticate_new em) user_name) True)"

record echo_task =
  crypt_state :: "CryptState option"
  crypt_state_sender :: bool

definition echo_init :: echo_task where
  "echo_init = \<lparr>crypt_state = None, crypt_state_sender = True\<rparr>"

text \<open>\<open>try_into\<close> an array, and \<open>expect\<close>.\<close>

definition expect_array :: "nat \<Rightarrow> bytes \<Rightarrow> string \<Rightarrow> bytes outcome" where
  "expect_array n bs msg = (if length bs = n then Return bs else Panic msg)"

definition connect_step ::
    "('m, 'x) echo_msgs_scheme \<Rightarrow> echo_task \<Rightarrow> io_error + (u32, 'm) ControlPacket \<Rightarrow> io_error + unit \<Rightarrow>
      ((unit, 'm) ControlPacket list \<times> CryptState list \<times> echo_task) outcome" where
  "connect_step em self received sent =
    (case received of
       Inl err \<Rightarrow> Panic ''called Result::unwrap() on an Err value''
     | Inr packet \<Rightarrow>
         (case packet of
            TextMessage msg \<Rightarrow>
              let response = push_session em (TextMessage_new em) (get_actor em msg);
                  response = set_message em response (take_message em msg)
              in (case sent of
                    Inl err \<Rightarrow> Panic ''called Result::unwrap() on an Err value''
                  | Inr _ \<Rightarrow> Return ([TextMessage response], [], self))
          | CryptSetup msg \<Rightarrow>
              bind_outcome (expect_array KEY_SIZE (get_key em msg)
                  ''Server sent private key with incorrect size'') (\<lambda>key.
              bind_outcome (expect_array BLOCK_SIZE (get_client_nonce em msg)
                  ''Server sent client_nonce with incorrect size'') (\<lambda>client_nonce.
              bind_outcome (expect_array BLOCK_SIZE (get_server_nonce em msg)
                  ''Server sent server_nonce with incorrect size'') (\<lambda>server_nonce.
              Return ([], [], self\<lparr>crypt_state := Some (new_from key client_nonce server_nonce)\<rparr>))))
          | ServerSync _ \<Rightarrow>
              if crypt_state_sender self then
                bind_outcome (expect_option (crypt_state self)
                    ''Server didn't send us any CryptSetup packet!'') (\<lambda>st.
                Return ([], [st], self\<lparr>crypt_state_sender := False, crypt_state := None\<rparr>))
              else Return ([], [], self)
          | _ \<Rightarrow> Return ([], [], self)))"

fun connect_run ::
    "('m, 'x) echo_msgs_scheme \<Rightarrow> echo_task \<Rightarrow> (u32, 'm) ControlPacket list \<Rightarrow>
      ((unit, 'm) ControlPacket list \<times> CryptState list \<times> echo_task) outcome" where
  "connect_run em self [] = Return ([], [], self)"
| "connect_run em self (packet # packets) =
    bind_outcome (connect_step em self (Inr packet) (Inr ())) (\<lambda>(out, handed, self).
      bind_outcome (connect_run em self packets) (\<lambda>(out', handed', self).
        Return (out @ out', handed @ handed', self)))"

definition dummy_packet :: "unit VoicePacket" where
  "dummy_packet = Audio 0 () 0 (Opus (replicate 128 0) True) None"

text \<open>
  \<open>handle_udp\<close> before its loop: nothing when the other part is gone, and otherwise the first datagram.
  \<open>received\<close> is what the oneshot channel gives, \<open>sent\<close> the result of sending.
\<close>

definition udp_start ::
    "crypto \<Rightarrow> CryptState option \<Rightarrow> io_error + unit \<Rightarrow> (bytes list \<times> CryptState option) outcome" where
  "udp_start cr received sent =
    (case received of
       None \<Rightarrow> Return ([], None)
     | Some st \<Rightarrow>
         bind_outcome (crypt_encode cr Serverbound st dummy_packet []) (\<lambda>(st, d).
           case sent of
             Inl err \<Rightarrow> Panic ''called Result::unwrap() on an Err value''
           | Inr _ \<Rightarrow> Return ([d], Some st)))"

definition udp_step ::
    "crypto \<Rightarrow> CryptState \<Rightarrow> bytes \<Rightarrow> io_error + unit \<Rightarrow> (bytes list \<times> CryptState) outcome" where
  "udp_step cr st buf sent =
    bind_outcome (crypt_decode cr Clientbound st buf) (\<lambda>(r, st, _).
      case r of
        Inl err \<Rightarrow> Return ([], st)
      | Inr None \<Rightarrow> Return ([], st)
      | Inr (Some packet) \<Rightarrow>
          (case packet of
             VoicePacket.Ping _ \<Rightarrow> Return ([], st)
           | Audio _ _ seq_num payload position_info \<Rightarrow>
               let reply = Audio 0 () seq_num payload position_info
               in bind_outcome (crypt_encode cr Serverbound st reply []) (\<lambda>(st, d).
                    case sent of
                      Inl err \<Rightarrow> Panic ''called Result::unwrap() on an Err value''
                    | Inr _ \<Rightarrow> Return ([d], st))))"

section \<open>Handing over the keys\<close>

fun is_sync :: "('s, 'm) ControlPacket \<Rightarrow> bool" where
  "is_sync (ServerSync m) \<longleftrightarrow> True"
| "is_sync _ \<longleftrightarrow> False"

fun is_setup :: "('s, 'm) ControlPacket \<Rightarrow> bool" where
  "is_setup (CryptSetup m) \<longleftrightarrow> True"
| "is_setup _ \<longleftrightarrow> False"

abbreviation state_of :: "('m, 'x) echo_msgs_scheme \<Rightarrow> 'm \<Rightarrow> CryptState" where
  "state_of em m \<equiv> new_from (get_key em m) (get_client_nonce em m) (get_server_nonce em m)"

lemma connect_run_append:
  "connect_run em self (xs @ ys) =
    bind_outcome (connect_run em self xs) (\<lambda>(out, handed, self).
      bind_outcome (connect_run em self ys) (\<lambda>(out', handed', self). Return (out @ out', handed @ handed', self)))"
  by (induction xs arbitrary: self)
    (simp_all add: bind_outcome_def split: outcome.splits prod.splits)

lemma connect_step_setup:
  "connect_step em self (Inr (CryptSetup m)) sent = Return (out, handed, self') \<Longrightarrow>
    handed = [] \<and> self' = self\<lparr>crypt_state := Some (state_of em m)\<rparr>"
  by (auto simp: connect_step_def expect_array_def split: if_splits)

lemma connect_step_sync:
  "connect_step em self (Inr (ServerSync m)) sent =
    (if crypt_state_sender self then
       (case crypt_state self of
          None \<Rightarrow> Panic ''Server didn't send us any CryptSetup packet!''
        | Some st \<Rightarrow> Return ([], [st], self\<lparr>crypt_state_sender := False, crypt_state := None\<rparr>))
     else Return ([], [], self))"
  by (simp add: connect_step_def split: option.split)

lemma connect_step_other:
  "connect_step em self (Inr packet) sent = Return (out, handed, self') \<Longrightarrow> \<not> is_sync packet \<Longrightarrow> \<not> is_setup packet \<Longrightarrow>
    handed = [] \<and> self' = self"
  by (cases packet) (auto simp: connect_step_def Let_def split: sum.splits)

lemma connect_step_cases:
  assumes "connect_step em self (Inr packet) sent = Return (out, handed, self')"
  obtains (stored) m where "packet = CryptSetup m" "handed = []" "self' = self\<lparr>crypt_state := Some (state_of em m)\<rparr>"
  | (sync) st where "is_sync packet" "crypt_state_sender self" "crypt_state self = Some st" "handed = [st]"
      "self' = self\<lparr>crypt_state_sender := False, crypt_state := None\<rparr>"
  | (late_sync) "is_sync packet" "\<not> crypt_state_sender self" "handed = []" "self' = self"
  | (other) "\<not> is_sync packet" "\<not> is_setup packet" "handed = []" "self' = self"
proof -
  consider m where "packet = CryptSetup m" | m where "packet = ServerSync m" | "\<not> is_sync packet" "\<not> is_setup packet"
    by (cases packet) auto
  then show ?thesis
  proof cases
    case 1
    with connect_step_setup [of em self m sent out handed self'] assms show ?thesis by (intro stored [of m]) simp_all
  next
    case 2
    with assms show ?thesis
      by (auto simp: connect_step_sync split: if_splits option.splits intro: sync late_sync)
  next
    case 3
    with connect_step_other [OF assms] show ?thesis by (intro other) simp_all
  qed
qed

text \<open>Once the sender is used up, nothing more is handed over.\<close>

lemma connect_run_used:
  assumes "connect_run em self packets = Return (out, handed, self')" and "\<not> crypt_state_sender self"
  shows "handed = []"
  using assms
proof (induction packets arbitrary: self out handed)
  case (Cons p ps)
  from Cons.prems(1) obtain out1 h1 self1 out2 h2 where
    "connect_step em self (Inr p) (Inr ()) = Return (out1, h1, self1)"
    "connect_run em self1 ps = Return (out2, h2, self')" "handed = h1 @ h2"
    by (auto simp: bind_outcome_eq_Return)
  then show ?case using Cons.IH [of self1 out2 h2] Cons.prems(2)
    by (elim connect_step_cases) auto
qed simp

text \<open>Before the server is synchronised, the state kept is that of the last setup.\<close>

lemma connect_run_before:
  assumes "connect_run em self packets = Return (out, handed, self')" and "list_all (\<lambda>p. \<not> is_sync p) packets"
  shows "handed = [] \<and> crypt_state_sender self' = crypt_state_sender self \<and>
    (if list_all (\<lambda>p. \<not> is_setup p) packets then crypt_state self' = crypt_state self
     else \<exists>pre m post. packets = pre @ CryptSetup m # post \<and> list_all (\<lambda>p. \<not> is_setup p) post \<and>
       crypt_state self' = Some (state_of em m))"
  using assms
proof (induction packets arbitrary: self out handed)
  case (Cons p ps)
  from Cons.prems(1) obtain out1 h1 self1 out2 h2 where
    step: "connect_step em self (Inr p) (Inr ()) = Return (out1, h1, self1)"
    and run: "connect_run em self1 ps = Return (out2, h2, self')" and h: "handed = h1 @ h2"
    by (auto simp: bind_outcome_eq_Return)
  have ih: "h2 = [] \<and> crypt_state_sender self' = crypt_state_sender self1 \<and>
    (if list_all (\<lambda>p. \<not> is_setup p) ps then crypt_state self' = crypt_state self1
     else \<exists>pre m post. ps = pre @ CryptSetup m # post \<and> list_all (\<lambda>p. \<not> is_setup p) post \<and>
       crypt_state self' = Some (state_of em m))"
    using Cons.IH [OF run] Cons.prems(2) by simp
  from step show ?case
  proof (cases rule: connect_step_cases)
    case (stored m)
    then show ?thesis
    proof (cases "list_all (\<lambda>p. \<not> is_setup p) ps")
      case True
      then have "\<exists>pre m' post. p # ps = pre @ CryptSetup m' # post \<and> list_all (\<lambda>p. \<not> is_setup p) post \<and>
          crypt_state self' = Some (state_of em m')"
        using stored ih by (intro exI [of _ "[]"] exI [of _ m] exI [of _ ps]) simp
      moreover have "\<not> list_all (\<lambda>p. \<not> is_setup p) (p # ps)" using stored by simp
      ultimately show ?thesis using stored ih h by (intro conjI) (simp_all only: if_False append_Nil, simp_all)
    qed (use stored ih h in \<open>auto intro: Cons_eq_appendI\<close>)
  qed (use Cons.prems(2) ih h in \<open>auto split: if_splits intro: Cons_eq_appendI\<close>)
qed simp

section \<open>Two peers in step\<close>

definition in_step :: "CryptState \<Rightarrow> CryptState \<Rightarrow> bool" where
  "in_step client server \<longleftrightarrow> key client = key server \<and> length (key server) = KEY_SIZE \<and>
    encrypt_nonce server = decrypt_nonce client \<and> encrypt_nonce client = decrypt_nonce server"

lemma in_step_sym: "in_step a b \<Longrightarrow> in_step b a"
  by (auto simp: in_step_def)

context voice_dst
begin

lemma datagram_between:
  assumes "aes_ok cr" and "in_step receiver source" and "wf_voice p"
  shows "\<exists>source' d receiver' rest. crypt_encode cr dst source p buf = Return (source', d) \<and>
    crypt_decode cr dst receiver d = Return (Inr (Some p), receiver', rest) \<and> in_step receiver' source'"
proof -
  have sync: "key receiver = key source" "length (key source) = KEY_SIZE" "encrypt_nonce source = decrypt_nonce receiver"
    "encrypt_nonce receiver = decrypt_nonce source"
    using assms(2) by (simp_all add: in_step_def)
  obtain rest where "decrypt cr dst receiver (datagram cr (key source) (encrypt_nonce source + 1) (voice_bytes p))
      = Return (Inr (Inr p), accept_state receiver 1, rest)"
    using decrypt_datagram [OF assms(1) _ assms(3), of receiver _ 1] sync by auto
  then show ?thesis
    using sync by (simp add: crypt_encode_def crypt_decode_def encrypt_eq accept_state_def in_step_def Let_def)
qed

end

text \<open>The server's side: it decodes what comes back, and each packet it sends has its answers.\<close>

fun decode_each ::
    "crypto \<Rightarrow> CryptState \<Rightarrow> bytes list \<Rightarrow> ((io_error + unit VoicePacket option) list \<times> CryptState) outcome" where
  "decode_each cr server [] = Return ([], server)"
| "decode_each cr server (d # ds) =
    bind_outcome (crypt_decode cr Serverbound server d) (\<lambda>(r, server, _).
      bind_outcome (decode_each cr server ds) (\<lambda>(rs, server). Return (r # rs, server)))"

fun converse ::
    "crypto \<Rightarrow> CryptState \<Rightarrow> CryptState \<Rightarrow> u32 VoicePacket list \<Rightarrow>
      ((io_error + unit VoicePacket option) list list \<times> CryptState \<times> CryptState) outcome" where
  "converse cr server client [] = Return ([], server, client)"
| "converse cr server client (p # ps) =
    bind_outcome (crypt_encode cr Clientbound server p []) (\<lambda>(server, d).
      bind_outcome (udp_step cr client d (Inr ())) (\<lambda>(ds, client).
        bind_outcome (decode_each cr server ds) (\<lambda>(rs, server).
          bind_outcome (converse cr server client ps) (\<lambda>(rss, server, client).
            Return (rs # rss, server, client)))))"

fun echo_of :: "u32 VoicePacket \<Rightarrow> (io_error + unit VoicePacket option) list" where
  "echo_of (VoicePacket.Ping t) = []"
| "echo_of (Audio target s seq_num payload pos) = [Inr (Some (Audio 0 () seq_num payload pos))]"

lemma echo_packet:
  assumes "aes_ok cr" and "in_step client server" and "wf_voice p"
  shows "\<exists>server' client'. in_step client' server' \<and>
    converse cr server client [p] = Return ([echo_of p], server', client')"
proof -
  obtain server1 d client1 rest where 1: "crypt_encode cr Clientbound server p [] = Return (server1, d)"
    "crypt_decode cr Clientbound client d = Return (Inr (Some p), client1, rest)" "in_step client1 server1"
    using cb.datagram_between [OF assms, of "[]"] by blast
  show ?thesis
  proof (cases p)
    case (Ping t)
    then show ?thesis using 1 by (simp add: udp_step_def)
  next
    case (Audio target s seq_num payload pos)
    define reply where "reply = Audio 0 () seq_num payload pos"
    have "wf_voice reply" using assms(3) Audio by (simp add: reply_def)
    then obtain client2 d' server2 rest' where "crypt_encode cr Serverbound client1 reply [] = Return (client2, d')"
      "crypt_decode cr Serverbound server1 d' = Return (Inr (Some reply), server2, rest')" "in_step server2 client2"
      using sb.datagram_between [OF assms(1) in_step_sym [OF 1(3)], of reply "[]"] by blast
    then show ?thesis using 1 Audio in_step_sym by (simp add: udp_step_def flip: reply_def)
  qed
qed

lemma echo_packets:
  assumes "aes_ok cr" and "in_step client server" and "list_all wf_voice ps"
  shows "\<exists>server' client'. in_step client' server' \<and> converse cr server client ps = Return (map echo_of ps, server', client')"
  using assms(2,3)
proof (induction ps arbitrary: client server)
  case (Cons p ps)
  obtain server1 client1 where 1: "in_step client1 server1"
    "converse cr server client [p] = Return ([echo_of p], server1, client1)"
    using echo_packet [OF assms(1) Cons.prems(1), of p] Cons.prems(2) by auto
  moreover obtain server2 client2 where "in_step client2 server2"
    "converse cr server1 client1 ps = Return (map echo_of ps, server2, client2)"
    using Cons.IH [OF 1(1)] Cons.prems(2) by auto
  ultimately show ?case by (auto simp: bind_outcome_eq_Return)
qed simp

lemma setup_in_step:
  assumes "length (key server) = KEY_SIZE"
  shows "in_step (new_from (key server) (get_decrypt_nonce server) (get_encrypt_nonce server)) server"
  using assms by (simp add: in_step_def new_from_def get_decrypt_nonce_def get_encrypt_nonce_def BLOCK_SIZE_def
      del: be_bytes_numeral)

section \<open>An instance\<close>

text \<open>The triples as messages once more: a \<open>CryptSetup\<close> holds the key and the client's nonce.\<close>

definition triple_echo :: "(u32 \<times> u32 list \<times> u32 list) echo_msgs" where
  "triple_echo = client_msgs.extend triple_client (echo_msgs.fields (\<lambda>m _. m) (\<lambda>m _. m) (0, [], [])
     (\<lambda>(a, ss, rs) s. (a, ss @ [s], rs)) (\<lambda>_. []) (\<lambda>m _. m)
     (\<lambda>(a, ss, rs). map ucast ss) (\<lambda>(a, ss, rs). map ucast rs) (\<lambda>_. replicate 16 0))"

definition demo_setup :: "u32 \<times> u32 list \<times> u32 list" where
  "demo_setup = (0, replicate 16 0x5A, replicate 16 0)"

lemma le_bytes_zero: "le_bytes n (0 :: 'a::len word) = replicate n 0"
proof -
  have "be_bytes n (0 :: 'a word) = replicate n 0" by (induction n) simp_all
  then show ?thesis by (simp add: le_bytes_def)
qed

lemma demo_setup_simps:
  "get_key triple_echo demo_setup = key test_peer" "get_client_nonce triple_echo demo_setup = get_decrypt_nonce test_peer"
  "get_server_nonce triple_echo demo_setup = get_encrypt_nonce test_peer"
  by (simp_all add: triple_echo_def demo_setup_def client_msgs.defs echo_msgs.defs get_decrypt_nonce_def
      get_encrypt_nonce_def test_peer_simps le_bytes_zero BLOCK_SIZE_def test_peer_def new_from_def
      from_le_bytes_def from_be_bytes_zeros)

section \<open>Properties\<close>

text \<open>
  The keys are handed over once, and they are the right ones. When the control part reads any packets, of which
  a first \<open>ServerSync\<close> among them, without a panic, it hands over exactly one state, that of the last
  \<open>CryptSetup\<close> before this \<open>ServerSync\<close>, whatever comes after.
\<close>

theorem echo_hands_over_once:
  assumes "connect_run em echo_init (before @ ServerSync m # after) = Return (out, handed, self)"
    and "list_all (\<lambda>p. \<not> is_sync p) before"
  shows "\<exists>pre msg post. before = pre @ CryptSetup msg # post \<and> list_all (\<lambda>p. \<not> is_setup p) post \<and>
    handed = [new_from (get_key em msg) (get_client_nonce em msg) (get_server_nonce em msg)]"
proof -
  obtain out1 h1 self1 out2 h2 self2 out3 h3 where
    1: "connect_run em echo_init before = Return (out1, h1, self1)" and
    2: "connect_step em self1 (Inr (ServerSync m)) (Inr ()) = Return (out2, h2, self2)" and
    3: "connect_run em self2 after = Return (out3, h3, self)" and "handed = h1 @ h2 @ h3"
    using assms(1) by (auto simp: connect_run_append bind_outcome_eq_Return)
  note before = connect_run_before [OF 1 assms(2)]
  have "crypt_state self1 \<noteq> None" "h2 = [the (crypt_state self1)]" "\<not> crypt_state_sender self2"
    using 2 before by (auto simp: connect_step_sync echo_init_def split: option.splits if_splits)
  moreover have "h3 = []" using connect_run_used [OF 3] calculation(3) by blast
  ultimately show ?thesis
    using before \<open>handed = h1 @ h2 @ h3\<close> by (auto simp: echo_init_def split: if_splits)
qed

theorem echo_hands_over_once_witness:
  "\<exists>out handed self. connect_run triple_echo echo_init ([CryptSetup demo_setup] @ ServerSync demo_setup # [ServerSync demo_setup])
      = Return (out, handed, self) \<and>
    handed = [new_from (key test_peer) (get_decrypt_nonce test_peer) (get_encrypt_nonce test_peer)]"
proof -
  have len: "length (get_decrypt_nonce test_peer) = BLOCK_SIZE" "length (get_encrypt_nonce test_peer) = BLOCK_SIZE"
    by (simp_all add: get_decrypt_nonce_def get_encrypt_nonce_def le_bytes_def)
  then obtain out handed self where run: "connect_run triple_echo echo_init
      ([CryptSetup demo_setup] @ ServerSync demo_setup # [ServerSync demo_setup]) = Return (out, handed, self)"
    by (simp add: connect_step_def expect_array_def echo_init_def demo_setup_simps test_peer_simps)
  have "list_all (\<lambda>p. \<not> is_sync p) [CryptSetup demo_setup]" by simp
  from echo_hands_over_once [OF run this] run show ?thesis
    by (fastforce simp: Cons_eq_append_conv demo_setup_simps)
qed

text \<open>
  C24. The echo client returns the server's voice. Given the key and the nonces of the server in a
  \<open>CryptSetup\<close>, and then a \<open>ServerSync\<close>, it opens the voice channel with a datagram which the server
  decodes; and of any packets the server then sends it, the server gets back one for each audio packet, and none
  for a ping, each with the sequence number, payload and position it had, for normal speech.
\<close>

theorem echo_end_to_end:
  assumes "aes_ok cr" and "length (key server) = KEY_SIZE" and "list_all wf_voice ps"
    and "get_key em msg = key server" and "get_client_nonce em msg = get_decrypt_nonce server"
    and "get_server_nonce em msg = get_encrypt_nonce server"
  shows "\<exists>client self d client' server' rest server'' client''.
    connect_run em echo_init [CryptSetup msg, ServerSync m] = Return ([], [client], self) \<and>
    udp_start cr (Some client) (Inr ()) = Return ([d], Some client') \<and>
    crypt_decode cr Serverbound server d = Return (Inr (Some dummy_packet), server', rest) \<and>
    converse cr server' client' ps = Return (map echo_of ps, server'', client'')"
proof -
  define client where "client = new_from (key server) (get_decrypt_nonce server) (get_encrypt_nonce server)"
  have "length (get_decrypt_nonce server) = BLOCK_SIZE" "length (get_encrypt_nonce server) = BLOCK_SIZE"
    by (simp_all add: get_decrypt_nonce_def get_encrypt_nonce_def le_bytes_def)
  then have "\<exists>self. connect_run em echo_init [CryptSetup msg, ServerSync m] = Return ([], [client], self)"
    using assms(2,4-6) by (simp add: connect_step_def expect_array_def echo_init_def client_def)
  moreover have "wf_voice dummy_packet" by (simp add: dummy_packet_def)
  then obtain client' d server' rest where "crypt_encode cr Serverbound client dummy_packet [] = Return (client', d)"
    "crypt_decode cr Serverbound server d = Return (Inr (Some dummy_packet), server', rest)" "in_step server' client'"
    using sb.datagram_between [OF assms(1) in_step_sym [OF setup_in_step [OF assms(2)]], of dummy_packet "[]"]
    by (auto simp: client_def)
  moreover obtain server'' client'' where "converse cr server' client' ps = Return (map echo_of ps, server'', client'')"
    using echo_packets [OF assms(1) in_step_sym [OF calculation(4)] assms(3)] by blast
  ultimately show ?thesis by (auto simp: udp_start_def)
qed

theorem echo_end_to_end_witness:
  "\<exists>client d client' server' rest server'' client''.
    udp_start xor_crypto (Some client) (Inr ()) = Return ([d], Some client') \<and>
    crypt_decode xor_crypto Serverbound test_peer d = Return (Inr (Some dummy_packet), server', rest) \<and>
    converse xor_crypto server' client' [VoicePacket.Ping 1, Audio 0 5 9 (Opus [1, 2] False) None]
      = Return ([[], [Inr (Some (Audio 0 () 9 (Opus [1, 2] False) None))]], server'', client'')"
proof -
  have "list_all wf_voice [VoicePacket.Ping 1, Audio 0 (5 :: u32) 9 (Opus [1, 2] False) None]"
    by (simp add: bit_iff_odd)
  from echo_end_to_end [OF xor_crypto_ok test_peer_simps(1) this demo_setup_simps, of demo_setup] show ?thesis
    unfolding list.map echo_of.simps by blast
qed

end
