(* ===== verification/Echo_Program.thy ===== *)
theory Echo_Program
  imports Echo_Client "HOL-Library.Sublist"
begin

text \<open>
  The example program as a whole: \<open>main\<close> of \<open>mumble-protocol/examples/echo_client.rs\<close>, with its arguments and the address of the server,
  and the two futures it joins, \<open>connect\<close> and \<open>handle_udp\<close>, as a step relation over the steps of \<open>Echo_Client\<close>. They share the oneshot
  channel and nothing else. A panic of either is a panic of the program, the flag \<open>echo_crashed\<close>.

  What \<open>argparse\<close>, the resolver, the sockets and TLS answer is the record \<open>echo_env\<close>; each is asked once. The stream of datagrams
  of a \<open>UdpFramed\<close> has no end; an error of the socket is printed, and the loop goes on.
\<close>

section \<open>The code\<close>

record echo_args =
  server_host :: string
  server_port :: u16
  user_name :: string
  accept_invalid_cert :: bool

definition echo_defaults :: echo_args where
  "echo_defaults = \<lparr>server_host = '''', server_port = 64738, user_name = ''EchoBot'', accept_invalid_cert = False\<rparr>"

text \<open>
  The options as they are declared: variable, flag, what a use of the flag does, and whether it is required. \<open>parse_args_or_exit\<close> stores the
  options given over the defaults, or ends the process (\<open>None\<close>).
\<close>

datatype echo_variable = ServerHost | ServerPort | UserName | AcceptInvalidCert

datatype option_action = Store | StoreTrue

definition echo_options :: "(echo_variable \<times> string \<times> option_action \<times> bool) list" where
  "echo_options =
    [(ServerHost, ''--host'', Store, True),
     (ServerPort, ''--port'', Store, False),
     (UserName, ''--username'', Store, False),
     (AcceptInvalidCert, ''--accept-invalid-cert'', StoreTrue, False)]"

record ('a, 't, 'c) echo_env =
  parse_args_or_exit :: "(echo_variable \<times> string \<times> option_action \<times> bool) list \<Rightarrow> echo_args \<Rightarrow> echo_args option"
  to_socket_addrs :: "string \<Rightarrow> u16 \<Rightarrow> io_error + 'a list"
  tcp_connect :: "'a \<Rightarrow> io_error + 't"
  tls_build :: "bool \<Rightarrow> string + 'c"
  tls_connect :: "'c \<Rightarrow> string \<Rightarrow> 't \<Rightarrow> string + unit"
  udp_bind :: "io_error + unit"

text \<open>\<open>main\<close> up to the \<open>join!\<close>: the arguments and the server's address.\<close>

definition echo_main :: "('a, 't, 'c) echo_env \<Rightarrow> (echo_args \<times> 'a) option outcome" where
  "echo_main env =
    (case parse_args_or_exit env echo_options echo_defaults of
       None \<Rightarrow> Return None
     | Some args \<Rightarrow>
         bind_outcome (expect_result (to_socket_addrs env (server_host args) (server_port args))
             ''Failed to parse server address'') (\<lambda>addrs.
         bind_outcome (expect_option (case addrs of [] \<Rightarrow> None | a # _ \<Rightarrow> Some a)
             ''Failed to resolve server address'') (\<lambda>server_addr.
         Return (Some (args, server_addr)))))"

text \<open>\<open>connect\<close> before its loop: TCP, TLS, and the login; \<open>sent\<close> is the result of sending it.\<close>

definition connect_start ::
    "('m, 'x) echo_msgs_scheme \<Rightarrow> ('a, 't, 'c) echo_env \<Rightarrow> echo_args \<Rightarrow> 'a \<Rightarrow> io_error + unit \<Rightarrow>
      ((unit, 'm) ControlPacket list \<times> echo_task) outcome" where
  "connect_start em env args server_addr sent =
    bind_outcome (expect_result (tcp_connect env server_addr) ''Failed to connect to server:'') (\<lambda>stream.
    bind_outcome (expect_result (tls_build env (accept_invalid_cert args)) ''Failed to create TLS connector'') (\<lambda>connector.
    bind_outcome (expect_result (tls_connect env connector (server_host args) stream) ''Failed to connect TLS: {}'') (\<lambda>tls_stream.
    bind_outcome (expect_result sent ''called Result::unwrap() on an Err value'') (\<lambda>_.
    Return ([login em (user_name args)], echo_init)))))"

text \<open>\<open>handle_udp\<close> before it waits for the state.\<close>

definition bind_udp :: "('a, 't, 'c) echo_env \<Rightarrow> unit outcome" where
  "bind_udp env = expect_result (udp_bind env) ''Failed to bind UDP socket''"

text \<open>The two futures, and the value in the oneshot channel.\<close>

datatype connect_phase = Connecting | Talking echo_task | HungUp

datatype udp_phase = Binding | AwaitingState | UdpReady CryptState | UdpReturned

record echo_program =
  connecting :: connect_phase
  oneshot :: "CryptState option"
  handling :: udp_phase
  echo_crashed :: bool

definition echo_start :: echo_program where
  "echo_start = \<lparr>connecting = Connecting, oneshot = None, handling = Binding, echo_crashed = False\<rparr>"

text \<open>The \<open>join!\<close> returns when both futures have.\<close>

definition echo_finished :: "echo_program \<Rightarrow> bool" where
  "echo_finished p \<longleftrightarrow> \<not> echo_crashed p \<and> connecting p = HungUp \<and> handling p = UdpReturned"

text \<open>What the server sees: packets on the control channel, and datagrams with the other side's address.\<close>

datatype ('m, 'a) echo_label =
    LoggedIn "(unit, 'm) ControlPacket list"
  | ControlRead "(u32, 'm) ControlPacket" "(unit, 'm) ControlPacket list"
  | UdpOpened "(bytes \<times> 'a) list"
  | UdpRead bytes 'a "(bytes \<times> 'a) list"
  | Hidden

inductive echo_step ::
    "('m, 'x) echo_msgs_scheme \<Rightarrow> crypto \<Rightarrow> ('a, 't, 'c) echo_env \<Rightarrow> echo_args \<Rightarrow> 'a \<Rightarrow>
      echo_program \<Rightarrow> ('m, 'a) echo_label \<Rightarrow> echo_program \<Rightarrow> bool"
  for em cr env args server_addr where
  logs_in:
    "\<not> echo_crashed p \<Longrightarrow> connecting p = Connecting \<Longrightarrow> connect_start em env args server_addr sent = Return (out, self) \<Longrightarrow>
     echo_step em cr env args server_addr p (LoggedIn out) (p\<lparr>connecting := Talking self\<rparr>)"
| login_panic:
    "\<not> echo_crashed p \<Longrightarrow> connecting p = Connecting \<Longrightarrow> connect_start em env args server_addr sent = Panic e \<Longrightarrow>
     echo_step em cr env args server_addr p Hidden (p\<lparr>echo_crashed := True\<rparr>)"
| control:
    "\<not> echo_crashed p \<Longrightarrow> connecting p = Talking self \<Longrightarrow>
     connect_step em self (Inr packet) sent = Return (out, handed, self') \<Longrightarrow>
     echo_step em cr env args server_addr p (ControlRead packet out)
       (p\<lparr>connecting := Talking self', oneshot := (case handed of [] \<Rightarrow> oneshot p | st # _ \<Rightarrow> Some st)\<rparr>)"
| control_panic:
    "\<not> echo_crashed p \<Longrightarrow> connecting p = Talking self \<Longrightarrow> connect_step em self received sent = Panic e \<Longrightarrow>
     echo_step em cr env args server_addr p Hidden (p\<lparr>echo_crashed := True\<rparr>)"
| hang_up:
    "\<not> echo_crashed p \<Longrightarrow> connecting p = Talking self \<Longrightarrow>
     echo_step em cr env args server_addr p Hidden (p\<lparr>connecting := HungUp\<rparr>)"
| binds:
    "\<not> echo_crashed p \<Longrightarrow> handling p = Binding \<Longrightarrow> bind_udp env = Return u \<Longrightarrow>
     echo_step em cr env args server_addr p Hidden (p\<lparr>handling := AwaitingState\<rparr>)"
| bind_panic:
    "\<not> echo_crashed p \<Longrightarrow> handling p = Binding \<Longrightarrow> bind_udp env = Panic e \<Longrightarrow>
     echo_step em cr env args server_addr p Hidden (p\<lparr>echo_crashed := True\<rparr>)"
| udp_opens:
    "\<not> echo_crashed p \<Longrightarrow> handling p = AwaitingState \<Longrightarrow> oneshot p = Some st \<Longrightarrow>
     udp_start cr (Some st) sent = Return (ds, Some st') \<Longrightarrow>
     echo_step em cr env args server_addr p (UdpOpened (map (\<lambda>d. (d, server_addr)) ds)) (p\<lparr>handling := UdpReady st', oneshot := None\<rparr>)"
| udp_open_panic:
    "\<not> echo_crashed p \<Longrightarrow> handling p = AwaitingState \<Longrightarrow> oneshot p = Some st \<Longrightarrow> udp_start cr (Some st) sent = Panic e \<Longrightarrow>
     echo_step em cr env args server_addr p Hidden (p\<lparr>echo_crashed := True\<rparr>)"
| udp_gives_up:
    "\<not> echo_crashed p \<Longrightarrow> handling p = AwaitingState \<Longrightarrow> oneshot p = None \<Longrightarrow> connecting p = HungUp \<Longrightarrow>
     udp_start cr None sent = Return (ds, None) \<Longrightarrow>
     echo_step em cr env args server_addr p Hidden (p\<lparr>handling := UdpReturned\<rparr>)"
| udp_reads:
    "\<not> echo_crashed p \<Longrightarrow> handling p = UdpReady st \<Longrightarrow> udp_step cr st buf sent = Return (ds, st') \<Longrightarrow>
     echo_step em cr env args server_addr p (UdpRead buf src (map (\<lambda>d. (d, src)) ds)) (p\<lparr>handling := UdpReady st'\<rparr>)"
| udp_panic:
    "\<not> echo_crashed p \<Longrightarrow> handling p = UdpReady st \<Longrightarrow> udp_step cr st buf sent = Panic e \<Longrightarrow>
     echo_step em cr env args server_addr p Hidden (p\<lparr>echo_crashed := True\<rparr>)"
| udp_error:
    "\<not> echo_crashed p \<Longrightarrow> handling p = UdpReady st \<Longrightarrow>
     echo_step em cr env args server_addr p Hidden p"

inductive echo_run ::
    "('m, 'x) echo_msgs_scheme \<Rightarrow> crypto \<Rightarrow> ('a, 't, 'c) echo_env \<Rightarrow> echo_args \<Rightarrow> 'a \<Rightarrow>
      ('m, 'a) echo_label list \<Rightarrow> echo_program \<Rightarrow> bool"
  for em cr env args server_addr where
  start: "echo_main env = Return (Some (args, server_addr)) \<Longrightarrow> echo_run em cr env args server_addr [] echo_start"
| step: "echo_run em cr env args server_addr tr p \<Longrightarrow> echo_step em cr env args server_addr p l p' \<Longrightarrow>
    echo_run em cr env args server_addr (tr @ [l]) p'"

section \<open>What goes in and out\<close>

fun label_control :: "('m, 'a) echo_label \<Rightarrow> (u32, 'm) ControlPacket list \<times> (unit, 'm) ControlPacket list" where
  "label_control (LoggedIn out) = ([], out)"
| "label_control (ControlRead packet out) = ([packet], out)"
| "label_control _ = ([], [])"

fun label_datagrams :: "('m, 'a) echo_label \<Rightarrow> (bytes \<times> 'a) list \<times> (bytes \<times> 'a) list" where
  "label_datagrams (UdpOpened ds) = ([], ds)"
| "label_datagrams (UdpRead buf src ds) = ([(buf, src)], ds)"
| "label_datagrams _ = ([], [])"

definition packets_read :: "('m, 'a) echo_label list \<Rightarrow> (u32, 'm) ControlPacket list" where
  "packets_read tr = concat (map (fst \<circ> label_control) tr)"

definition packets_sent :: "('m, 'a) echo_label list \<Rightarrow> (unit, 'm) ControlPacket list" where
  "packets_sent tr = concat (map (snd \<circ> label_control) tr)"

definition datagrams_read :: "('m, 'a) echo_label list \<Rightarrow> (bytes \<times> 'a) list" where
  "datagrams_read tr = concat (map (fst \<circ> label_datagrams) tr)"

definition datagrams_sent :: "('m, 'a) echo_label list \<Rightarrow> (bytes \<times> 'a) list" where
  "datagrams_sent tr = concat (map (snd \<circ> label_datagrams) tr)"

lemma echo_trace_simps [simp]:
  "packets_read [] = []" "packets_read (tr @ [l]) = packets_read tr @ fst (label_control l)"
  "packets_sent [] = []" "packets_sent (tr @ [l]) = packets_sent tr @ snd (label_control l)"
  "datagrams_read [] = []" "datagrams_read (tr @ [l]) = datagrams_read tr @ fst (label_datagrams l)"
  "datagrams_sent [] = []" "datagrams_sent (tr @ [l]) = datagrams_sent tr @ snd (label_datagrams l)"
  by (simp_all add: packets_read_def packets_sent_def datagrams_read_def datagrams_sent_def)

text \<open>The UDP part alone, as a function: the answers to a sequence of datagrams, and all it sends, given the state handed over.\<close>

fun answers :: "crypto \<Rightarrow> CryptState \<Rightarrow> (bytes \<times> 'a) list \<Rightarrow> ((bytes \<times> 'a) list \<times> CryptState) outcome" where
  "answers cr st [] = Return ([], st)"
| "answers cr st ((buf, src) # rest) =
    bind_outcome (udp_step cr st buf (Inr ())) (\<lambda>(ds, st).
    bind_outcome (answers cr st rest) (\<lambda>(out, st).
    Return (map (\<lambda>d. (d, src)) ds @ out, st)))"

definition udp_session ::
    "crypto \<Rightarrow> 'a \<Rightarrow> CryptState \<Rightarrow> (bytes \<times> 'a) list \<Rightarrow> ((bytes \<times> 'a) list \<times> CryptState) outcome" where
  "udp_session cr server_addr st reads =
    bind_outcome (crypt_encode cr Serverbound st dummy_packet []) (\<lambda>(st, d).
    bind_outcome (answers cr st reads) (\<lambda>(out, st).
    Return ((d, server_addr) # out, st)))"

lemma answers_append:
  "answers cr st (xs @ ys) =
    bind_outcome (answers cr st xs) (\<lambda>(out, st). bind_outcome (answers cr st ys) (\<lambda>(out', st). Return (out @ out', st)))"
  by (induction cr st xs rule: answers.induct) (simp_all add: bind_outcome_def split: outcome.splits prod.splits)

text \<open>The result of a send makes no difference, unless it is a panic.\<close>

lemma connect_step_sent:
  "connect_step em self (Inr packet) sent = Return r \<Longrightarrow> connect_step em self (Inr packet) (Inr ()) = Return r"
  by (cases sent; cases packet) (simp_all add: connect_step_def Let_def)

lemma udp_step_sent:
  assumes "udp_step cr st buf sent = Return r"
  shows "udp_step cr st buf (Inr ()) = Return r"
proof (cases sent)
  case (Inl err)
  obtain x st1 rest where dec: "crypt_decode cr Clientbound st buf = Return (x, st1, rest)"
    using assms by (auto simp: udp_step_def bind_outcome_eq_Return)
  show ?thesis
  proof (cases "\<exists>target s seq_num payload pos. x = Inr (Some (Audio target s seq_num payload pos))")
    case True
    then show ?thesis using assms Inl dec by (auto simp: udp_step_def bind_outcome_eq_Return)
  next
    case False
    then show ?thesis using assms Inl dec by (simp add: udp_step_def split: sum.splits option.splits VoicePacket.splits)
  qed
qed (use assms in simp)

lemma udp_session_snoc:
  assumes "udp_session cr server_addr st reads = Return (out, st1)" and "udp_step cr st1 buf sent = Return (ds, st2)"
  shows "udp_session cr server_addr st (reads @ [(buf, src)]) = Return (out @ map (\<lambda>d. (d, src)) ds, st2)"
  using assms(1) udp_step_sent [OF assms(2)]
  by (auto simp: udp_session_def bind_outcome_eq_Return answers_append)

lemma udp_start_session:
  assumes "udp_start cr (Some st) sent = Return (ds, Some st')"
  shows "udp_session cr server_addr st [] = Return (map (\<lambda>d. (d, server_addr)) ds, st')"
  using assms by (cases sent) (auto simp: udp_start_def udp_session_def bind_outcome_eq_Return)

lemma connect_run_snoc:
  assumes "connect_run em self packets = Return (out, handed, self1)" and "connect_step em self1 (Inr packet) sent = Return (out', handed', self2)"
  shows "connect_run em self (packets @ [packet]) = Return (out @ out', handed @ handed', self2)"
  using assms(1) connect_step_sent [OF assms(2)] by (simp add: connect_run_append)

section \<open>The invariant\<close>

text \<open>
  The control part is where \<open>connect_run\<close> is on the packets read so far; the UDP part waits for what that has handed over, or is
  where \<open>udp_session\<close> is on the datagrams read so far.
\<close>

fun udp_inv ::
    "crypto \<Rightarrow> 'a \<Rightarrow> udp_phase \<Rightarrow> CryptState option \<Rightarrow> CryptState list \<Rightarrow> (bytes \<times> 'a) list \<Rightarrow> (bytes \<times> 'a) list \<Rightarrow> bool" where
  "udp_inv cr server_addr (UdpReady st') held handed reads sends \<longleftrightarrow> held = None \<and>
    (\<exists>st. handed = [st] \<and> udp_session cr server_addr st reads = Return (sends, st'))"
| "udp_inv cr server_addr UdpReturned held handed reads sends \<longleftrightarrow> held = None \<and> handed = [] \<and> reads = [] \<and> sends = []"
| "udp_inv cr server_addr _ held handed reads sends \<longleftrightarrow>
    handed = (case held of None \<Rightarrow> [] | Some st \<Rightarrow> [st]) \<and> reads = [] \<and> sends = []"

definition echo_inv ::
    "('m, 'x) echo_msgs_scheme \<Rightarrow> crypto \<Rightarrow> echo_args \<Rightarrow> 'a \<Rightarrow> ('m, 'a) echo_label list \<Rightarrow> echo_program \<Rightarrow>
      (unit, 'm) ControlPacket list \<Rightarrow> CryptState list \<Rightarrow> echo_task \<Rightarrow> bool" where
  "echo_inv em cr args server_addr tr p out handed self \<longleftrightarrow>
    connect_run em echo_init (packets_read tr) = Return (out, handed, self) \<and>
    (crypt_state_sender self \<longleftrightarrow> handed = []) \<and>
    (if connecting p = Connecting then packets_read tr = [] \<and> packets_sent tr = []
     else packets_sent tr = login em (user_name args) # out) \<and>
    (\<forall>c. connecting p = Talking c \<longrightarrow> c = self) \<and>
    (handling p = UdpReturned \<longrightarrow> connecting p = HungUp) \<and>
    udp_inv cr server_addr (handling p) (oneshot p) handed (datagrams_read tr) (datagrams_sent tr)"

lemma echo_inv_control:
  assumes "echo_inv em cr args server_addr tr p out handed self" and "connecting p = Talking self"
    and "connect_step em self (Inr packet) sent = Return (out', handed', self')"
  shows "echo_inv em cr args server_addr (tr @ [ControlRead packet out'])
    (p\<lparr>connecting := Talking self', oneshot := (case handed' of [] \<Rightarrow> oneshot p | st # _ \<Rightarrow> Some st)\<rparr>)
    (out @ out') (handed @ handed') self'"
proof -
  have run: "connect_run em echo_init (packets_read tr @ [packet]) = Return (out @ out', handed @ handed', self')"
    using connect_run_snoc [OF _ assms(3)] assms(1) unfolding echo_inv_def by blast
  from assms(3) show ?thesis
  proof (cases rule: connect_step_cases)
    case (sync st)
    then show ?thesis using assms(1,2) run by (cases "handling p") (auto simp: echo_inv_def split: option.splits)
  qed (use assms(1,2) run in \<open>auto simp: echo_inv_def\<close>)
qed

lemma echo_inv_step:
  assumes step: "echo_step em cr env args server_addr p l p'" and inv: "echo_inv em cr args server_addr tr p out handed self"
  shows "\<exists>out handed self. echo_inv em cr args server_addr (tr @ [l]) p' out handed self"
  using step
proof (cases rule: echo_step.cases)
  case (logs_in sent out' self')
  then have "out' = [login em (user_name args)]" "self' = echo_init"
    by (auto simp: connect_start_def bind_outcome_eq_Return)
  then show ?thesis using logs_in inv
    by (intro exI [of _ out] exI [of _ handed] exI [of _ self]) (auto simp: echo_inv_def)
next
  case (control c packet sent out' handed' self')
  then have "c = self" using inv by (simp add: echo_inv_def)
  then show ?thesis using echo_inv_control [OF inv] control by blast
next
  case (udp_opens st sent ds st')
  then show ?thesis using inv udp_start_session [of cr st sent ds st' server_addr]
    by (intro exI [of _ out] exI [of _ handed] exI [of _ self]) (auto simp: echo_inv_def)
next
  case (udp_reads st buf sent ds st' src)
  then show ?thesis using inv udp_session_snoc [of cr server_addr _ "datagrams_read tr" "datagrams_sent tr" st buf sent ds st' src]
    by (intro exI [of _ out] exI [of _ handed] exI [of _ self]) (auto simp: echo_inv_def)
qed (use inv in \<open>(intro exI [of _ out] exI [of _ handed] exI [of _ self], auto simp: echo_inv_def)\<close>)

lemma echo_inv_run:
  assumes "echo_run em cr env args server_addr tr p"
  shows "\<exists>out handed self. echo_inv em cr args server_addr tr p out handed self"
  using assms
proof (induction rule: echo_run.induct)
  case start
  have "echo_inv em cr args server_addr [] echo_start [] [] echo_init"
    by (simp add: echo_inv_def echo_start_def) (simp add: echo_init_def)
  then show ?case by blast
next
  case (step tr p l p')
  then obtain out handed self where "echo_inv em cr args server_addr tr p out handed self" by blast
  from echo_inv_step [OF step.hyps(2) this] show ?case .
qed

section \<open>Which keys, and to whom\<close>

lemma handed_state:
  assumes "connect_run em echo_init packets = Return (out, [st], self)"
  shows "\<exists>pre msg mid m after. packets = pre @ CryptSetup msg # mid @ ServerSync m # after \<and>
    list_all (\<lambda>p. \<not> is_sync p) (pre @ mid) \<and> list_all (\<lambda>p. \<not> is_setup p) mid \<and> st = state_of em msg"
proof -
  have "\<not> list_all (\<lambda>p. \<not> is_sync p) packets" using connect_run_before [OF assms] by blast
  then obtain before packet after where "packets = before @ packet # after" "is_sync packet" "\<forall>p \<in> set before. \<not> is_sync p"
    using split_list_first_prop [of packets is_sync] by (auto simp: list_all_iff)
  moreover from \<open>is_sync packet\<close> obtain m where "packet = ServerSync m" by (cases packet) auto
  ultimately have packets: "packets = before @ ServerSync m # after" "list_all (\<lambda>p. \<not> is_sync p) before"
    by (simp_all add: list_all_iff)
  from echo_hands_over_once [OF assms [unfolded packets(1)] packets(2)] obtain pre msg mid where
    "before = pre @ CryptSetup msg # mid" "list_all (\<lambda>p. \<not> is_setup p) mid" "st = state_of em msg" by auto
  with packets show ?thesis
    by (intro exI [of _ pre] exI [of _ msg] exI [of _ mid] exI [of _ m] exI [of _ after]) simp
qed

lemma nothing_handed:
  assumes "connect_run em echo_init packets = Return (out, [], self)"
  shows "list_all (\<lambda>p. \<not> is_sync p) packets"
proof (rule ccontr)
  assume "\<not> list_all (\<lambda>p. \<not> is_sync p) packets"
  then obtain before packet after where "packets = before @ packet # after" "is_sync packet" "\<forall>p \<in> set before. \<not> is_sync p"
    using split_list_first_prop [of packets is_sync] by (auto simp: list_all_iff)
  moreover from \<open>is_sync packet\<close> obtain m where "packet = ServerSync m" by (cases packet) auto
  ultimately show False using echo_hands_over_once [of em before m after out "[]" self] assms by (simp add: list_all_iff)
qed

lemma udp_step_one:
  assumes "udp_step cr st buf (Inr ()) = Return (ds, st')"
  shows "ds = [] \<or> (\<exists>d. ds = [d])"
proof -
  obtain x st1 rest where dec: "crypt_decode cr Clientbound st buf = Return (x, st1, rest)"
    using assms by (auto simp: udp_step_def bind_outcome_eq_Return)
  show ?thesis
  proof (cases "\<exists>target s seq_num payload pos. x = Inr (Some (Audio target s seq_num payload pos))")
    case True
    then show ?thesis using assms dec by (auto simp: udp_step_def bind_outcome_eq_Return)
  next
    case False
    then show ?thesis using assms dec by (simp add: udp_step_def split: sum.splits option.splits VoicePacket.splits)
  qed
qed

lemma answers_to_sources: "answers cr st reads = Return (out, st') \<Longrightarrow> subseq (map snd out) (map snd reads)"
proof (induction cr st reads arbitrary: out rule: answers.induct)
  case (2 cr st buf src rest)
  then obtain ds st1 out1 where 1: "udp_step cr st buf (Inr ()) = Return (ds, st1)"
    "answers cr st1 rest = Return (out1, st')" "out = map (\<lambda>d. (d, src)) ds @ out1"
    by (auto simp: bind_outcome_eq_Return)
  then show ?case using "2.IH" [OF 1(1) refl 1(2)] udp_step_one [OF 1(1)] by auto
qed simp

lemma udp_session_to_sources:
  "udp_session cr server_addr st reads = Return (out, st') \<Longrightarrow> subseq (map snd out) (server_addr # map snd reads)"
  by (auto simp: udp_session_def bind_outcome_eq_Return answers_to_sources)

section \<open>Properties\<close>

text \<open>
  C23. The example program, in every interleaving of its two parts: on the control channel it sends the login and then what \<open>connect\<close> answers
  to the packets read; and it has no datagram in or out before the server has sent a \<open>CryptSetup\<close> and then a first \<open>ServerSync\<close>. From then on the
  datagrams are a function of those received, encrypted with the keys of the last \<open>CryptSetup\<close> before that \<open>ServerSync\<close>, whatever
  comes on the control channel later; the first one goes to the server, and the others, in order, to where a received one came
  from, at most one to each. It returns only if the server never sent a \<open>ServerSync\<close>.
\<close>

theorem echo_program_traffic:
  assumes "echo_run em cr env args server_addr tr p"
  shows "(\<exists>out handed self. connect_run em echo_init (packets_read tr) = Return (out, handed, self) \<and>
      packets_sent tr = (if connecting p = Connecting then [] else login em (user_name args) # out)) \<and>
    (datagrams_read tr = [] \<and> datagrams_sent tr = [] \<or>
     (\<exists>pre msg mid m after st. packets_read tr = pre @ CryptSetup msg # mid @ ServerSync m # after \<and>
        list_all (\<lambda>p. \<not> is_sync p) (pre @ mid) \<and> list_all (\<lambda>p. \<not> is_setup p) mid \<and>
        udp_session cr server_addr (new_from (get_key em msg) (get_client_nonce em msg) (get_server_nonce em msg))
          (datagrams_read tr) = Return (datagrams_sent tr, st) \<and>
        subseq (map snd (datagrams_sent tr)) (server_addr # map snd (datagrams_read tr)))) \<and>
    (echo_finished p \<longrightarrow> list_all (\<lambda>p. \<not> is_sync p) (packets_read tr) \<and> datagrams_sent tr = [])"
proof -
  obtain out handed self where inv: "echo_inv em cr args server_addr tr p out handed self"
    using echo_inv_run [OF assms] by blast
  then have run: "connect_run em echo_init (packets_read tr) = Return (out, handed, self)" by (simp add: echo_inv_def)
  have udp: "udp_inv cr server_addr (handling p) (oneshot p) handed (datagrams_read tr) (datagrams_sent tr)"
    using inv by (simp add: echo_inv_def)
  have "packets_sent tr = (if connecting p = Connecting then [] else login em (user_name args) # out)"
    using inv by (simp add: echo_inv_def)
  moreover have "(\<exists>pre msg mid m after st. packets_read tr = pre @ CryptSetup msg # mid @ ServerSync m # after \<and>
        list_all (\<lambda>p. \<not> is_sync p) (pre @ mid) \<and> list_all (\<lambda>p. \<not> is_setup p) mid \<and>
        udp_session cr server_addr (state_of em msg) (datagrams_read tr) = Return (datagrams_sent tr, st) \<and>
        subseq (map snd (datagrams_sent tr)) (server_addr # map snd (datagrams_read tr)))"
    if ready: "handling p = UdpReady st" for st
  proof -
    from udp ready obtain st0 where "handed = [st0]"
      and session: "udp_session cr server_addr st0 (datagrams_read tr) = Return (datagrams_sent tr, st)" by auto
    with handed_state run obtain pre msg mid m after where
      "packets_read tr = pre @ CryptSetup msg # mid @ ServerSync m # after" "list_all (\<lambda>p. \<not> is_sync p) (pre @ mid)"
      "list_all (\<lambda>p. \<not> is_setup p) mid" "st0 = state_of em msg" by blast
    with session udp_session_to_sources [OF session] show ?thesis by blast
  qed
  moreover have "datagrams_read tr = [] \<and> datagrams_sent tr = []" if "\<nexists>st. handling p = UdpReady st"
    using udp that by (cases "handling p") auto
  moreover have "handed = [] \<and> datagrams_sent tr = []" if "echo_finished p" using udp that by (simp add: echo_finished_def)
  ultimately show ?thesis using run nothing_handed by blast
qed

text \<open>The example logs in at a server whose messages are triples, and opens the voice channel.\<close>

definition demo_env :: "(nat, unit, unit) echo_env" where
  "demo_env = \<lparr>parse_args_or_exit = (\<lambda>options args. Some (args\<lparr>server_host := ''localhost''\<rparr>)),
     to_socket_addrs = (\<lambda>host port. Inr [unat port]), tcp_connect = (\<lambda>a. Inr ()), tls_build = (\<lambda>b. Inr ()),
     tls_connect = (\<lambda>c h s. Inr ()), udp_bind = Inr ()\<rparr>"

abbreviation demo_args :: echo_args where
  "demo_args \<equiv> echo_defaults\<lparr>server_host := ''localhost''\<rparr>"

lemma echo_run_step:
  "echo_run em cr env args server_addr tr p \<Longrightarrow> echo_step em cr env args server_addr p l p' \<Longrightarrow> tr' = tr @ [l] \<Longrightarrow> p'' = p' \<Longrightarrow>
    echo_run em cr env args server_addr tr' p''"
  by (simp add: echo_run.step)

lemma demo_opens:
  "\<exists>d p. echo_run triple_echo xor_crypto demo_env demo_args 64738
    [LoggedIn [login triple_echo ''EchoBot''], ControlRead (CryptSetup demo_setup) [], ControlRead (ServerSync demo_setup) [], Hidden,
     UdpOpened [(d, 64738)]] p"
proof -
  let ?run = "echo_run triple_echo xor_crypto demo_env demo_args 64738"
  let ?st = "state_of triple_echo demo_setup"
  obtain st d where open_udp: "udp_start xor_crypto (Some ?st) (Inr ()) = Return ([d], Some st)"
    using sb.datagram_between [OF xor_crypto_ok in_step_sym [OF setup_in_step [OF test_peer_simps(1)]], of dummy_packet "[]"]
    by (auto simp: udp_start_def demo_setup_simps dummy_packet_def)
  have len: "length (get_decrypt_nonce test_peer) = BLOCK_SIZE" "length (get_encrypt_nonce test_peer) = BLOCK_SIZE"
    by (simp_all add: get_decrypt_nonce_def get_encrypt_nonce_def le_bytes_def)
  have "echo_main demo_env = Return (Some (demo_args, 64738))"
    by (simp add: echo_main_def demo_env_def expect_result_def expect_option_def echo_defaults_def)
  then have "?run [] echo_start" by (rule echo_run.start)
  then have "?run [LoggedIn [login triple_echo ''EchoBot'']] (echo_start\<lparr>connecting := Talking echo_init\<rparr>)"
    by (rule echo_run_step [OF _ echo_step.logs_in [where sent = "Inr ()"]])
      (simp_all add: connect_start_def demo_env_def expect_result_def, simp_all add: echo_start_def echo_defaults_def)
  then have "?run [LoggedIn [login triple_echo ''EchoBot''], ControlRead (CryptSetup demo_setup) []]
      (echo_start\<lparr>connecting := Talking (echo_init\<lparr>crypt_state := Some ?st\<rparr>)\<rparr>)"
    by (rule echo_run_step [OF _ echo_step.control [where sent = "Inr ()" and handed = "[]"]])
      (simp_all add: connect_step_def expect_array_def demo_setup_simps test_peer_simps len, simp_all add: echo_start_def)
  then have "?run [LoggedIn [login triple_echo ''EchoBot''], ControlRead (CryptSetup demo_setup) [], ControlRead (ServerSync demo_setup) []]
      (echo_start\<lparr>connecting := Talking (echo_init\<lparr>crypt_state := None, crypt_state_sender := False\<rparr>), oneshot := Some ?st\<rparr>)"
    by (rule echo_run_step [OF _ echo_step.control [where sent = "Inr ()" and handed = "[?st]"]])
      (simp_all add: connect_step_sync, simp_all add: echo_start_def echo_init_def)
  then have "?run [LoggedIn [login triple_echo ''EchoBot''], ControlRead (CryptSetup demo_setup) [], ControlRead (ServerSync demo_setup) [], Hidden]
      (echo_start\<lparr>connecting := Talking (echo_init\<lparr>crypt_state := None, crypt_state_sender := False\<rparr>), oneshot := Some ?st,
        handling := AwaitingState\<rparr>)"
    by (rule echo_run_step [OF _ echo_step.binds]) (simp_all add: echo_start_def demo_env_def bind_udp_def expect_result_def)
  then have "?run [LoggedIn [login triple_echo ''EchoBot''], ControlRead (CryptSetup demo_setup) [], ControlRead (ServerSync demo_setup) [], Hidden,
      UdpOpened [(d, 64738)]] (echo_start\<lparr>connecting := Talking (echo_init\<lparr>crypt_state := None, crypt_state_sender := False\<rparr>),
        handling := UdpReady st\<rparr>)"
    by (rule echo_run_step [OF _ echo_step.udp_opens [OF _ _ _ open_udp]]) (simp_all add: echo_start_def)
  then show ?thesis by blast
qed

theorem echo_program_traffic_witness:
  "\<exists>tr p d st. echo_run triple_echo xor_crypto demo_env demo_args 64738 tr p \<and> datagrams_sent tr = [(d, 64738)] \<and>
    udp_session xor_crypto (64738 :: nat) (new_from (key test_peer) (get_decrypt_nonce test_peer) (get_encrypt_nonce test_peer)) []
      = Return ([(d, 64738)], st)"
proof -
  obtain d p where run: "echo_run triple_echo xor_crypto demo_env demo_args 64738
    [LoggedIn [login triple_echo ''EchoBot''], ControlRead (CryptSetup demo_setup) [], ControlRead (ServerSync demo_setup) [], Hidden,
     UdpOpened [(d, 64738)]] p" (is "echo_run _ _ _ _ _ ?tr p") using demo_opens by blast
  have tr: "datagrams_sent ?tr = [(d, 64738)]" "datagrams_read ?tr = []"
    "packets_read ?tr = [CryptSetup demo_setup, ServerSync demo_setup]"
    by (simp_all add: datagrams_sent_def datagrams_read_def packets_read_def)
  from echo_program_traffic [OF run, unfolded tr]
  have "\<exists>pre msg mid m after st. ([CryptSetup demo_setup, ServerSync demo_setup] :: (u32, _) ControlPacket list) = pre @ CryptSetup msg # mid @ ServerSync m # after \<and>
    udp_session xor_crypto (64738 :: nat) (state_of triple_echo msg) [] = Return ([(d, 64738)], st)"
    by (elim conjE disjE) (simp, blast)
  then show ?thesis using run tr by (auto simp: Cons_eq_append_conv demo_setup_simps)
qed

end
