(* ===== verification/Build_Script.thy ===== *)
theory Build_Script
  imports Prelude
begin

text \<open>
  The build script \<open>mumble-protocol/build.rs\<close>: it has the messages generated from their \<open>.proto\<close> file into a directory \<open>proto\<close> of the
  build's output, and writes the module that includes them. What the environment, the file system and the generator
  answer is the record \<open>build_env\<close>; the result is what has been done, in order, or a panic. Paths are strings: the one that \<open>to_str\<close> is applied to is
  a \<open>String\<close> of the environment with a literal joined to it, which is valid UTF-8, so that its \<open>unwrap\<close> cannot fail and is left out. \<open>webrtc_extensions\<close> is the feature of that name.
\<close>

section \<open>The code\<close>

text \<open>\<open>Path::join\<close>, on paths with \<open>/\<close>.\<close>

definition path_join :: "string \<Rightarrow> string \<Rightarrow> string" where
  "path_join p q =
    (if q \<noteq> [] \<and> hd q = CHR ''/'' then q
     else if p = [] \<or> last p = CHR ''/'' then p @ q
     else p @ ''/'' @ q)"

record codegen_args =
  gen_out_dir :: string
  gen_input :: "string list"
  gen_includes :: "string list"
  generate_accessors :: "bool option"

record build_env =
  env_var :: "string \<Rightarrow> string option"
  create_dir_all :: "string \<Rightarrow> io_error + unit"
  codegen_run :: "codegen_args \<Rightarrow> io_error + unit"
  file_create :: "string \<Rightarrow> io_error + unit"
  write_all :: "string \<Rightarrow> string \<Rightarrow> io_error + unit"

datatype build_effect = DirCreated string | MessagesGenerated codegen_args | FileWritten string string

definition build_main :: "bool \<Rightarrow> build_env \<Rightarrow> build_effect list outcome" where
  "build_main webrtc_extensions env =
    bind_outcome (expect_option (env_var env ''OUT_DIR'') ''called Result::unwrap() on an Err value'') (\<lambda>dir.
    let out_dir = path_join dir ''proto'' in
    bind_outcome (expect_result (create_dir_all env out_dir) ''Failed to create $OUT_DIR/proto directory'') (\<lambda>_.
    let args = \<lparr>gen_out_dir = out_dir,
                gen_input = [if webrtc_extensions then ''protos/MumbleWithWebRTC.proto'' else ''protos/Mumble.proto''],
                gen_includes = [''protos''], generate_accessors = Some True\<rparr> in
    bind_outcome (expect_result (codegen_run env args) ''protoc'') (\<lambda>_.
    let content = (if webrtc_extensions then ''mod MumbleWithWebRTC; pub use MumbleWithWebRTC::*;''
                   else ''mod Mumble; pub use Mumble::*;'');
        path = path_join out_dir ''mod.rs'' in
    bind_outcome (expect_result (file_create env path) ''called Result::unwrap() on an Err value'') (\<lambda>_.
    bind_outcome (expect_result (write_all env path content) ''Failed to write proto/mod.rs'') (\<lambda>_.
    Return [DirCreated out_dir, MessagesGenerated args, FileWritten path content])))))"

section \<open>The module fits the generated file\<close>

text \<open>The generator names a module after the stem of its input: what is between the last \<open>/\<close> and the last dot.\<close>

definition file_stem :: "string \<Rightarrow> string" where
  "file_stem path =
    (let name = rev (takeWhile (\<lambda>c. c \<noteq> CHR ''/'') (rev path));
         rest = dropWhile (\<lambda>c. c \<noteq> CHR ''.'') (rev name)
     in if rest = [] then name else rev (tl rest))"

definition module_of :: "string \<Rightarrow> string" where
  "module_of stem = ''mod '' @ stem @ ''; pub use '' @ stem @ ''::*;''"

lemma expect_Return: "expect_result r msg = Return x \<longleftrightarrow> r = Inr x" "expect_option v msg = Return y \<longleftrightarrow> v = Some y"
  by (simp_all add: expect_result_def expect_option_def split: sum.split option.split)

text \<open>
  Whatever the features, a build that succeeds has generated one input, with accessors, and written a module file beside the result that
  includes and exports the module the generator makes of that input.
\<close>

theorem build_module_matches:
  assumes "build_main webrtc_extensions env = Return effects"
  shows "\<exists>dir input. env_var env ''OUT_DIR'' = Some dir \<and> effects =
    [DirCreated (path_join dir ''proto''),
     MessagesGenerated \<lparr>gen_out_dir = path_join dir ''proto'', gen_input = [input], gen_includes = [''protos''],
       generate_accessors = Some True\<rparr>,
     FileWritten (path_join (path_join dir ''proto'') ''mod.rs'') (module_of (file_stem input))]"
proof -
  define input where "input = (if webrtc_extensions then ''protos/MumbleWithWebRTC.proto'' else ''protos/Mumble.proto'')"
  have "module_of (file_stem input) = (if webrtc_extensions then ''mod MumbleWithWebRTC; pub use MumbleWithWebRTC::*;''
      else ''mod Mumble; pub use Mumble::*;'')"
    by (simp add: input_def module_of_def file_stem_def)
  with assms show ?thesis
    by (intro exI [of _ "the (env_var env ''OUT_DIR'')"] exI [of _ input])
      (auto simp: build_main_def bind_outcome_eq_Return expect_Return Let_def input_def)
qed

end
