(* ===== verification/Spec2Isabelle.thy ===== *)
theory Spec2Isabelle
  imports Ping Crypt_Tests Server_Order Client_Playback Programs Echo_Program Build_Script
begin

text \<open>
  Verification of the \<open>atof\<close> repository: a voice chat in Rust that speaks the Mumble protocol. It has
  three crates, under \<open>src/\<close>: \<open>mumble-protocol\<close> (the packets, their codecs and the cryptography of the
  voice channel), \<open>stammer\<close> (the server) and \<open>stutter\<close> (the client).

  \<^bold>\<open>How the parts fit together.\<close> A client records samples (\<open>stutter\<close>, \<open>task_audio_io\<close>), batches
  them into Opus packets (\<open>task_audio_codec\<close>) and sends these, as tunnelled voice packets on the control
  channel, to the server (\<open>task_connection\<close>), through \<open>ClientControlCodec\<close>. On the server
  (\<open>stammer\<close>) the accept task numbers connections and starts a session task for each; session
  tasks exchange versions with their client, register with the control task, and forward packets:
  voice and text to the routing task, pings back to the client, the rest to the control task. The control
  task owns the routing table, enrols a session when it authenticates, and sends the routing task a
  copy of the table after every change. The routing task sends voice to the other members of the
  speaker's room and text to the sessions and rooms named, through the channels of
  their session tasks. Receiving clients decode the packets into a ring buffer from which the
  speakers are fed. \<open>mumble-protocol\<close> also has the UDP side of the protocol (OCB2-AES128
  \<open>CryptState\<close>, ping packets), which the two programs do not use yet.

  \<^bold>\<open>Theories.\<close>
    \<^item> \<open>Prelude\<close>: the integer types at their width, \<open>io::Error\<close>, \<open>Result\<close> and the \<open>?\<close> operator
      (\<open>bind_result\<close>), panics (\<open>outcome\<close>: \<open>Return\<close> or \<open>Panic\<close>), byte order conversions, slices.
    \<^item> \<open>Codec\<close>: the interfaces of codecs, as locales. \<open>prefix_codec\<close> is an encoder with a decoder
      that leaves the rest of its input (interpreted by the varints, the session ids of voice packets, and the
      raw frames); \<open>byte_sink\<close> a writer that never fails (\<open>BufMut\<close>); \<open>stream_decoder\<close> the contract of a
      \<open>tokio_util\<close> \<open>Decoder\<close> fed in chunks (interpreted by the raw and the control codec), under which
      what is decoded does not depend on how the stream was cut.
    \<^item> \<open>Varint\<close>: \<open>mumble-protocol/src/varint.rs\<close>. Round trip for all 64-bit values, truncated
      input, and what else the reader accepts.
    \<^item> \<open>Ping\<close>: \<open>mumble-protocol/src/ping.rs\<close>. Each codec is a bijection between packets and the byte
      strings it accepts.
    \<^item> \<open>Voice\<close>: \<open>mumble-protocol/src/voice.rs\<close>, with the trait \<open>VoicePacketDst\<close> as the locale
      \<open>voice_dst\<close>, interpreted by \<open>Serverbound\<close> (\<open>sb\<close>) and \<open>Clientbound\<close> (\<open>cb\<close>). Round trip of well-formed packets
      (\<open>wf_voice\<close>), totality of the decoder, what a relay changes, and what happens to packets that are
      not well-formed.
    \<^item> \<open>Control\<close>: \<open>mumble-protocol/src/control.rs\<close>. Framing, packet ids, conversions between raw
      and typed packets; the whole codec over a byte stream in arbitrary chunks.
    \<^item> \<open>Ocb\<close> and \<open>Crypt\<close>: \<open>mumble-protocol/src/crypt.rs\<close>. The mode of operation and its
      doubling; then \<open>CryptState\<close> over whole runs: delivery, no replay, statistics, late packets,
      resynchronisation.
    \<^item> \<open>Aes\<close> and \<open>Crypt_Tests\<close>: AES-128 by its standard, FIPS-197, as an instance of the parameter \<open>crypto\<close>; and with it the
      test module of \<open>crypt.rs\<close>, evaluated: the model gives the published OCB test vectors.
    \<^item> \<open>Routing_Table\<close>: \<open>stammer/src/routing_table.rs\<close>, with its invariant \<open>wf_table\<close>, its refinement of the
      placement of sessions in rooms for any sequence of its operations, and the locale \<open>session_directory\<close> on which the tasks rely.
    \<^item> \<open>Task_Routing\<close>, \<open>Task_Control\<close>, \<open>Task_Session\<close>: the loops of \<open>stammer/src/task_routing.rs\<close>,
      \<open>task_control.rs\<close>, and \<open>task_session.rs\<close> with \<open>task_accept.rs\<close>, each an iteration as a function of the
      state and the event or message it takes, and runs of it.
    \<^item> \<open>Server\<close>: \<open>run_stammer_task\<close> of \<open>stammer/src/lib.rs\<close>, the tasks and channels together as a step relation;
      every interleaving is a run, and every panic of a task a step. The invariants of runs: the tables of the tasks agree, what
      clients receive was sent by the client it names, and only a few client packets, or the end of the listener, crash the server.
    \<^item> \<open>Server_Order\<close>: the audio of each speaker reaches each client in the order it was sent, in every interleaving; how
      a client is admitted, and what one says carried to another, as runs.
    \<^item> \<open>Server_Shutdown\<close>: the order in which the tasks of the server end; from any state without a pending
      version exchange it can be stopped gracefully.
    \<^item> \<open>Client_Connection\<close>, \<open>Client_Audio\<close>: the tasks of \<open>stutter\<close>, \<open>task_connection.rs\<close>,
      \<open>task_audio_codec.rs\<close>, \<open>task_audio_io.rs\<close>: handshake against the server's, keepalive against the server's
      timeout, batching, playback.
    \<^item> \<open>Client\<close>: \<open>run_stutter_task\<close> of \<open>stutter/src/lib.rs\<close>, the three tasks, their channels and the callbacks of the audio
      devices as a step relation, with the opening of the devices. What the client sends is what was recorded, in every
      interleaving; what makes it panic, the error callback of the speakers included; and that it never ends while its audio devices work.
    \<^item> \<open>Client_Playback\<close>: the way back: what the speakers play is what the server sent, decoded, in order, with silence
      in between, in every interleaving with the callbacks.
    \<^item> \<open>Config\<close>: the configuration from the environment (\<open>from_env\<close> of both programs), with the parsing of
      numbers by the standard library.
    \<^item> \<open>Programs\<close>: the \<open>main.rs\<close> of both programs: what is run when, the server with its signal handler as a step relation
      around that of \<open>Server\<close>, what stops it, its shutdown on ctrl-c, and the session of the two programs started alike.
    \<^item> \<open>Echo_Client\<close>: the example \<open>mumble-protocol/examples/echo_client.rs\<close>, a client of the UDP side: keys from
      the control channel, and every voice packet back to the server, through \<open>CryptState\<close> at both ends.
    \<^item> \<open>Echo_Program\<close>: the \<open>main\<close> of the example: its options, and its two futures with the oneshot channel between them as a step
      relation, which refines the two run one after the other.
    \<^item> \<open>Build_Script\<close>: \<open>mumble-protocol/build.rs\<close>, up to the code generator, which is a parameter.
    \<^item> This theory: the path of the voice, from the microphone to the server (\<open>recording_reaches_server\<close>), of one packet from one
      client to another (\<open>voice_end_to_end\<close>), and from all microphones to the speakers in runs of a server with its clients
      (\<open>microphones_to_speakers\<close>), over all of the above.

  \<^bold>\<open>Conventions.\<close> A Rust struct is a record, an enum a datatype; \<open>&mut\<close> arguments are passed and returned;
  \<open>Result\<close> is a sum with the error left; a panic is \<open>Panic\<close>. \<open>async\<close> code is split at its awaits: the results of
  awaits are arguments (an event of \<open>select!\<close>, the result of a send). Logging is left out.
  Code outside the repository is a parameter, with a named predicate for what is relied on: generated
  protobuf messages (\<open>msgs\<close>, \<open>protobuf_ok\<close>; \<open>server_msgs\<close>, \<open>text_ok\<close>; \<open>client_msgs\<close>), AES of OpenSSL
  (\<open>crypto\<close>, \<open>aes_ok\<close>; \<open>aes128\<close> for the tests), iteration order of hash sets (\<open>iter\<close>, \<open>iter_ok\<close>), ring buffers (\<open>ring_ops\<close>,
  \<open>ring_ok\<close>), Opus (\<open>opus_ops\<close>, \<open>encoder_ok\<close>, \<open>encoder_bounded\<close>), the audio host (\<open>host\<close>), the messages of the example
  (\<open>echo_msgs\<close>), what argument parser, resolver, sockets and TLS answer it (\<open>echo_env\<close>), and the
  file system and the generator the build script (\<open>build_env\<close>). The witnesses instantiate each of them. Times are natural numbers, of nanoseconds where they
  come from the configuration.

  \<^bold>\<open>Bounds and fuel.\<close> The loops of codecs are total functions. The loop that
  drains the recording ring takes the ring's length as fuel, and \<open>audio_batching\<close> shows that this is always enough;
  the draining of a stream decoder takes the length of its buffer plus one, enough as every item consumes bytes
  (\<open>drain_all\<close>). \<open>crypt_no_replay\<close> is about runs of fewer than \<open>2 ^ 120\<close> packets, as the nonce has 128 bits;
  the theorems on the server's tables and relaying ask for at most \<open>2 ^ 32\<close> connections, as session ids then
  repeat (\<open>session_ids_unique\<close>). \<open>client_plays_received\<close> promises every sample for up to two seconds of sound, 96000 samples, the
  size of the ring of the speakers; beyond that the ring may overflow and drop. Recorded buffers are at most 95041 samples long, so
  that a buffer and the rest of a frame fit into the ring of the codec task.

  \<^bold>\<open>The stack.\<close> \<open>read_varint\<close> calls itself for every prefix of a negated value, without a limit, and is total here. What that
  costs is \<open>varint_calls\<close>, and \<open>serverbound_nesting\<close> and \<open>clientbound_nesting\<close> for a voice packet; a step of the server and of the client
  lets a packet that nests deeper than some positive number of frames, which stands for the stack of the thread, take the process down.

  \<^bold>\<open>Not modelled.\<close> The generated messages, and the generator; the help texts of the example's options; the three WebRTC packets, which
  are behind a feature that is off by default. The statistics of \<open>CryptState\<close> wrap, as in a build without overflow checks.
\<close>

section \<open>From the microphone to the server\<close>

text \<open>All packets a client sends, and the encoder's promise not to write past its output buffer of 1024 bytes.\<close>

fun label_packets :: "('m, 'f) client_label \<Rightarrow> (unit, 'm) ControlPacket list" where
  "label_packets (SentToServer ps) = ps"
| "label_packets _ = []"

definition sent_packets :: "('m, 'f) client_label list \<Rightarrow> (unit, 'm) ControlPacket list" where
  "sent_packets tr = concat (map label_packets tr)"

definition encoder_bounded :: "('e, 'd, 'f) opus_ops \<Rightarrow> bool" where
  "encoder_bounded op \<longleftrightarrow> (\<forall>e b out. fst (encode_float op e b 1024) = Inr out \<longrightarrow> length out \<le> 1024)"

lemma sent_voice_sent: "sent_voice tr = concat (map packet_voice (sent_packets tr))"
proof (induction tr)
  case (Cons l tr)
  then show ?case by (cases l) (simp_all add: sent_voice_def sent_packets_def)
qed (simp add: sent_voice_def sent_packets_def)

lemma encode_all_bounded:
  assumes "encoder_bounded op" and "out \<in> set (fst (encode_all op e bs))"
  shows "length out \<le> 1024"
  using assms(2)
proof (induction bs arbitrary: e)
  case (Cons b bs)
  obtain r e' where enc: "encode_float op e b 1024 = (r, e')" by fastforce
  show ?case
  proof (cases r)
    case (Inr out')
    have "length out' \<le> 1024" using assms(1) enc Inr unfolding encoder_bounded_def by (metis fst_conv)
    then show ?thesis using Cons.prems Cons.IH [of e'] enc Inr by (auto split: prod.splits)
  qed (use Cons.prems enc in simp)
qed simp

lemma bounded_voice_sendable:
  assumes "length out \<le> 1024"
  shows "sendable cm Serverbound (UDPTunnel (Audio 0 () 0 (Opus out False) None))"
    and "sendable cm Clientbound (UDPTunnel (Audio 0 q 0 (Opus out False) None))"
proof -
  have "\<not> bit (length out) 13"
    using assms by (simp add: bit_iff_odd)
  moreover have "length (sb.voice_bytes (Audio 0 () 0 (Opus out False) None)) \<le> 0x7fffff"
    "length (cb.voice_bytes (Audio 0 q 0 (Opus out False) None)) \<le> 0x7fffff"
    using assms length_varint_bytes(2) [of 0] length_varint_bytes(2) [of "of_nat (length out)"] length_varint_bytes(2) [of "ucast q"]
    unfolding sb.voice_bytes_def cb.voice_bytes_def payload_bytes_def by simp_all
  ultimately show "sendable cm Serverbound (UDPTunnel (Audio 0 () 0 (Opus out False) None))"
    and "sendable cm Clientbound (UDPTunnel (Audio 0 q 0 (Opus out False) None))"
    using assms by (simp_all add: sendable_def sb.raw_from_voice_eq cb.raw_from_voice_eq)
qed

text \<open>What a client says is the recording, and all of it can go over the wire.\<close>

lemma client_speech:
  assumes "ring_ok rg contents capacity" and "encoder_ok op"
    and "client_run cfg host cm rg op zero e d tr s" and "\<forall>b. Recorded b \<in> set tr \<longrightarrow> length b \<le> 95041"
  shows "prefix (concat (map packet_voice (sent_packets tr))) (voices op e (recorded tr))"
  using path_ok_run [OF assms] path_inv_prefix [OF assms(2), of e contents capacity tr s]
  by (auto simp: path_ok_def simp flip: sent_voice_sent split: if_splits)

lemma said_voice:
  assumes "encoder_bounded op" and "prefix (concat (map packet_voice ps)) (voices op e xs)" and "UDPTunnel v \<in> set ps"
  shows "\<exists>out. v = Audio 0 () 0 (Opus out False) None \<and> length out \<le> 1024"
proof -
  have "v \<in> set (concat (map packet_voice ps))" using assms(3) by force
  with set_mono_prefix [OF assms(2)] obtain out where
    "v = Audio 0 () 0 (Opus out False) None" "out \<in> set (fst (encode_all op e (chunks xs)))" by (auto simp: voices_def)
  then show ?thesis using encode_all_bounded [OF assms(1)] by blast
qed

lemma client_sends_sendable:
  assumes "encoder_bounded op" and "prefix (concat (map packet_voice ps)) (voices op e xs)"
    and "\<forall>p. p \<in> set ps \<and> packet_voice p = [] \<longrightarrow> sendable cm Serverbound p"
  shows "list_all (sendable cm Serverbound) ps"
  unfolding list_all_iff
proof
  fix p assume p: "p \<in> set ps"
  show "sendable cm Serverbound p"
  proof (cases "packet_voice p = []")
    case False
    then obtain v where "p = UDPTunnel v" by (cases p) auto
    with p said_voice [OF assms(1,2)] show ?thesis using bounded_voice_sendable(1) by blast
  qed (use assms(3) p in blast)
qed

text \<open>
  C3. What the server hears is what the microphone heard. In every run of a client, the bytes it sends, however the
  connection cuts them into chunks, are decoded by the server to exactly the packets the client has sent; and
  the voice among these is the beginning of the recorded stream, in frames, encoded, in order and without gap.
\<close>

theorem recording_reaches_server:
  assumes "ring_ok rg contents capacity" and "encoder_ok op" and "encoder_bounded op" and "protobuf_ok cm"
    and "client_run cfg host cm rg op zero e d tr s" and "\<forall>b. Recorded b \<in> set tr \<longrightarrow> length b \<le> 95041"
    and "\<forall>p. p \<in> set (sent_packets tr) \<and> packet_voice p = [] \<longrightarrow> sendable cm Serverbound p"
    and "control_encode_all cm Serverbound (sent_packets tr) [] = Return (concat pieces)" and "pieces \<noteq> []"
  shows "feed (control_frames cm Serverbound) [] pieces = Drained (sent_packets tr) [] \<and>
    prefix (concat (map packet_voice (sent_packets tr)))
      (map (\<lambda>out. Audio 0 () 0 (Opus out False) None) (fst (encode_all op e (chunks (recorded tr)))))"
proof -
  note run = assms(1,2,5,6)
  from sb.control_stream_sent [OF assms(4) client_sends_sendable [OF assms(3) client_speech [OF run] assms(7)] assms(8,9)]
  show ?thesis using client_speech [OF run] by (simp add: voices_def)
qed

text \<open>Messages that are their own bytes, with the accessors of the client.\<close>

definition tagged_client :: "(PacketName \<times> bytes) client_msgs" where
  "tagged_client = server_msgs.extend (msgs.extend tagged_msgs (server_msgs.fields (\<lambda>m. []) (\<lambda>m. []) (\<lambda>m. 0) (\<lambda>m a. m)
       (PVersion, []) (\<lambda>(t, bs) v. (t, be_bytes 4 v))))
     (client_msgs.fields (PAuthenticate, []) (PPing, []) (\<lambda>(t, bs) v. (t, be_bytes 8 v)))"

lemma tagged_client_ok: "protobuf_ok tagged_client"
  by (auto simp: protobuf_ok_def tagged_client_def tagged_msgs_def msgs.defs server_msgs.defs client_msgs.defs split: prod.splits)

lemma tagged_sendable:
  "list_all (sendable tagged_client Serverbound) (demo_hello tagged_client @ [UDPTunnel demo_voice])"
  "list_all (sendable tagged_client Serverbound) (demo_hello tagged_client)"
  "list_all (sendable tagged_client Clientbound) [Version (server_version (server_msgs.truncate tagged_client))]"
  "list_all (sendable tagged_client Clientbound) [Version (server_version (server_msgs.truncate tagged_client)), UDPTunnel demo_heard]"
  using bounded_voice_sendable(1) [of "[7]" tagged_client] bounded_voice_sendable(2) [of "[7]" tagged_client 0]
  by (simp_all add: sendable_def tagged_client_def tagged_msgs_def msgs.defs server_msgs.defs client_msgs.defs
      client_version_def server_version_def raw_from_msg_def)

lemma counting_opus_bounded: "encoder_bounded counting_opus"
  by (simp add: encoder_bounded_def counting_opus_def)

theorem recording_reaches_server_witness:
  "\<exists>s pieces. demo_client_run demo_host tagged_client (demo_trace tagged_client) s \<and>
    feed (control_frames tagged_client Serverbound) [] pieces
      = Drained (demo_hello tagged_client @ [UDPTunnel demo_voice]) []"
proof -
  obtain s where run: "demo_client_run demo_host tagged_client (demo_trace tagged_client) s"
    using demo_speaks by blast
  have sent: "sent_packets (demo_trace tagged_client) = demo_hello tagged_client @ [UDPTunnel demo_voice]" by (simp add: sent_packets_def)
  have short: "\<forall>b. Recorded b \<in> set (demo_trace tagged_client) \<longrightarrow> length b \<le> 95041" by (auto simp: demo_data_simps)
  note sendable = tagged_sendable(1) [folded sent]
  obtain bs where "control_encode_all tagged_client Serverbound (sent_packets (demo_trace tagged_client)) [] = Return (concat [bs])"
    using sb.control_encode_all_append [OF tagged_client_ok sendable, of "[]"] by auto
  moreover have "\<forall>p. p \<in> set (sent_packets (demo_trace tagged_client)) \<and> packet_voice p = [] \<longrightarrow> sendable tagged_client Serverbound p"
    using sendable by (auto simp: list_all_iff)
  ultimately have "feed (control_frames tagged_client Serverbound) [] [bs] = Drained (sent_packets (demo_trace tagged_client)) []"
    using recording_reaches_server [OF list_ring_ok counting_opus_ok counting_opus_bounded tagged_client_ok run short] by blast
  with run show ?thesis unfolding sent by blast
qed

section \<open>From one client to another\<close>

text \<open>A voice packet in the tunnel, over the control channel in either direction.\<close>

context voice_dst
begin

lemma tunnel_over_wire:
  assumes "wf_voice v" and "voice_encode dst v [] = Return vb" and "length vb \<le> 0x7fffff"
  shows "\<exists>bs. control_encode pb dst (UDPTunnel v) [] = Return bs \<and>
    control_frames pb dst bs = (Inr (Some (UDPTunnel v)), [])"
proof -
  define raw where "raw = \<lparr>raw_id = 1, raw_bytes = voice_bytes v\<rparr>"
  have "vb = voice_bytes v" using assms(2) by (simp add: voice_encode_eq)
  then have "raw_decode (raw_encode raw [] @ []) = (Inr (Some raw), [])"
    using assms(3) by (intro raw_decode_encode) (simp add: raw_def)
  moreover have "control_try_from pb dst raw = Return (Inr (UDPTunnel v))"
    using assms(1) by (simp add: control_try_from_tunnel raw_def voice_try_from_voice_bytes)
  ultimately show ?thesis
    by (auto simp: control_encode_def raw_from_voice_eq control_frames_eq raw_def)
qed

end

text \<open>
  C2. End to end. A voice packet which the audio task of one client hands to its connection task is
  sent to the server as bytes from which the server decodes the same packet; its session task passes
  it to the routing task; and for every other session of the speaker's room the routing task sends
  that session's channel a packet that differs in nothing but the speaker's session id, whose bytes
  that session's client decodes to the same packet and hands to its own audio task.
\<close>

theorem voice_end_to_end:
  fixes payload seq_num pos s
  defines "v \<equiv> Audio 0 () seq_num payload pos" and "w \<equiv> Audio 0 s seq_num payload pos"
  assumes "wf_voice v" and "voice_encode Serverbound v [] = Return vb" and "length vb \<le> 0x7fffff"
    and "voice_encode Clientbound w [] = Return wb" and "length wb \<le> 0x7fffff"
    and "wf_table (routing_table r)" and "iter_ok iter" and "placement (routing_table r) s = Some room"
  shows "\<exists>bs ds bs'.
    connection_step cm (TaskNext (Some (VoiceMessage v)) (Inr ())) = Return ([ToServer (UDPTunnel v)], Continue) \<and>
    control_encode cm Serverbound (UDPTunnel v) [] = Return bs \<and>
    control_frames cm Serverbound bs = (Inr (Some (UDPTunnel v)), []) \<and>
    session_step cfg s self (now, ClientNext (Some (Inr (UDPTunnel v))) sent) = ([ToRouting (Voice s v)], Some self) \<and>
    routing_step iter cm r (Voice s v) = (ds, Return r) \<and>
    mset ds = {# (the (sender (routing_table r) q), UDPTunnel w).
      q \<in># mset_set {q. placement (routing_table r) q = Some room \<and> q \<noteq> s} #} \<and>
    control_encode cm Clientbound (UDPTunnel w) [] = Return bs' \<and>
    control_frames cm Clientbound bs' = (Inr (Some (UDPTunnel w)), []) \<and>
    connection_step cm (ServerNext (Some (Inr (UDPTunnel w)))) = Return ([ToCodec (Inbound w)], Continue)"
proof -
  have "wf_voice w" using assms(3) by (simp add: v_def w_def)
  then obtain bs bs' where "control_encode cm Serverbound (UDPTunnel v) [] = Return bs"
    "control_frames cm Serverbound bs = (Inr (Some (UDPTunnel v)), [])"
    "control_encode cm Clientbound (UDPTunnel w) [] = Return bs'"
    "control_frames cm Clientbound bs' = (Inr (Some (UDPTunnel w)), [])"
    using sb.tunnel_over_wire [OF assms(3-5), of cm] cb.tunnel_over_wire [OF _ assms(6,7), of cm] by blast
  moreover have "hash_iteration iter" using assms(9) by unfold_locales
  then obtain cs where "target_senders iter (routing_table r) s 0 = Return (Inr cs)"
    "mset cs = {# the (sender (routing_table r) q). q \<in># mset_set {q. placement (routing_table r) q = Some room \<and> q \<noteq> s} #}"
    using hash_iteration.target_senders_of_room [OF _ assms(8,10)] by blast
  ultimately show ?thesis
    by (auto simp: v_def w_def connection_step_def send_or_def session_step_client routing_step_def Let_def
        image_mset.compositionality comp_def)
qed

theorem voice_end_to_end_witness:
  "\<exists>ds bs'. routing_step sorted_list_of_set triple_client typed_routing (Voice 1 (Audio 0 () 7 (Opus [1, 2] True) None))
      = (ds, Return typed_routing) \<and>
    mset ds = {#(10, UDPTunnel (Audio 0 1 7 (Opus [1, 2] True) None))#} \<and>
    control_encode triple_client Clientbound (UDPTunnel (Audio 0 1 7 (Opus [1, 2] True) None)) [] = Return bs' \<and>
    control_frames triple_client Clientbound bs' = (Inr (Some (UDPTunnel (Audio 0 1 7 (Opus [1, 2] True) None))), [])"
proof -
  have e: "voice_encode Serverbound (Audio 0 () 7 (Opus [1, 2] True) None) [] = Return (sb.voice_bytes (Audio 0 () 7 (Opus [1, 2] True) None))"
    "voice_encode Clientbound (Audio 0 1 7 (Opus [1, 2] True) None) [] = Return (cb.voice_bytes (Audio 0 1 7 (Opus [1, 2] True) None))"
    by (simp_all add: sb.voice_encode_eq cb.voice_encode_eq)
  have l: "length (sb.voice_bytes (Audio 0 () 7 (Opus [1, 2] True) None)) \<le> 0x7fffff"
    "length (cb.voice_bytes (Audio 0 1 7 (Opus [1, 2] True) None)) \<le> 0x7fffff"
    unfolding sb.voice_bytes_def cb.voice_bytes_def payload_bytes_def
    by (simp_all add: varint_bytes_def varint_pos_bytes_def)
  have w: "wf_voice (Audio 0 () 7 (Opus [1, 2] True) None)" by (simp add: bit_iff_odd)
  have t: "wf_table (routing_table typed_routing)" "placement (routing_table typed_routing) 1 = Some 0"
    by (simp_all add: typed_table_ok(1) typed_placement)
  show ?thesis
    using voice_end_to_end [OF w e(1) l(1) e(2) l(2) t(1) sorted_iter.iter_ok t(2), of triple_client
        "\<lparr>bind_addr = [], session_timeout = 30\<rparr>" "\<lparr>last_ping = 0\<rparr>" 5 "Inr ()"]
    by (auto simp: typed_table_ok(2) typed_peers)
qed

section \<open>From all microphones to the speakers\<close>

text \<open>
  One server and its clients, each in a run of its own. What joins them is the connections: the bytes of the packets one side has
  sent, of which the other side has so far got the beginning, in whatever pieces, and has taken packets out of what these decode to.
\<close>

definition carried ::
    "('m, 'x) msgs_scheme \<Rightarrow> 's VoicePacketDst \<Rightarrow> ('s, 'm) ControlPacket list \<Rightarrow> ('s, 'm) ControlPacket list \<Rightarrow> bool" where
  "carried pb dst sent taken \<longleftrightarrow>
    (\<exists>pieces later items rest. control_encode_all pb dst sent [] = Return (concat pieces @ later) \<and>
       feed (control_frames pb dst) [] pieces = Drained items rest \<and> prefix taken items)"

context voice_dst
begin

lemma feed_prefix:
  assumes "drain_all (control_frames pb dst) (concat pieces @ later) = Drained sent []"
    and "feed (control_frames pb dst) [] pieces = Drained items rest"
  shows "prefix items sent"
proof (cases "pieces = []")
  case False
  then have "drain_all (control_frames pb dst) (concat pieces) = Drained items rest"
    using assms(2) control_stream.feed_chunks [OF False, of pb dst "[]"] by simp
  then have "prepend_items items (drain_all (control_frames pb dst) (rest @ later)) = Drained sent []"
    using assms(1) control_stream.drain_all_append [of pb dst "concat pieces" later] by simp
  then show ?thesis by (cases "drain_all (control_frames pb dst) (rest @ later)") auto
qed (use assms(2) in simp)

lemma carried_prefix:
  assumes "protobuf_ok pb" and "list_all (sendable pb dst) sent" and "carried pb dst sent taken"
  shows "prefix taken sent"
proof -
  obtain pieces later items rest where c: "control_encode_all pb dst sent [] = Return (concat pieces @ later)"
    "feed (control_frames pb dst) [] pieces = Drained items rest" "prefix taken items"
    using assms(3) unfolding carried_def by blast
  moreover have "drain_all (control_frames pb dst) (concat pieces @ later) = Drained sent []"
    using control_encode_all_append [OF assms(1,2), of "[]"] c(1) by auto
  ultimately show ?thesis using feed_prefix prefix_order.trans by blast
qed

lemma carried_all:
  assumes "protobuf_ok pb" and "list_all (sendable pb dst) sent"
  shows "carried pb dst sent sent"
proof -
  obtain bs where "control_encode_all pb dst sent [] = Return bs" "drain_all (control_frames pb dst) bs = Drained sent []"
    using control_encode_all_append [OF assms, of "[]"] by auto
  then show ?thesis unfolding carried_def
    by (intro exI [of _ "[bs]"] exI [of _ "[]"] exI [of _ sent]) simp
qed

end

text \<open>What the server has taken from a client, and what a client has taken from the server after its handshake.\<close>

fun label_taken :: "nat \<Rightarrow> 'm label \<Rightarrow> (unit, 'm) ControlPacket list" where
  "label_taken k (ClientSent n p) = (if n = k then [p] else [])"
| "label_taken k _ = []"

definition taken_from :: "nat \<Rightarrow> 'm label list \<Rightarrow> (unit, 'm) ControlPacket list" where
  "taken_from k tr = concat (map (label_taken k) tr)"

fun label_received_packet :: "('m, 'f) client_label \<Rightarrow> (u32, 'm) ControlPacket list" where
  "label_received_packet (FromServer p) = [p]"
| "label_received_packet _ = []"

definition received_packets :: "('m, 'f) client_label list \<Rightarrow> (u32, 'm) ControlPacket list" where
  "received_packets tr = concat (map label_received_packet tr)"

lemma taken_from_set: "p \<in> set (taken_from k tr) \<longleftrightarrow> ClientSent k p \<in> set tr"
proof -
  have "p \<in> set (label_taken k l) \<longleftrightarrow> l = ClientSent k p" for l by (cases l) auto
  then show ?thesis by (auto simp: taken_from_def)
qed

fun say_as :: "u32 \<Rightarrow> unit VoicePacket \<Rightarrow> u32 VoicePacket list" where
  "say_as q (Audio target u seq_num payload pos) = [Audio target q seq_num payload pos]"
| "say_as q (VoicePacket.Ping t) = []"

lemma spoken_as_voice: "spoken_as q p = concat (map (say_as q) (packet_voice p))"
  by (induction q p rule: spoken_as.induct) simp_all

lemma said_taken: "said k tr = concat (map (say_as (of_nat k)) (concat (map packet_voice (taken_from k tr))))"
proof (induction tr)
  case (Cons l tr)
  then show ?case by (cases l) (simp_all add: said_def taken_from_def spoken_as_voice)
qed (simp add: said_def taken_from_def)

lemma concat_map_prefix: "prefix xs ys \<Longrightarrow> prefix (concat (map f xs)) (concat (map f ys))"
  by (auto simp: prefix_def)

lemma say_voices: "concat (map (say_as q) (voices op e xs)) =
    map (\<lambda>out. Audio 0 q 0 (Opus out False) None) (fst (encode_all op e (chunks xs)))"
proof -
  have "concat (map (say_as q) (map (\<lambda>out. Audio 0 () 0 (Opus out False) None) outs)) =
    map (\<lambda>out. Audio 0 q 0 (Opus out False) None) outs" for outs
    by (induction outs) simp_all
  then show ?thesis by (simp add: voices_def)
qed

lemma received_voice_packets:
  fixes tr :: "('m, 'f) client_label list"
  shows "v \<in> set (received_voice tr) \<longleftrightarrow> UDPTunnel v \<in> set (received_packets tr)"
proof -
  have "v \<in> set (label_received l) \<longleftrightarrow> UDPTunnel v \<in> set (label_received_packet l)" for l :: "('m, 'f) client_label"
    by (induction l rule: label_received.induct) auto
  then show ?thesis by (simp add: received_voice_def received_packets_def)
qed

lemma written_voice:
  assumes "server_run cfg iter tm tr s" and "length (session_ids s) \<le> 2 ^ 32" and "UDPTunnel v \<in> set (sent_to s n)"
  shows "\<exists>k seq_num payload pos. k < length (session_ids s) \<and> k \<noteq> n \<and> v = Audio 0 (of_nat k) seq_num payload pos \<and>
    UDPTunnel (Audio 0 () seq_num payload pos) \<in> set (taken_from k tr)"
proof -
  have "written tm tr (length (session_ids s)) n (UDPTunnel v)"
    using relay_inv_run [OF assms(1,2)] assms(3) unfolding relay_inv_def Let_def list_all_iff by blast
  then show ?thesis by (auto simp: written_def relayed_def origin_def taken_from_set)
qed

lemma sent_to_sendable:
  assumes "server_run cfg iter tm tr s" and "length (session_ids s) \<le> 2 ^ 32" and "encoder_bounded op"
    and speech: "\<And>k. k < length (session_ids s) \<Longrightarrow> prefix (concat (map packet_voice (taken_from k tr))) (voices op e (xs k))"
    and "\<forall>p. p \<in> set (sent_to s n) \<and> (\<nexists>v. p = UDPTunnel v) \<longrightarrow> sendable cm Clientbound p"
  shows "list_all (sendable cm Clientbound) (sent_to s n)"
  unfolding list_all_iff
proof
  fix p assume p: "p \<in> set (sent_to s n)"
  show "sendable cm Clientbound p"
  proof (cases "\<exists>v. p = UDPTunnel v")
    case True
    with p written_voice [OF assms(1,2)] obtain k seq_num payload pos where
      v: "k < length (session_ids s)" "p = UDPTunnel (Audio 0 (of_nat k) seq_num payload pos)"
      "UDPTunnel (Audio 0 () seq_num payload pos) \<in> set (taken_from k tr)" by blast
    from said_voice [OF assms(3) speech [OF v(1)] v(3)] v(2) show ?thesis using bounded_voice_sendable(2) by auto
  qed (use assms(5) p in blast)
qed

lemma heard_in_order:
  assumes "server_run cfg iter tm tr s" and "iter_ok iter" and "length (session_ids s) \<le> 2 ^ 32" and "k < 2 ^ 32"
    and "sent_to s n = greeting @ received @ rest"
    and "prefix (concat (map packet_voice (taken_from k tr))) (voices op e xs)"
  shows "subseq (heard (of_nat k) received)
    (map (\<lambda>out. Audio 0 (of_nat k) 0 (Opus out False) None) (fst (encode_all op e (chunks xs))))"
proof -
  have "subseq (heard (of_nat k) received) (heard (of_nat k) (sent_to s n))"
    unfolding assms(5) heard_simps by (intro list_emb_append2 list_emb_prefix subseq_order.refl)
  also have "subseq (heard (of_nat k) (sent_to s n)) (said k tr)"
    using order_invD [OF order_inv_run [OF assms(1-3)] assms(4)] by (rule subseq_appendD)
  also have "subseq (said k tr) (concat (map (say_as (of_nat k)) (voices op e xs)))"
    unfolding said_taken by (intro prefix_imp_subseq concat_map_prefix assms(6))
  finally show ?thesis by (simp add: say_voices)
qed

lemma client_speakers:
  assumes "ring_ok rg contents capacity" and "client_run cfg host cm rg op zero e d tr s"
  shows "\<exists>ts. list_all2 (silence_after zero) (played tr) ts \<and> subseq (concat ts) (frames_of op zero d (received_voice tr))"
proof -
  obtain xs ts where "play_inv op zero d contents capacity tr s xs ts" using play_inv_run [OF assms] by blast
  from play_inv_plays_frames(1,2) [OF this] show ?thesis by blast
qed

text \<open>
  C1. From all microphones to the speakers. One server and its clients, each in any run, joined by connections that deliver a
  beginning of the bytes sent, cut anywhere. Then what a client has received of each speaker is, in order, part of the encoded recording
  of that speaker's microphone; no client receives its own voice, and none is received that is not some other client's; and
  what its speakers have played are the decoded packets, in order, with silence in between.
\<close>

theorem microphones_to_speakers:
  fixes ctr :: "nat \<Rightarrow> ('m, 'f) client_label list" and s :: "'m server"
  assumes "ring_ok rg contents capacity" and "encoder_ok op" and "encoder_bounded op" and "protobuf_ok cm"
    and server: "server_run scfg iter tm tr s" "iter_ok iter" "length (session_ids s) \<le> 2 ^ 32"
  defines "N \<equiv> length (session_ids s)"
  assumes clients: "\<forall>k<N. client_run (cfg k) (host k) cm rg op zero e d (ctr k) (cs k)"
    and "\<forall>k<N. \<forall>b. Recorded b \<in> set (ctr k) \<longrightarrow> length b \<le> 95041"
    and up: "\<forall>k<N. carried cm Serverbound (sent_packets (ctr k)) (taken_from k tr)"
    and down: "\<forall>k<N. \<exists>greeting. length greeting \<le> 1 \<and> carried cm Clientbound (sent_to s k) (greeting @ received_packets (ctr k))"
    and "\<forall>k<N. \<forall>p. p \<in> set (sent_packets (ctr k)) \<and> packet_voice p = [] \<longrightarrow> sendable cm Serverbound p"
    and "\<forall>k<N. \<forall>p. p \<in> set (sent_to s k) \<and> (\<nexists>v. p = UDPTunnel v) \<longrightarrow> sendable cm Clientbound p"
    and "n < N"
  shows "(\<forall>k<N. subseq (heard (of_nat k) (received_packets (ctr n)))
        (map (\<lambda>out. Audio 0 (of_nat k) 0 (Opus out False) None) (fst (encode_all op e (chunks (recorded (ctr k))))))) \<and>
    (\<forall>v \<in> set (received_voice (ctr n)). \<exists>k<N. k \<noteq> n \<and> v \<in> set (heard (of_nat k) (received_packets (ctr n)))) \<and>
    (\<exists>ts. list_all2 (silence_after zero) (played (ctr n)) ts \<and>
      subseq (concat ts) (concat (fst (decode_voices op zero d (received_voice (ctr n))))))"
proof -
  have speech: "prefix (concat (map packet_voice (sent_packets (ctr k)))) (voices op e (recorded (ctr k)))" if "k < N" for k
    using client_speech [OF assms(1,2)] clients assms(10) that by blast
  then have "prefix (taken_from k tr) (sent_packets (ctr k))" if "k < N" for k
    using sb.carried_prefix [OF assms(4) client_sends_sendable [OF assms(3) speech]] up assms(13) that by blast
  then have taken: "prefix (concat (map packet_voice (taken_from k tr))) (voices op e (recorded (ctr k)))" if "k < N" for k
    using that concat_map_prefix speech prefix_order.trans by blast
  then have "list_all (sendable cm Clientbound) (sent_to s n)"
    using assms(14,15) by (intro sent_to_sendable [OF server(1,3) assms(3), where xs = "\<lambda>k. recorded (ctr k)"]) (auto simp: N_def)
  then obtain greeting rest where sent: "sent_to s n = greeting @ received_packets (ctr n) @ rest"
    using cb.carried_prefix [OF assms(4)] down assms(15) by (fastforce simp: prefix_def)
  have "subseq (heard (of_nat k) (received_packets (ctr n)))
        (map (\<lambda>out. Audio 0 (of_nat k) 0 (Opus out False) None) (fst (encode_all op e (chunks (recorded (ctr k))))))" if "k < N" for k
    using that server(3) by (intro heard_in_order [OF server _ sent taken]) (simp_all add: N_def)
  moreover have "\<exists>k<N. k \<noteq> n \<and> v \<in> set (heard (of_nat k) (received_packets (ctr n)))" if "v \<in> set (received_voice (ctr n))" for v
  proof -
    have v: "UDPTunnel v \<in> set (received_packets (ctr n))" using that by (simp add: received_voice_packets)
    then have "UDPTunnel v \<in> set (sent_to s n)" by (simp add: sent)
    from written_voice [OF server(1,3) this] v show ?thesis unfolding N_def heard_def by force
  qed
  ultimately show ?thesis using client_speakers [OF assms(1) clients [rule_format, OF assms(15)]] by blast
qed

text \<open>The first of two clients speaks, and the second plays it.\<close>

definition demo_client_trace :: "nat \<Rightarrow> (PacketName \<times> bytes, nat) client_label list" where
  "demo_client_trace k = (if k = 0 then demo_trace tagged_client else demo_hears tagged_client)"

lemma demo_packets:
  "sent_packets (demo_trace cm) = demo_hello cm @ [UDPTunnel demo_voice]" "sent_packets (demo_hears cm) = demo_hello cm"
  "received_packets (demo_trace cm) = []" "received_packets (demo_hears cm) = [UDPTunnel demo_heard]"
  by (simp_all add: sent_packets_def received_packets_def)

theorem microphones_to_speakers_witness:
  "\<exists>s. server_run demo_cfg sorted_list_of_set (server_msgs.truncate tagged_client)
      (talk (client_version tagged_client) (Authenticate_new tagged_client) [7]) s \<and> session_ids s = [0, 1] \<and>
    heard 0 (received_packets (demo_client_trace 1)) = [Audio 0 0 0 (Opus [7] False) None] \<and>
    subseq (heard 0 (received_packets (demo_client_trace 1)))
      (map (\<lambda>out. Audio 0 0 0 (Opus out False) None) (fst (encode_all counting_opus 7 (chunks (recorded (demo_client_trace 0)))))) \<and>
    (\<exists>ts. list_all2 (silence_after 0) [[7, 0]] ts \<and>
      subseq (concat ts) (concat (fst (decode_voices counting_opus 0 () [Audio 0 0 0 (Opus [7] False) None]))))"
proof -
  let ?tr = "talk (client_version tagged_client) (Authenticate_new tagged_client) [7]"
  let ?tm = "server_msgs.truncate tagged_client"
  have "0 < session_timeout demo_cfg" by (simp add: demo_cfg_def)
  then obtain s where run: "server_run demo_cfg sorted_list_of_set ?tm ?tr s" and ids: "session_ids s = [0, 1]"
    and sent: "sent_to s 0 = [Version (server_version ?tm)]" "sent_to s (Suc 0) = [Version (server_version ?tm), UDPTunnel demo_heard]"
    using server_talks [OF sorted_iter.iter_ok, of demo_cfg ?tm "client_version tagged_client" "Authenticate_new tagged_client" "[7]"]
    unfolding One_nat_def by blast
  define N where "N = length (session_ids s)"
  have two: "(\<forall>k<N. P k) \<longleftrightarrow> P 0 \<and> P 1" for P by (auto simp: N_def ids less_Suc_eq)
  obtain c0 c1 where c: "demo_client_run demo_host tagged_client (demo_trace tagged_client) c0"
    "demo_client_run demo_host tagged_client (demo_hears tagged_client) c1"
    using demo_speaks demo_plays by blast
  note trace = demo_client_trace_def demo_packets
  have runs: "\<forall>k<N. demo_client_run demo_host tagged_client (demo_client_trace k) (if k = 0 then c0 else c1)"
    unfolding two by (simp add: c demo_client_trace_def)
  have short: "\<forall>k<N. \<forall>b. Recorded b \<in> set (demo_client_trace k) \<longrightarrow> length b \<le> 95041"
    unfolding two by (auto simp: demo_client_trace_def demo_data_simps)
  have up: "\<forall>k<N. carried tagged_client Serverbound (sent_packets (demo_client_trace k)) (taken_from k ?tr)"
    unfolding two using sb.carried_all [OF tagged_client_ok tagged_sendable(1)] sb.carried_all [OF tagged_client_ok tagged_sendable(2)]
    by (simp add: trace taken_from_def)
  have down: "\<forall>k<N. \<exists>greeting. length greeting \<le> 1 \<and>
      carried tagged_client Clientbound (sent_to s k) (greeting @ received_packets (demo_client_trace k))"
    unfolding two using cb.carried_all [OF tagged_client_ok tagged_sendable(3)] cb.carried_all [OF tagged_client_ok tagged_sendable(4)]
    by (intro conjI exI [of _ "[Version (server_version ?tm)]"]) (simp_all add: trace sent)
  have sendable: "\<forall>k<N. \<forall>p. p \<in> set (sent_packets (demo_client_trace k)) \<and> packet_voice p = [] \<longrightarrow> sendable tagged_client Serverbound p"
    "\<forall>k<N. \<forall>p. p \<in> set (sent_to s k) \<and> (\<nexists>v. p = UDPTunnel v) \<longrightarrow> sendable tagged_client Clientbound p"
    unfolding two using tagged_sendable by (auto simp: trace sent)
  have "1 < N" "length (session_ids s) \<le> 2 ^ 32" by (simp_all add: N_def ids)
  from microphones_to_speakers [OF list_ring_ok counting_opus_ok counting_opus_bounded tagged_client_ok run sorted_iter.iter_ok this(2),
      folded N_def, OF runs short up down sendable this(1), unfolded two]
  show ?thesis using run ids by (auto simp: trace received_voice_def played_def)
qed

end
